(* ===== verification/Prelude.thy ===== *)
theory Prelude
  imports Main "HOL-Library.Word" "HOL-Library.Char_ord" "HOL-Library.List_Lexorder"
begin

text \<open>
  Shared material of the broker development: the names of the model's machine types,
  the plumbing of Rust's \<open>Result\<close> and \<open>Option\<close>, the decimal and hexadecimal printers of
  the standard library's formatting, the concurrent hash map and the hash set the broker
  stores its state in (executable association lists and distinct lists), and the
  generic interfaces the components are verified against: \<open>key_store\<close> (what a map
  promises), \<open>event_machine\<close> (an invariant kept by every operation) and \<open>simulation\<close>
  (an implementation that follows an abstract machine).
\<close>

section \<open>Types and collections of lemmas\<close>

type_synonym u8 = "8 word"
type_synonym u64 = "64 word"
type_synonym i64 = "64 word"
type_synonym uuid = "128 word"

named_theorems store_simps "lookup after update, for maps and hash sets"
named_theorems result_simps "unfolding of the Result and Option plumbing"
named_theorems frame_simps "what an operation leaves unchanged"

section \<open>Result and Option\<close>

text \<open>
  \<open>Result<T, E>\<close> is the sum \<open>'e + 't\<close>: \<open>Inl\<close> is \<open>Err\<close>, \<open>Inr\<close> is \<open>Ok\<close>. The question-mark
  operator is \<open>rbind\<close>.
\<close>

definition rbind :: "'e + 'a \<Rightarrow> ('a \<Rightarrow> 'e + 'b) \<Rightarrow> 'e + 'b" where
  "rbind r f = (case r of Inl e \<Rightarrow> Inl e | Inr a \<Rightarrow> f a)"

definition map_err :: "('e \<Rightarrow> 'f) \<Rightarrow> 'e + 'a \<Rightarrow> 'f + 'a" where
  "map_err f r = (case r of Inl e \<Rightarrow> Inl (f e) | Inr a \<Rightarrow> Inr a)"

definition ok_or :: "'e \<Rightarrow> 'a option \<Rightarrow> 'e + 'a" where
  "ok_or e x = (case x of None \<Rightarrow> Inl e | Some a \<Rightarrow> Inr a)"

lemma rbind_simps [simp]: "rbind (Inl e) f = Inl e" "rbind (Inr a) f = f a"
  by (simp_all add: rbind_def)

lemma map_err_simps [simp]: "map_err f (Inl e) = Inl (f e)" "map_err f (Inr a) = Inr a"
  by (simp_all add: map_err_def)

lemma ok_or_simps [simp]: "ok_or e None = Inl e" "ok_or e (Some a) = Inr a"
  by (simp_all add: ok_or_def)

lemma rbind_Inr [result_simps]: "rbind r f = Inr b \<longleftrightarrow> (\<exists>a. r = Inr a \<and> f a = Inr b)"
  by (cases r) auto

lemma rbind_Inl [result_simps]:
  "rbind r f = Inl e \<longleftrightarrow> r = Inl e \<or> (\<exists>a. r = Inr a \<and> f a = Inl e)"
  by (cases r) auto

lemma map_err_Inr [result_simps]: "map_err f r = Inr a \<longleftrightarrow> r = Inr a"
  by (cases r) auto

lemma map_err_Inl [result_simps]: "map_err f r = Inl e \<longleftrightarrow> (\<exists>d. r = Inl d \<and> e = f d)"
  by (cases r) auto

lemma ok_or_Inr [result_simps]: "ok_or e x = Inr a \<longleftrightarrow> x = Some a"
  by (cases x) auto

lemma ok_or_Inl [result_simps]: "ok_or e x = Inl d \<longleftrightarrow> x = None \<and> d = e"
  by (cases x) auto

section \<open>Printing numbers\<close>

definition digit_char :: "nat \<Rightarrow> char" where
  "digit_char d = (if d < 10 then char_of (48 + d) else char_of (87 + d))"

fun show_nat :: "nat \<Rightarrow> string" where
  "show_nat n = (if n < 10 then [digit_char n] else show_nat (n div 10) @ [digit_char (n mod 10)])"

fun show_hex :: "nat \<Rightarrow> string" where
  "show_hex n = (if n < 16 then [digit_char n] else show_hex (n div 16) @ [digit_char (n mod 16)])"

declare show_nat.simps [simp del] show_hex.simps [simp del]

definition show_int :: "int \<Rightarrow> string" where
  "show_int i = (if i < 0 then CHR ''-'' # show_nat (nat (- i)) else show_nat (nat i))"

text \<open>Reading the digits back: the printers lose nothing.\<close>

definition digit_val :: "char \<Rightarrow> nat" where
  "digit_val c = (if of_char c < (58::nat) then of_char c - 48 else of_char c - 87)"

definition read_base :: "nat \<Rightarrow> string \<Rightarrow> nat" where
  "read_base b s = foldl (\<lambda>a c. b * a + digit_val c) 0 s"

lemma digit_val_char [simp]: "d < 16 \<Longrightarrow> digit_val (digit_char d) = d"
  by (simp add: digit_val_def digit_char_def of_char_of)

lemma read_base_snoc [simp]: "read_base b (s @ [c]) = b * read_base b s + digit_val c"
  by (simp add: read_base_def)

lemma read_show_nat [simp]: "read_base 10 (show_nat n) = n"
proof (induction n rule: show_nat.induct)
  case (1 n)
  show ?case
  proof (cases "n < 10")
    case True
    then show ?thesis by (simp add: show_nat.simps [of n] read_base_def)
  next
    case False
    with 1 show ?thesis by (simp add: show_nat.simps [of n])
  qed
qed

lemma read_show_hex [simp]: "read_base 16 (show_hex n) = n"
proof (induction n rule: show_hex.induct)
  case (1 n)
  show ?case
  proof (cases "n < 16")
    case True
    then show ?thesis by (simp add: show_hex.simps [of n] read_base_def)
  next
    case False
    with 1 show ?thesis by (simp add: show_hex.simps [of n])
  qed
qed

lemma show_nat_inject [simp]: "show_nat m = show_nat n \<longleftrightarrow> m = n"
  by (metis read_show_nat)

lemma show_hex_inject [simp]: "show_hex m = show_hex n \<longleftrightarrow> m = n"
  by (metis read_show_hex)

definition decimal_digits :: "char set" where
  "decimal_digits = digit_char ` {..<10}"

lemma show_nat_digits: "set (show_nat n) \<subseteq> decimal_digits"
proof (induction n rule: show_nat.induct)
  case (1 n)
  then show ?case
    by (cases "n < 10") (auto simp: show_nat.simps [of n] decimal_digits_def)
qed

lemma separator_not_digit: "CHR ''.'' \<notin> decimal_digits" "CHR '':'' \<notin> decimal_digits"
proof -
  have "of_char c \<in> {48..<58::nat}" if "c \<in> decimal_digits" for c
    using that by (auto simp: decimal_digits_def digit_char_def of_char_of)
  from this [of "CHR ''.''"] this [of "CHR '':''"]
  show "CHR ''.'' \<notin> decimal_digits" "CHR '':'' \<notin> decimal_digits" by auto
qed

text \<open>A text split at the first separator: what stands before it is determined.\<close>

lemma append_sep_inject:
  assumes "x \<notin> set xs" "x \<notin> set ys"
  shows "xs @ x # us = ys @ x # vs \<longleftrightarrow> xs = ys \<and> us = vs"
  using assms
proof (induction xs arbitrary: ys)
  case Nil
  then show ?case by (cases ys) auto
next
  case (Cons a xs)
  then show ?case by (cases ys) auto
qed

section \<open>The concurrent hash map\<close>

text \<open>
  \<open>dashmap::DashMap<K, V>\<close> as an association list with at most one entry per key.
  Iteration order is unspecified in Rust; the list order is one of the possible ones, and
  the properties below never depend on it.
\<close>

type_synonym ('k, 'v) dashmap = "('k \<times> 'v) list"

definition dm_empty :: "('k, 'v) dashmap" where
  "dm_empty = []"

definition dm_get :: "('k, 'v) dashmap \<Rightarrow> 'k \<Rightarrow> 'v option" where
  "dm_get m k = map_of m k"

definition dm_remove :: "'k \<Rightarrow> ('k, 'v) dashmap \<Rightarrow> ('k, 'v) dashmap" where
  "dm_remove k m = filter (\<lambda>p. fst p \<noteq> k) m"

definition dm_insert :: "'k \<Rightarrow> 'v \<Rightarrow> ('k, 'v) dashmap \<Rightarrow> ('k, 'v) dashmap" where
  "dm_insert k v m = (k, v) # dm_remove k m"

definition dm_keys :: "('k, 'v) dashmap \<Rightarrow> 'k list" where
  "dm_keys m = map fst m"

definition dm_len :: "('k, 'v) dashmap \<Rightarrow> nat" where
  "dm_len m = length m"

definition dm_wf :: "('k, 'v) dashmap \<Rightarrow> bool" where
  "dm_wf m = distinct (map fst m)"

text \<open>What a client of a map relies on, and what it can derive from it.\<close>

locale key_store =
  fixes empty :: "'m"
    and get :: "'m \<Rightarrow> 'k \<Rightarrow> 'v option"
    and insert :: "'k \<Rightarrow> 'v \<Rightarrow> 'm \<Rightarrow> 'm"
    and remove :: "'k \<Rightarrow> 'm \<Rightarrow> 'm"
    and keys :: "'m \<Rightarrow> 'k list"
    and wf :: "'m \<Rightarrow> bool"
  assumes get_empty: "get empty k = None"
    and get_insert: "get (insert k v m) k' = (if k' = k then Some v else get m k')"
    and get_remove: "get (remove k m) k' = (if k' = k then None else get m k')"
    and set_keys: "k \<in> set (keys m) \<longleftrightarrow> get m k \<noteq> None"
    and wf_empty: "wf empty"
    and wf_insert: "wf m \<Longrightarrow> wf (insert k v m)"
    and wf_remove: "wf m \<Longrightarrow> wf (remove k m)"
    and distinct_keys: "wf m \<Longrightarrow> distinct (keys m)"
begin

lemma get_remove_all: "get (fold remove ks m) k = (if k \<in> set ks then None else get m k)"
  by (induction ks arbitrary: m) (auto simp: get_remove)

lemma wf_remove_all: "wf m \<Longrightarrow> wf (fold remove ks m)"
  by (induction ks arbitrary: m) (auto simp: wf_remove)

lemma keys_insert: "set (keys (insert k v m)) = Set.insert k (set (keys m))"
  by (auto simp: set_keys get_insert split: if_splits)

lemma keys_remove: "set (keys (remove k m)) = set (keys m) - {k}"
  by (auto simp: set_keys get_remove split: if_splits)

lemma length_keys: "wf m \<Longrightarrow> length (keys m) = card {k. get m k \<noteq> None}"
  by (metis (mono_tags, lifting) Collect_cong Collect_mem_eq distinct_card distinct_keys set_keys)

end

lemma dm_get_remove: "dm_get (dm_remove k m) k' = (if k' = k then None else dm_get m k')"
  by (induction m) (auto simp: dm_get_def dm_remove_def)

lemma dm_wf_remove: "dm_wf m \<Longrightarrow> dm_wf (dm_remove k m)"
  by (simp add: dm_wf_def dm_remove_def distinct_map_filter)

lemma dm_keys_get: "k \<in> set (dm_keys m) \<longleftrightarrow> dm_get m k \<noteq> None"
  by (force simp: dm_keys_def dm_get_def map_of_eq_None_iff)

interpretation dm: key_store dm_empty dm_get dm_insert dm_remove dm_keys dm_wf
proof unfold_locales
  fix k k' :: 'k and v :: 'v and m :: "('k, 'v) dashmap"
  show "dm_get dm_empty k = (None :: 'v option)"
    by (simp add: dm_get_def dm_empty_def)
  show "dm_get (dm_insert k v m) k' = (if k' = k then Some v else dm_get m k')"
    using dm_get_remove [of k m k'] by (auto simp: dm_insert_def dm_get_def)
  show "dm_wf m \<Longrightarrow> dm_wf (dm_insert k v m)"
    using dm_wf_remove [of m k] by (auto simp: dm_insert_def dm_wf_def dm_remove_def)
  show "dm_wf m \<Longrightarrow> distinct (dm_keys m)"
    by (simp add: dm_wf_def dm_keys_def)
next
  show "dm_wf dm_empty"
    by (simp add: dm_wf_def dm_empty_def)
qed (simp_all add: dm_get_remove dm_wf_remove dm_keys_get)

lemmas dm_simps [simp, store_simps] =
  dm.get_empty dm.get_insert dm.get_remove dm.get_remove_all
  dm.wf_empty dm.wf_insert dm.wf_remove dm.wf_remove_all

lemma dm_len_eq: "dm_wf m \<Longrightarrow> dm_len m = card {k. dm_get m k \<noteq> None}"
  using dm.length_keys [of m] by (simp add: dm_len_def dm_keys_def)

lemma dm_finite: "finite {k. dm_get m k \<noteq> None}"
  using finite_dom_map_of [of m] by (simp add: dm_get_def dom_def)

lemma dm_len_insert: "dm_wf m \<Longrightarrow> dm_get m k = None \<Longrightarrow> dm_len (dm_insert k v m) = Suc (dm_len m)"
proof -
  assume "dm_wf m" "dm_get m k = None"
  moreover have "{j. dm_get (dm_insert k v m) j \<noteq> None} = insert k {j. dm_get m j \<noteq> None}" by auto
  ultimately show ?thesis using dm_finite [of m] by (simp add: dm_len_eq)
qed

lemma dm_len_remove: "dm_wf m \<Longrightarrow> dm_get m k \<noteq> None \<Longrightarrow> Suc (dm_len (dm_remove k m)) = dm_len m"
proof -
  assume "dm_wf m" "dm_get m k \<noteq> None"
  moreover have "{j. dm_get (dm_remove k m) j \<noteq> None} = {j. dm_get m j \<noteq> None} - {k}" by auto
  ultimately show ?thesis using dm_finite [of m] card_Suc_Diff1 [of "{j. dm_get m j \<noteq> None}" k] by (simp add: dm_len_eq)
qed

lemma dm_get_filter:
  "dm_wf m \<Longrightarrow> dm_get (filter P m) k = (case dm_get m k of Some v \<Rightarrow> if P (k, v) then Some v else None | None \<Rightarrow> None)"
  by (induction m) (force simp: dm_get_def dm_wf_def map_of_eq_None_iff split: option.splits dest: map_of_SomeD)+

section \<open>The hash set\<close>

text \<open>\<open>HashSet<T>\<close> as a list without repetitions; again the order carries no meaning.\<close>

definition hs_insert :: "'a \<Rightarrow> 'a list \<Rightarrow> 'a list" where
  "hs_insert x s = (if x \<in> set s then s else s @ [x])"

definition hs_remove :: "'a \<Rightarrow> 'a list \<Rightarrow> 'a list" where
  "hs_remove x s = filter (\<lambda>y. y \<noteq> x) s"

lemma hs_simps [simp, store_simps]:
  "set (hs_insert x s) = insert x (set s)"
  "set (hs_remove x s) = set s - {x}"
  "distinct (hs_insert x s) = distinct s"
  "distinct s \<Longrightarrow> distinct (hs_remove x s)"
  by (auto simp: hs_insert_def hs_remove_def)

lemma hs_remove_Nil: "hs_remove x s = [] \<longleftrightarrow> set s \<subseteq> {x}"
  by (auto simp: hs_remove_def filter_empty_conv)

lemma count_list_distinct: "distinct xs \<Longrightarrow> count_list xs x = (if x \<in> set xs then 1 else 0)"
  by (induction xs) (auto simp: count_list_0_iff)

lemma find_append: "find P (xs @ ys) = (case find P xs of None \<Rightarrow> find P ys | Some x \<Rightarrow> Some x)"
  by (induction xs) simp_all

lemma find_SomeD: "find P xs = Some x \<Longrightarrow> P x \<and> x \<in> set xs"
  by (induction xs) (auto split: if_splits)

lemma find_map: "(\<And>x. P (g x) = P x) \<Longrightarrow> find P (map g xs) = map_option g (find P xs)"
  by (induction xs) simp_all

lemma find_key:
  "distinct (map key xs) \<Longrightarrow> x \<in> set xs \<Longrightarrow> find (\<lambda>y. key y = key x) xs = Some x"
  by (induction xs) auto

section \<open>Machines, invariants and simulations\<close>

text \<open>
  A component is a state and a step per operation. \<open>ok s e\<close> is what the caller owes: the
  operations a component may be given in a state.
\<close>

locale event_machine =
  fixes step :: "'s \<Rightarrow> 'e \<Rightarrow> 's"
    and ok :: "'s \<Rightarrow> 'e \<Rightarrow> bool"
    and inv :: "'s \<Rightarrow> bool"
  assumes step_inv: "inv s \<Longrightarrow> ok s e \<Longrightarrow> inv (step s e)"
begin

inductive legal_run :: "'s \<Rightarrow> 'e list \<Rightarrow> 's \<Rightarrow> bool" where
  legal_nil: "legal_run s [] s"
| legal_cons: "ok s e \<Longrightarrow> legal_run (step s e) es t \<Longrightarrow> legal_run s (e # es) t"

lemma legal_run_foldl: "legal_run s es t \<Longrightarrow> t = foldl step s es"
  by (induction rule: legal_run.induct) simp_all

lemma legal_run_inv: "legal_run s es t \<Longrightarrow> inv s \<Longrightarrow> inv t"
  by (induction rule: legal_run.induct) (auto intro: step_inv)

lemma legal_run_total: "(\<And>s e. ok s e) \<Longrightarrow> legal_run s es (foldl step s es)"
  by (induction es arbitrary: s) (auto intro: legal_run.intros)

lemma foldl_inv: "(\<And>s e. ok s e) \<Longrightarrow> inv s \<Longrightarrow> inv (foldl step s es)"
  using legal_run_inv legal_run_total by blast

end

text \<open>A machine that follows an abstract one through an abstraction function.\<close>

locale simulation = event_machine step ok inv
  for step :: "'s \<Rightarrow> 'e \<Rightarrow> 's" and ok :: "'s \<Rightarrow> 'e \<Rightarrow> bool" and inv :: "'s \<Rightarrow> bool" +
  fixes abs :: "'s \<Rightarrow> 'a"
    and astep :: "'a \<Rightarrow> 'e \<Rightarrow> 'a"
  assumes step_abs: "inv s \<Longrightarrow> ok s e \<Longrightarrow> abs (step s e) = astep (abs s) e"
begin

lemma legal_run_abs: "legal_run s es t \<Longrightarrow> inv s \<Longrightarrow> abs t = foldl astep (abs s) es"
  by (induction rule: legal_run.induct) (auto simp: step_abs step_inv)

lemma foldl_abs:
  "(\<And>s e. ok s e) \<Longrightarrow> inv s \<Longrightarrow> abs (foldl step s es) = foldl astep (abs s) es"
  using legal_run_abs legal_run_total by blast

end

text \<open>Tasks that run at the same time: a step relation whose steps keep an invariant.\<close>

locale transition_system =
  fixes trans :: "'s \<Rightarrow> 's \<Rightarrow> bool"
    and inv :: "'s \<Rightarrow> bool"
  assumes trans_inv: "trans s t \<Longrightarrow> inv s \<Longrightarrow> inv t"
begin

lemma reach_inv: "trans\<^sup>*\<^sup>* s t \<Longrightarrow> inv s \<Longrightarrow> inv t"
  by (induction rule: rtranclp_induct) (auto intro: trans_inv)

lemma reach_keeps:
  assumes "\<And>s t. trans s t \<Longrightarrow> f t = f s"
  shows "trans\<^sup>*\<^sup>* s t \<Longrightarrow> f t = f s"
  by (induction rule: rtranclp_induct) (auto dest: assms)

end

section \<open>Characters and bytes\<close>

text \<open>A Rust string is its UTF-8 bytes; a \<open>char\<close> of the model is one byte.\<close>

definition byte_of :: "char \<Rightarrow> u8" where
  "byte_of c = of_nat (of_char c)"

definition char_of_byte :: "u8 \<Rightarrow> char" where
  "char_of_byte b = char_of (unat b)"

lemma char_of_byte_of [simp]: "char_of_byte (byte_of c) = c"
  by (simp add: char_of_byte_def byte_of_def unat_of_nat)

lemma byte_of_char_of_byte [simp]: "byte_of (char_of_byte b) = b"
  using unsigned_less [of b, where ?'a = nat] by (simp add: char_of_byte_def byte_of_def of_char_of)

lemma byte_of_inject [simp]: "byte_of c = byte_of d \<longleftrightarrow> c = d"
  by (metis char_of_byte_of)

lemma map_byte_of_inject [simp]: "map byte_of s = map byte_of t \<longleftrightarrow> s = t"
  by (metis (mono_tags, lifting) byte_of_inject injI inj_map_eq_map)

end
