(* ===== verification/Broker_Error.thy ===== *)
theory Broker_Error
  imports Prelude
begin

text \<open>
  \<open>src/error.rs\<close>: the error type every fallible operation of the broker returns, its wire
  code and its display text. \<open>sqlx::Error\<close> and \<open>std::io::Error\<close> are carried as their
  display text.
\<close>

datatype broker_error =
    InvalidPubKey string
  | InvalidSignature string
  | SignatureVerifyFailed
  | StaleMessage i64
  | FutureMessage i64
  | Malformed string
  | HandleTaken
  | HandleAlreadyOwned
  | PeerNotFound
  | PeerOffline
  | PayloadTooLarge nat nat
  | RateLimited
  | RelayQuotaExceeded
  | RelayNotConsented
  | RelaySessionNotFound
  | Database string
  | Io string
  | Internal string

type_synonym 'a result = "broker_error + 'a"

fun code :: "broker_error \<Rightarrow> string" where
  "code (InvalidPubKey _) = ''invalid_pubkey''"
| "code (InvalidSignature _) = ''invalid_signature''"
| "code SignatureVerifyFailed = ''signature_verify_failed''"
| "code (StaleMessage _) = ''stale_message''"
| "code (FutureMessage _) = ''future_message''"
| "code (Malformed _) = ''malformed''"
| "code HandleTaken = ''handle_taken''"
| "code HandleAlreadyOwned = ''handle_already_owned''"
| "code PeerNotFound = ''peer_not_found''"
| "code PeerOffline = ''peer_offline''"
| "code (PayloadTooLarge _ _) = ''payload_too_large''"
| "code RateLimited = ''rate_limited''"
| "code RelayQuotaExceeded = ''relay_quota_exceeded''"
| "code RelayNotConsented = ''relay_not_consented''"
| "code RelaySessionNotFound = ''relay_session_not_found''"
| "code (Database _) = ''database_error''"
| "code (Io _) = ''io_error''"
| "code (Internal _) = ''internal_error''"

text \<open>The \<open>Display\<close> text that the \<open>#[error]\<close> attributes give.\<close>

fun error_to_string :: "broker_error \<Rightarrow> string" where
  "error_to_string (InvalidPubKey s) = ''invalid public key: '' @ s"
| "error_to_string (InvalidSignature s) = ''invalid signature: '' @ s"
| "error_to_string SignatureVerifyFailed = ''signature verification failed''"
| "error_to_string (StaleMessage d) = ''message too old (drift '' @ show_int (sint d) @ ''s > 60s)''"
| "error_to_string (FutureMessage d) =
     ''message in the future (drift '' @ show_int (sint d) @ ''s > 60s)''"
| "error_to_string (Malformed s) = ''malformed message: '' @ s"
| "error_to_string HandleTaken = ''handle already claimed''"
| "error_to_string HandleAlreadyOwned = ''peer already has a handle claimed''"
| "error_to_string PeerNotFound = ''peer not found''"
| "error_to_string PeerOffline = ''peer offline''"
| "error_to_string (PayloadTooLarge sz mx) =
     ''payload too large ('' @ show_nat sz @ '' > '' @ show_nat mx @ '')''"
| "error_to_string RateLimited = ''rate limit exceeded''"
| "error_to_string RelayQuotaExceeded = ''relay quota exceeded''"
| "error_to_string RelayNotConsented = ''relay peer did not consent''"
| "error_to_string RelaySessionNotFound = ''relay session not found''"
| "error_to_string (Database s) = ''database error: '' @ s"
| "error_to_string (Io s) = ''io error: '' @ s"
| "error_to_string (Internal s) = ''internal: '' @ s"

text \<open>The variant of an error, by number, without its payload.\<close>

fun variant :: "broker_error \<Rightarrow> nat" where
  "variant (InvalidPubKey _) = 0"
| "variant (InvalidSignature _) = 1"
| "variant SignatureVerifyFailed = 2"
| "variant (StaleMessage _) = 3"
| "variant (FutureMessage _) = 4"
| "variant (Malformed _) = 5"
| "variant HandleTaken = 6"
| "variant HandleAlreadyOwned = 7"
| "variant PeerNotFound = 8"
| "variant PeerOffline = 9"
| "variant (PayloadTooLarge _ _) = 10"
| "variant RateLimited = 11"
| "variant RelayQuotaExceeded = 12"
| "variant RelayNotConsented = 13"
| "variant RelaySessionNotFound = 14"
| "variant (Database _) = 15"
| "variant (Io _) = 16"
| "variant (Internal _) = 17"

lemma code_variant: "code e = code e' \<longleftrightarrow> variant e = variant e'"
  by (cases e; cases e') simp_all

end
