(* ===== verification/Protocol.thy ===== *)
theory Protocol
  imports Broker_Error
begin

text \<open>
  \<open>src/protocol.rs\<close>: the wire types and the canonical signing bytes. The JSON value of
  \<open>serde_json\<close> is \<open>json\<close>; an object is a list of entries in key order, which is the
  \<open>BTreeMap\<close> that \<open>serde_json::Map\<close> is in this build (Cargo.lock shows no \<open>preserve_order\<close>).
  \<open>to_value\<close> is what the \<open>#[derive(Serialize)]\<close> attributes of \<open>ClientMessage\<close> say:
  the tag, the fields in declaration order under their names, and no entry for an optional
  field marked \<open>skip_serializing_if\<close> that is \<open>None\<close>.
\<close>

section \<open>Data\<close>

record peer_addresses =
  lan :: "string list"
  public_addr :: "string option"

definition default_addresses :: peer_addresses where
  "default_addresses = \<lparr>lan = [], public_addr = None\<rparr>"

datatype identity_kind = User | Machine

fun kind_as_str :: "identity_kind \<Rightarrow> string" where
  "kind_as_str User = ''user''"
| "kind_as_str Machine = ''machine''"

definition kind_parse :: "string \<Rightarrow> identity_kind option" where
  "kind_parse s = (if s = ''user'' then Some User else if s = ''machine'' then Some Machine else None)"

text \<open>Fields in the order of the source; the last two of most variants are the signature
  and the optional request id.\<close>

datatype client_message =
    Register string "string option" peer_addresses "identity_kind option" i64 string "string option"
  | LookupPeer string string i64 string "string option"
  | LookupHandle string string i64 string "string option"
  | Signal string string string i64 string "string option"
  | SubscribePresence string "string list" i64 string "string option"
  | UnsubscribePresence string "string list" i64 string "string option"
  | RequestRelay string string i64 string "string option"
  | AcceptRelay string string i64 string "string option"
  | Relay string string string i64 string
  | TeamAnnounce string "string option" string string string i64 string "string option"
  | TeamLookup string string i64 string "string option"
  | Ping string i64 string

fun cm_pubkey :: "client_message \<Rightarrow> string" where
  "cm_pubkey (Register pk _ _ _ _ _ _) = pk"
| "cm_pubkey (LookupPeer pk _ _ _ _) = pk"
| "cm_pubkey (LookupHandle pk _ _ _ _) = pk"
| "cm_pubkey (Signal pk _ _ _ _ _) = pk"
| "cm_pubkey (SubscribePresence pk _ _ _ _) = pk"
| "cm_pubkey (UnsubscribePresence pk _ _ _ _) = pk"
| "cm_pubkey (RequestRelay pk _ _ _ _) = pk"
| "cm_pubkey (AcceptRelay pk _ _ _ _) = pk"
| "cm_pubkey (Relay pk _ _ _ _) = pk"
| "cm_pubkey (TeamAnnounce pk _ _ _ _ _ _ _) = pk"
| "cm_pubkey (TeamLookup pk _ _ _ _) = pk"
| "cm_pubkey (Ping pk _ _) = pk"

fun cm_timestamp :: "client_message \<Rightarrow> i64" where
  "cm_timestamp (Register _ _ _ _ ts _ _) = ts"
| "cm_timestamp (LookupPeer _ _ ts _ _) = ts"
| "cm_timestamp (LookupHandle _ _ ts _ _) = ts"
| "cm_timestamp (Signal _ _ _ ts _ _) = ts"
| "cm_timestamp (SubscribePresence _ _ ts _ _) = ts"
| "cm_timestamp (UnsubscribePresence _ _ ts _ _) = ts"
| "cm_timestamp (RequestRelay _ _ ts _ _) = ts"
| "cm_timestamp (AcceptRelay _ _ ts _ _) = ts"
| "cm_timestamp (Relay _ _ _ ts _) = ts"
| "cm_timestamp (TeamAnnounce _ _ _ _ _ ts _ _) = ts"
| "cm_timestamp (TeamLookup _ _ ts _ _) = ts"
| "cm_timestamp (Ping _ ts _) = ts"

fun cm_signature :: "client_message \<Rightarrow> string" where
  "cm_signature (Register _ _ _ _ _ sg _) = sg"
| "cm_signature (LookupPeer _ _ _ sg _) = sg"
| "cm_signature (LookupHandle _ _ _ sg _) = sg"
| "cm_signature (Signal _ _ _ _ sg _) = sg"
| "cm_signature (SubscribePresence _ _ _ sg _) = sg"
| "cm_signature (UnsubscribePresence _ _ _ sg _) = sg"
| "cm_signature (RequestRelay _ _ _ sg _) = sg"
| "cm_signature (AcceptRelay _ _ _ sg _) = sg"
| "cm_signature (Relay _ _ _ _ sg) = sg"
| "cm_signature (TeamAnnounce _ _ _ _ _ _ sg _) = sg"
| "cm_signature (TeamLookup _ _ _ sg _) = sg"
| "cm_signature (Ping _ _ sg) = sg"

fun cm_request_id :: "client_message \<Rightarrow> string option" where
  "cm_request_id (Register _ _ _ _ _ _ rid) = rid"
| "cm_request_id (LookupPeer _ _ _ _ rid) = rid"
| "cm_request_id (LookupHandle _ _ _ _ rid) = rid"
| "cm_request_id (Signal _ _ _ _ _ rid) = rid"
| "cm_request_id (SubscribePresence _ _ _ _ rid) = rid"
| "cm_request_id (UnsubscribePresence _ _ _ _ rid) = rid"
| "cm_request_id (RequestRelay _ _ _ _ rid) = rid"
| "cm_request_id (AcceptRelay _ _ _ _ rid) = rid"
| "cm_request_id (TeamAnnounce _ _ _ _ _ _ _ rid) = rid"
| "cm_request_id (TeamLookup _ _ _ _ rid) = rid"
| "cm_request_id (Relay _ _ _ _ _) = None"
| "cm_request_id (Ping _ _ _) = None"

record team_member =
  tm_pubkey :: string
  tm_online :: bool
  tm_joined_at :: int

text \<open>\<open>SignalMsg\<close> and \<open>ErrorMsg\<close> are the source's \<open>ServerMessage::Signal\<close> and
  \<open>ServerMessage::Error\<close>.\<close>

datatype server_message =
    Registered string string bool "string option"
  | PeerInfo string "string option" peer_addresses "string option" bool "identity_kind option" "string option"
  | SignalMsg string string i64
  | PresenceUpdate string bool
  | SubscribePresenceAck "string list" "string option"
  | RelayOffer string string
  | RelaySessionEstablished string string "string option"
  | RelayData string string string
  | TeamAnnounced string "string option"
  | TeamMembers string "team_member list" "string option"
  | Pong i64
  | ErrorMsg string string "string option"

definition SIGNALING_MAX_PAYLOAD :: nat where
  "SIGNALING_MAX_PAYLOAD = 4 * 1024"

definition RELAY_MAX_FRAME :: nat where
  "RELAY_MAX_FRAME = 64 * 1024"

section \<open>JSON values and canonical bytes\<close>

datatype json =
    JNull
  | JBool bool
  | JNumber int
  | JFloat u64
  | JStr string
  | JArr "json list"
  | JObj "(string \<times> json) list"

fun btree_insert :: "string \<Rightarrow> json \<Rightarrow> (string \<times> json) list \<Rightarrow> (string \<times> json) list" where
  "btree_insert k v [] = [(k, v)]"
| "btree_insert k v ((k', v') # m) =
     (if k = k' then (k, v) # m
      else if k < k' then (k, v) # (k', v') # m
      else (k', v') # btree_insert k v m)"

definition object_of :: "(string \<times> json) list \<Rightarrow> (string \<times> json) list" where
  "object_of kvs = fold (\<lambda>(k, v). btree_insert k v) kvs []"

definition opt_field :: "string \<Rightarrow> string option \<Rightarrow> (string \<times> json) list" where
  "opt_field k x = (case x of None \<Rightarrow> [] | Some s \<Rightarrow> [(k, JStr s)])"

definition addresses_value :: "peer_addresses \<Rightarrow> json" where
  "addresses_value a = JObj (object_of
     [(''lan'', JArr (map JStr (lan a))),
      (''public'', case public_addr a of None \<Rightarrow> JNull | Some s \<Rightarrow> JStr s)])"

fun message_fields :: "client_message \<Rightarrow> (string \<times> json) list" where
  "message_fields (Register pk h a kd ts sg rid) =
     [(''type'', JStr ''register''), (''pubkey'', JStr pk)] @ opt_field ''handle'' h @
     [(''addresses'', addresses_value a)] @ opt_field ''kind'' (map_option kind_as_str kd) @
     [(''timestamp'', JNumber (sint ts)), (''signature'', JStr sg)] @ opt_field ''request_id'' rid"
| "message_fields (LookupPeer pk target ts sg rid) =
     [(''type'', JStr ''lookup_peer''), (''pubkey'', JStr pk), (''target_pubkey'', JStr target),
      (''timestamp'', JNumber (sint ts)), (''signature'', JStr sg)] @ opt_field ''request_id'' rid"
| "message_fields (LookupHandle pk target ts sg rid) =
     [(''type'', JStr ''lookup_handle''), (''pubkey'', JStr pk), (''target_handle'', JStr target),
      (''timestamp'', JNumber (sint ts)), (''signature'', JStr sg)] @ opt_field ''request_id'' rid"
| "message_fields (Signal pk dest payload ts sg rid) =
     [(''type'', JStr ''signal''), (''pubkey'', JStr pk), (''to'', JStr dest), (''payload'', JStr payload),
      (''timestamp'', JNumber (sint ts)), (''signature'', JStr sg)] @ opt_field ''request_id'' rid"
| "message_fields (SubscribePresence pk ps ts sg rid) =
     [(''type'', JStr ''subscribe_presence''), (''pubkey'', JStr pk), (''peers'', JArr (map JStr ps)),
      (''timestamp'', JNumber (sint ts)), (''signature'', JStr sg)] @ opt_field ''request_id'' rid"
| "message_fields (UnsubscribePresence pk ps ts sg rid) =
     [(''type'', JStr ''unsubscribe_presence''), (''pubkey'', JStr pk), (''peers'', JArr (map JStr ps)),
      (''timestamp'', JNumber (sint ts)), (''signature'', JStr sg)] @ opt_field ''request_id'' rid"
| "message_fields (RequestRelay pk peer ts sg rid) =
     [(''type'', JStr ''request_relay''), (''pubkey'', JStr pk), (''peer'', JStr peer),
      (''timestamp'', JNumber (sint ts)), (''signature'', JStr sg)] @ opt_field ''request_id'' rid"
| "message_fields (AcceptRelay pk sid ts sg rid) =
     [(''type'', JStr ''accept_relay''), (''pubkey'', JStr pk), (''session_id'', JStr sid),
      (''timestamp'', JNumber (sint ts)), (''signature'', JStr sg)] @ opt_field ''request_id'' rid"
| "message_fields (Relay pk sid data ts sg) =
     [(''type'', JStr ''relay''), (''pubkey'', JStr pk), (''session_id'', JStr sid), (''data'', JStr data),
      (''timestamp'', JNumber (sint ts)), (''signature'', JStr sg)]"
| "message_fields (TeamAnnounce pk tid name admin asig ts sg rid) =
     [(''type'', JStr ''team_announce''), (''pubkey'', JStr pk)] @ opt_field ''team_id'' tid @
     [(''team_name'', JStr name), (''admin_pubkey'', JStr admin), (''admin_signature'', JStr asig),
      (''timestamp'', JNumber (sint ts)), (''signature'', JStr sg)] @ opt_field ''request_id'' rid"
| "message_fields (TeamLookup pk tid ts sg rid) =
     [(''type'', JStr ''team_lookup''), (''pubkey'', JStr pk), (''team_id'', JStr tid),
      (''timestamp'', JNumber (sint ts)), (''signature'', JStr sg)] @ opt_field ''request_id'' rid"
| "message_fields (Ping pk ts sg) =
     [(''type'', JStr ''ping''), (''pubkey'', JStr pk),
      (''timestamp'', JNumber (sint ts)), (''signature'', JStr sg)]"

definition to_value :: "client_message \<Rightarrow> json" where
  "to_value m = JObj (object_of (message_fields m))"

text \<open>The value that is printed and signed: \<open>canonical_bytes\<close> up to \<open>serde_json::to_vec\<close>,
  which is the argument \<open>to_vec\<close>.\<close>

definition canonical_value :: "client_message \<Rightarrow> json" where
  "canonical_value m =
     (case to_value m of
        JObj obj \<Rightarrow> JObj (btree_insert ''signature'' (JStr '''') obj)
      | v \<Rightarrow> v)"

definition canonical_bytes :: "(json \<Rightarrow> u8 list) \<Rightarrow> client_message \<Rightarrow> u8 list" where
  "canonical_bytes to_vec m = to_vec (canonical_value m)"

section \<open>Sorted objects\<close>

definition strictly_sorted :: "(string \<times> json) list \<Rightarrow> bool" where
  "strictly_sorted m = sorted_wrt (<) (map fst m)"

lemma map_of_btree_insert [simp]: "map_of (btree_insert k v m) = (map_of m)(k \<mapsto> v)"
  by (induction m rule: btree_insert.induct) auto

lemma keys_btree_insert [simp]: "fst ` set (btree_insert k v m) = insert k (fst ` set m)"
  by (induction m rule: btree_insert.induct) auto

lemma sorted_btree_insert [intro]: "strictly_sorted m \<Longrightarrow> strictly_sorted (btree_insert k v m)"
proof (induction k v m rule: btree_insert.induct)
  case (2 k v k' v' m)
  then have IH: "k \<noteq> k' \<Longrightarrow> \<not> k < k' \<Longrightarrow> strictly_sorted (btree_insert k v m)"
    by (simp add: strictly_sorted_def)
  have "k' < x" if "k \<noteq> k'" "\<not> k < k'" "x \<in> fst ` set (btree_insert k v m)" for x
    using that 2 by (auto simp: strictly_sorted_def)
  with IH 2 show ?case
    by (auto simp: strictly_sorted_def dest: order.strict_trans)
qed (simp add: strictly_sorted_def)

lemma strictly_sorted_fold:
  "strictly_sorted m \<Longrightarrow> strictly_sorted (fold (\<lambda>(k, v). btree_insert k v) kvs m)"
  by (induction kvs arbitrary: m) auto

lemma strictly_sorted_object_of [intro, simp]: "strictly_sorted (object_of kvs)"
  using strictly_sorted_fold [of "[]" kvs] by (simp add: object_of_def strictly_sorted_def)

lemma map_of_fold_insert:
  "map_of (fold (\<lambda>(k, v). btree_insert k v) kvs m) = map_of m ++ map_of (rev kvs)"
  by (induction kvs arbitrary: m) (auto simp: map_add_def fun_eq_iff split: option.splits)

lemma map_of_object_of: "map_of (object_of kvs) = map_of (rev kvs)"
  by (simp add: object_of_def map_of_fold_insert)

text \<open>Two objects with the same entries are the same list: the printed text is a function of
  the entries alone.\<close>

lemma strictly_sorted_ext:
  "strictly_sorted m \<Longrightarrow> strictly_sorted n \<Longrightarrow> map_of m = map_of n \<Longrightarrow> m = n"
proof (induction m arbitrary: n)
  case Nil
  then show ?case by (metis map_of_eq_empty_iff)
next
  case (Cons p m)
  obtain k v where p: "p = (k, v)" by (cases p)
  obtain k' v' n' where n: "n = (k', v') # n'"
    using fun_cong [OF Cons.prems(3), of k] by (cases n) (auto simp: p)
  have "dom (map_of ((k, v) # m)) = dom (map_of ((k', v') # n'))"
    using Cons.prems(3) unfolding p n by (rule arg_cong)
  then have dom: "insert k (fst ` set m) = insert k' (fst ` set n')"
    by (simp only: dom_map_of_conv_image_fst list.simps image_insert fst_conv)
  have lt: "\<forall>x \<in> fst ` set m. k < x" "\<forall>x \<in> fst ` set n'. k' < x"
    using Cons.prems(1,2) unfolding p n by (auto simp: strictly_sorted_def)
  then have "k = k'" using dom by (metis insert_iff less_asym')
  moreover from this have "v = v'"
    using fun_cong [OF Cons.prems(3), of k] unfolding p n by simp
  moreover have "map_of m = map_of n'"
  proof
    fix x
    show "map_of m x = map_of n' x"
    proof (cases "x = k")
      case True
      then have "x \<notin> fst ` set m" "x \<notin> fst ` set n'" using lt \<open>k = k'\<close> by auto
      then show ?thesis by (metis map_of_eq_None_iff)
    next
      case False
      then show ?thesis using fun_cong [OF Cons.prems(3), of x] \<open>k = k'\<close> unfolding p n
        by simp
    qed
  qed
  with Cons have "m = n'" unfolding p n by (simp add: strictly_sorted_def)
  ultimately show ?case by (simp add: p n)
qed

section \<open>What the signature covers\<close>

fun with_signature :: "string \<Rightarrow> client_message \<Rightarrow> client_message" where
  "with_signature sg (Register pk h a kd ts _ rid) = Register pk h a kd ts sg rid"
| "with_signature sg (LookupPeer pk x ts _ rid) = LookupPeer pk x ts sg rid"
| "with_signature sg (LookupHandle pk x ts _ rid) = LookupHandle pk x ts sg rid"
| "with_signature sg (Signal pk x p ts _ rid) = Signal pk x p ts sg rid"
| "with_signature sg (SubscribePresence pk ps ts _ rid) = SubscribePresence pk ps ts sg rid"
| "with_signature sg (UnsubscribePresence pk ps ts _ rid) = UnsubscribePresence pk ps ts sg rid"
| "with_signature sg (RequestRelay pk x ts _ rid) = RequestRelay pk x ts sg rid"
| "with_signature sg (AcceptRelay pk x ts _ rid) = AcceptRelay pk x ts sg rid"
| "with_signature sg (Relay pk x d ts _) = Relay pk x d ts sg"
| "with_signature sg (TeamAnnounce pk x n a asig ts _ rid) = TeamAnnounce pk x n a asig ts sg rid"
| "with_signature sg (TeamLookup pk x ts _ rid) = TeamLookup pk x ts sg rid"
| "with_signature sg (Ping pk ts _) = Ping pk ts sg"

lemma with_signature_simps [simp]:
  "cm_pubkey (with_signature sg m) = cm_pubkey m"
  "cm_timestamp (with_signature sg m) = cm_timestamp m"
  "cm_request_id (with_signature sg m) = cm_request_id m"
  "cm_signature (with_signature sg m) = sg"
  "with_signature sg (with_signature sg' m) = with_signature sg m"
  "with_signature (cm_signature m) m = m"
  by (cases m; simp)+

lemma canonical_value_eq:
  "canonical_value m = JObj (btree_insert ''signature'' (JStr '''') (object_of (message_fields m)))"
  by (simp add: canonical_value_def to_value_def)

lemma map_of_rev_fields:
  "(map_of (rev (message_fields (with_signature sg m))))(''signature'' \<mapsto> v) =
   (map_of (rev (message_fields m)))(''signature'' \<mapsto> v)"
  by (cases m) (auto simp: opt_field_def fun_eq_iff split: option.splits)

lemma canonical_value_signature: "canonical_value (with_signature sg m) = canonical_value m"
  unfolding canonical_value_eq
  by (rule arg_cong [where f = JObj], rule strictly_sorted_ext)
    (auto simp: map_of_object_of map_of_rev_fields)

text \<open>Reading a message back from the value that is signed.\<close>

definition entry :: "json \<Rightarrow> string \<Rightarrow> json option" where
  "entry j k = (case j of JObj m \<Rightarrow> map_of m k | _ \<Rightarrow> None)"

definition str_opt :: "json option \<Rightarrow> string option" where
  "str_opt x = (case x of Some (JStr s) \<Rightarrow> Some s | _ \<Rightarrow> None)"

definition str_at :: "json \<Rightarrow> string \<Rightarrow> string" where
  "str_at j k = (case entry j k of Some (JStr s) \<Rightarrow> s | _ \<Rightarrow> '''')"

definition strs_at :: "json \<Rightarrow> string \<Rightarrow> string list" where
  "strs_at j k = (case entry j k of Some (JArr js) \<Rightarrow> map (\<lambda>x. case x of JStr s \<Rightarrow> s | _ \<Rightarrow> '''') js | _ \<Rightarrow> [])"

definition int_at :: "json \<Rightarrow> string \<Rightarrow> i64" where
  "int_at j k = (case entry j k of Some (JNumber i) \<Rightarrow> word_of_int i | _ \<Rightarrow> 0)"

definition addresses_at :: "json \<Rightarrow> peer_addresses" where
  "addresses_at j = (case entry j ''addresses'' of None \<Rightarrow> default_addresses
     | Some a \<Rightarrow> \<lparr>lan = strs_at a ''lan'', public_addr = str_opt (entry a ''public'')\<rparr>)"

definition read_message :: "json \<Rightarrow> client_message" where
  "read_message j =
     (let t = str_at j ''type''; pk = str_at j ''pubkey''; ts = int_at j ''timestamp'';
          sg = str_at j ''signature''; rid = str_opt (entry j ''request_id'')
      in if t = ''register'' then Register pk (str_opt (entry j ''handle'')) (addresses_at j)
             (Option.bind (str_opt (entry j ''kind'')) kind_parse) ts sg rid
         else if t = ''lookup_peer'' then LookupPeer pk (str_at j ''target_pubkey'') ts sg rid
         else if t = ''lookup_handle'' then LookupHandle pk (str_at j ''target_handle'') ts sg rid
         else if t = ''signal'' then Signal pk (str_at j ''to'') (str_at j ''payload'') ts sg rid
         else if t = ''subscribe_presence'' then SubscribePresence pk (strs_at j ''peers'') ts sg rid
         else if t = ''unsubscribe_presence'' then UnsubscribePresence pk (strs_at j ''peers'') ts sg rid
         else if t = ''request_relay'' then RequestRelay pk (str_at j ''peer'') ts sg rid
         else if t = ''accept_relay'' then AcceptRelay pk (str_at j ''session_id'') ts sg rid
         else if t = ''relay'' then Relay pk (str_at j ''session_id'') (str_at j ''data'') ts sg
         else if t = ''team_announce'' then TeamAnnounce pk (str_opt (entry j ''team_id''))
             (str_at j ''team_name'') (str_at j ''admin_pubkey'') (str_at j ''admin_signature'') ts sg rid
         else if t = ''team_lookup'' then TeamLookup pk (str_at j ''team_id'') ts sg rid
         else Ping pk ts sg)"

lemma kind_parse_as_str [simp]: "kind_parse (kind_as_str k) = Some k"
  by (cases k) (simp_all add: kind_parse_def)

lemma entry_canonical:
  "entry (canonical_value m) k = ((map_of (rev (message_fields m)))(''signature'' \<mapsto> JStr '''')) k"
  by (simp add: entry_def canonical_value_eq map_of_object_of)

lemma map_unJStr [simp]: "map (\<lambda>x. case x of JStr s \<Rightarrow> s | _ \<Rightarrow> '''') (map JStr xs) = xs"
  by (induction xs) simp_all

lemma addresses_roundtrip:
  "\<lparr>lan = strs_at (addresses_value a) ''lan'', public_addr = str_opt (entry (addresses_value a) ''public'')\<rparr> = a"
  by (cases a) (auto simp: strs_at_def entry_def addresses_value_def map_of_object_of str_opt_def
      simp del: map_map split: option.splits)

lemma map_add_opt_field [simp]:
  "(m ++ map_of (rev (opt_field k x))) k' =
     (if k' = k then (case x of None \<Rightarrow> m k' | Some s \<Rightarrow> Some (JStr s)) else m k')"
  by (simp add: opt_field_def map_add_def split: option.splits)

lemma str_opt_case [simp]:
  "y = None \<Longrightarrow> str_opt (case x of None \<Rightarrow> y | Some s \<Rightarrow> Some (JStr s)) = x"
  "y = None \<Longrightarrow> str_opt (case k of None \<Rightarrow> y | Some d \<Rightarrow> ((\<lambda>s. Some (JStr s)) \<circ> kind_as_str) d) =
     map_option kind_as_str k"
  by (simp_all add: str_opt_def split: option.splits)

lemma kind_roundtrip [simp]: "Option.bind (map_option kind_as_str k) kind_parse = k"
  by (cases k) simp_all

lemma addresses_at_eq [simp]: "entry j ''addresses'' = Some (addresses_value a) \<Longrightarrow> addresses_at j = a"
  by (simp add: addresses_at_def addresses_roundtrip)

lemma read_canonical_value: "read_message (canonical_value m) = with_signature '''' m"
  by (cases m; simp add: read_message_def Let_def str_at_def strs_at_def int_at_def
      entry_canonical del: map_map)

lemma read_to_value: "read_message (to_value m) = m"
  by (cases m; simp add: read_message_def Let_def str_at_def strs_at_def int_at_def entry_def to_value_def map_of_object_of
      del: map_map)

lemma canonical_value_inject:
  "canonical_value m = canonical_value m' \<longleftrightarrow> with_signature '''' m = with_signature '''' m'"
  by (metis canonical_value_signature read_canonical_value)

end
