(* ===== verification/Crates.thy ===== *)
theory Crates
  imports Protocol
begin

text \<open>
  The third-party code the broker calls is a parameter: a record of functions, one per
  entry point the sources use, passed to every definition that needs it. The named
  hypotheses below state what the documentation of those crates promises; a property that
  relies on one lists it as a premise.

  \<^item> \<open>hex_decode\<close>: \<open>hex::decode\<close>; \<open>b64_decode\<close>: the standard base64 engine's \<open>decode\<close>
    (errors as their display text);
  \<^item> \<open>hex_encode\<close>, \<open>b64_encode\<close>: the two encoders, as the smoke client uses them;
  \<^item> \<open>vk_from_bytes\<close>, \<open>vk_verify\<close>: \<open>VerifyingKey::from_bytes\<close> and \<open>verify\<close> of \<open>ed25519_dalek\<close>;
    \<open>vk_to_bytes\<close>, \<open>sk_public\<close>, \<open>sk_sign\<close>: \<open>to_bytes\<close>, and \<open>verifying_key\<close> and \<open>sign\<close> of a \<open>SigningKey\<close>;
  \<^item> \<open>json_to_vec\<close>, \<open>json_text\<close>: \<open>serde_json::to_vec\<close> and \<open>to_string\<close>; \<open>json_message\<close>, \<open>json_value\<close>:
    \<open>serde_json::from_str\<close> at \<open>ClientMessage\<close> and at \<open>Value\<close>;
  \<^item> \<open>uuid_parse\<close>, \<open>uuid_text\<close>, \<open>uuid_bytes\<close>: \<open>Uuid::parse_str\<close>, \<open>to_string\<close>, \<open>as_bytes\<close>;
  \<^item> \<open>gov_check\<close>: whether a \<open>governor\<close> limiter built for a number of cells per minute lets
    a call pass, given the instants of the calls it has seen and the present one;
  \<^item> \<open>debug_char\<close>: the \<open>Debug\<close> rendering of a character, given by its UTF-8 bytes
    (the Unicode tables of the standard library);
  \<^item> \<open>pg_violation\<close>: the text of the \<open>sqlx\<close> error that Postgres's refusal of a statement gives,
    from the name of the violated constraint;
  \<^item> \<open>datetime_text\<close>: the text \<open>chrono\<close> serializes a time as.
\<close>

datatype verifying_key = VerifyingKey "u8 list"

datatype signing_key = SigningKey "u8 list"

record crates =
  hex_decode :: "string \<Rightarrow> string + u8 list"
  b64_decode :: "string \<Rightarrow> string + u8 list"
  vk_from_bytes :: "u8 list \<Rightarrow> string + verifying_key"
  vk_verify :: "verifying_key \<Rightarrow> u8 list \<Rightarrow> u8 list \<Rightarrow> bool"
  json_to_vec :: "json \<Rightarrow> u8 list"
  json_message :: "string \<Rightarrow> string + client_message"
  json_value :: "string \<Rightarrow> string + json"
  uuid_parse :: "string \<Rightarrow> string + uuid"
  uuid_text :: "uuid \<Rightarrow> string"
  uuid_bytes :: "uuid \<Rightarrow> u8 list"
  gov_check :: "nat \<Rightarrow> nat list \<Rightarrow> nat \<Rightarrow> bool"
  debug_char :: "string \<Rightarrow> string"
  pg_violation :: "string \<Rightarrow> string"
  hex_encode :: "u8 list \<Rightarrow> string"
  b64_encode :: "u8 list \<Rightarrow> string"
  vk_to_bytes :: "verifying_key \<Rightarrow> u8 list"
  sk_public :: "signing_key \<Rightarrow> verifying_key"
  sk_sign :: "signing_key \<Rightarrow> u8 list \<Rightarrow> u8 list"
  json_text :: "json \<Rightarrow> string + string"
  datetime_text :: "int \<Rightarrow> string"

text \<open>\<open>serde_json\<close> prints distinct values differently (it can read them back).\<close>

definition json_faithful :: "crates \<Rightarrow> bool" where
  "json_faithful cr \<longleftrightarrow> inj_on (json_to_vec cr) (range canonical_value)"

text \<open>A UUID's text form reads back, and its bytes are sixteen and determine it.\<close>

definition uuid_faithful :: "crates \<Rightarrow> bool" where
  "uuid_faithful cr \<longleftrightarrow> (\<forall>u. uuid_parse cr (uuid_text cr u) = Inr u) \<and>
     inj (uuid_bytes cr) \<and> (\<forall>u. length (uuid_bytes cr u) = 16)"

text \<open>Ed25519 is unforgeable: a signature that verifies is on bytes the key's holder signed.\<close>

definition unforgeable :: "crates \<Rightarrow> (verifying_key \<Rightarrow> u8 list \<Rightarrow> bool) \<Rightarrow> bool" where
  "unforgeable cr has_signed \<longleftrightarrow> (\<forall>vk bytes sig. vk_verify cr vk bytes sig \<longrightarrow> has_signed vk bytes)"

text \<open>A client message that is printed reads back: serializing and deserializing the same type.\<close>

definition serde_roundtrip :: "crates \<Rightarrow> bool" where
  "serde_roundtrip cr \<longleftrightarrow> (\<forall>m. \<exists>t. json_text cr (to_value m) = Inr t \<and> json_message cr t = Inr m)"

definition b64_faithful :: "crates \<Rightarrow> bool" where
  "b64_faithful cr \<longleftrightarrow> (\<forall>bs. b64_decode cr (b64_encode cr bs) = Inr bs)"

text \<open>Hexadecimal text reads back and consists of lower-case digits.\<close>

definition hex_faithful :: "crates \<Rightarrow> bool" where
  "hex_faithful cr \<longleftrightarrow> (\<forall>bs. hex_decode cr (hex_encode cr bs) = Inr bs \<and>
     set (hex_encode cr bs) \<subseteq> set ''0123456789abcdef'')"

text \<open>Ed25519 keys and signatures have their sizes, the bytes of a public key read back, and what
  a key signs verifies under its public key.\<close>

definition ed25519_correct :: "crates \<Rightarrow> bool" where
  "ed25519_correct cr \<longleftrightarrow>
     (\<forall>sk. length (vk_to_bytes cr (sk_public cr sk)) = 32 \<and>
        vk_from_bytes cr (vk_to_bytes cr (sk_public cr sk)) = Inr (sk_public cr sk) \<and>
        (\<forall>bytes. length (sk_sign cr sk bytes) = 64 \<and> vk_verify cr (sk_public cr sk) bytes (sk_sign cr sk bytes)))"

text \<open>
  The rate a \<open>governor\<close> limiter enforces: a burst of \<open>n\<close> cells and \<open>n\<close> more per minute.
  \<open>gov_accepted\<close> lists the calls of a history that passed.
\<close>

fun gov_accepted :: "crates \<Rightarrow> nat \<Rightarrow> nat list \<Rightarrow> nat list \<Rightarrow> nat list" where
  "gov_accepted cr n seen [] = []"
| "gov_accepted cr n seen (t # ts) =
     (if gov_check cr n seen t then [t] else []) @ gov_accepted cr n (seen @ [t]) ts"

definition gov_rate :: "crates \<Rightarrow> bool" where
  "gov_rate cr \<longleftrightarrow> (\<forall>n hist a b. 0 < n \<longrightarrow> a \<le> b \<longrightarrow>
     length (filter (\<lambda>t. a \<le> t \<and> t \<le> b) (gov_accepted cr n [] hist)) * 60000000000 \<le>
     n * 60000000000 + n * (b - a))"

lemma gov_accepted_append:
  "gov_accepted cr n seen (xs @ ys) = gov_accepted cr n seen xs @ gov_accepted cr n (seen @ xs) ys"
  by (induction xs arbitrary: seen) simp_all

end
