(* ===== verification/Demo_Crates.thy ===== *)
theory Demo_Crates
  imports Crates
begin

text \<open>
  A concrete instance of the third-party interface, with simple executable functions that
  satisfy every named hypothesis. It shows that the hypotheses can hold together and is
  what the closed examples of the development run on.
\<close>

definition hex_nibble :: "char \<Rightarrow> nat option" where
  "hex_nibble c =
     (let n = of_char c :: nat
      in if 48 \<le> n \<and> n < 58 then Some (n - 48)
         else if 97 \<le> n \<and> n < 103 then Some (n - 87)
         else if 65 \<le> n \<and> n < 71 then Some (n - 55) else None)"

fun demo_hex :: "string \<Rightarrow> string + u8 list" where
  "demo_hex [] = Inr []"
| "demo_hex [_] = Inl ''Odd number of digits''"
| "demo_hex (a # b # s) =
     (case (hex_nibble a, hex_nibble b) of
        (Some x, Some y) \<Rightarrow> rbind (demo_hex s) (\<lambda>bs. Inr (of_nat (16 * x + y) # bs))
      | _ \<Rightarrow> Inl ''Invalid character'')"

definition hex_digit :: "nat \<Rightarrow> char" where
  "hex_digit n = ''0123456789abcdef'' ! n"

definition demo_hex_encode :: "u8 list \<Rightarrow> string" where
  "demo_hex_encode bs = concat (map (\<lambda>b. [hex_digit (unat b div 16), hex_digit (unat b mod 16)]) bs)"

fun demo_public :: "signing_key \<Rightarrow> verifying_key" where
  "demo_public (SigningKey k) = VerifyingKey (take 32 (k @ replicate 32 0))"

text \<open>A self-delimiting encoding of JSON values.\<close>

definition enc_nat :: "nat \<Rightarrow> u8 list" where
  "enc_nat n = replicate n 1 @ [0]"

definition enc_str :: "string \<Rightarrow> u8 list" where
  "enc_str s = enc_nat (length s) @ map byte_of s"

primrec enc :: "json \<Rightarrow> u8 list" where
  "enc JNull = [0]"
| "enc (JBool b) = [1, if b then 1 else 0]"
| "enc (JNumber i) = 2 # enc_str (show_int i)"
| "enc (JFloat w) = 3 # enc_str (show_nat (unat w))"
| "enc (JStr s) = 4 # enc_str s"
| "enc (JArr js) = 5 # enc_nat (length js) @ concat (map enc js)"
| "enc (JObj kvs) = 6 # enc_nat (length kvs) @
     concat (map (\<lambda>p. enc_str (fst p) @ snd p) (map (map_prod (\<lambda>k. k) enc) kvs))"

definition demo_sign :: "verifying_key \<Rightarrow> u8 list \<Rightarrow> u8 list" where
  "demo_sign vk bytes = (case vk of VerifyingKey k \<Rightarrow> replicate 64 (sum_list k + sum_list bytes))"

definition demo_uuid_bytes :: "uuid \<Rightarrow> u8 list" where
  "demo_uuid_bytes u = map (\<lambda>i. ucast (drop_bit (8 * i) u)) (rev [0..<16])"

text \<open>The generic cell rate algorithm, with the clock scaled by the rate: \<open>tat\<close> is the
  theoretical arrival time of the next cell.\<close>

definition gcra :: "nat \<Rightarrow> nat \<Rightarrow> nat \<Rightarrow> bool \<times> nat" where
  "gcra n tat now =
     (if tat \<le> n * now + (n - 1) * 60000000000 then (True, max (n * now) tat + 60000000000) else (False, tat))"

definition gcra_state :: "nat \<Rightarrow> nat list \<Rightarrow> nat" where
  "gcra_state n hist = foldl (\<lambda>tat t. snd (gcra n tat t)) 0 hist"

definition demo_crates :: crates where
  "demo_crates = \<lparr>
     hex_decode = demo_hex,
     b64_decode = (\<lambda>s. Inr (map byte_of s)),
     vk_from_bytes = (\<lambda>bs. Inr (VerifyingKey bs)),
     vk_verify = (\<lambda>vk bytes sig. sig = demo_sign vk bytes),
     json_to_vec = enc,
     json_message = (\<lambda>_. Inl ''no message''),
     json_value = (\<lambda>_. Inl ''no value''),
     uuid_parse = (\<lambda>s. Inr (of_nat (read_base 16 s))),
     uuid_text = (\<lambda>u. show_hex (unat u)),
     uuid_bytes = demo_uuid_bytes,
     gov_check = (\<lambda>n hist now. fst (gcra n (gcra_state n hist) now)),
     debug_char = (\<lambda>c. c),
     pg_violation = (\<lambda>c. c),
     hex_encode = demo_hex_encode,
     b64_encode = map char_of_byte,
     vk_to_bytes = (\<lambda>vk. case vk of VerifyingKey k \<Rightarrow> k),
     sk_public = demo_public,
     sk_sign = (\<lambda>sk bytes. demo_sign (demo_public sk) bytes),
     json_text = (\<lambda>v. Inr (map char_of_byte (enc v))),
     datetime_text = show_int\<rparr>"

lemma demo_crates_simps [simp]:
  "hex_decode demo_crates = demo_hex"
  "b64_decode demo_crates s = Inr (map byte_of s)"
  "vk_from_bytes demo_crates bs = Inr (VerifyingKey bs)"
  "vk_verify demo_crates vk bytes sig \<longleftrightarrow> sig = demo_sign vk bytes"
  "json_to_vec demo_crates = enc"
  "uuid_parse demo_crates s = Inr (of_nat (read_base 16 s))"
  "uuid_text demo_crates u = show_hex (unat u)"
  "uuid_bytes demo_crates = demo_uuid_bytes"
  "gov_check demo_crates n hist now \<longleftrightarrow> fst (gcra n (gcra_state n hist) now)"
  "hex_encode demo_crates = demo_hex_encode"
  "b64_encode demo_crates = map char_of_byte"
  "vk_to_bytes demo_crates (VerifyingKey k) = k"
  "sk_public demo_crates = demo_public"
  "sk_sign demo_crates sk bytes = demo_sign (demo_public sk) bytes"
  "json_text demo_crates v = Inr (map char_of_byte (enc v))"
  "datetime_text demo_crates = show_int"
  by (simp_all add: demo_crates_def)

section \<open>It satisfies the hypotheses\<close>

lemma enc_nat_prefix: "enc_nat m @ xs = enc_nat n @ ys \<longleftrightarrow> m = n \<and> xs = ys"
proof -
  have "replicate m (1::u8) @ 0 # xs = replicate n 1 @ 0 # ys \<longleftrightarrow>
        replicate m (1::u8) = replicate n 1 \<and> xs = ys"
    by (rule append_sep_inject) auto
  then show ?thesis by (auto simp: enc_nat_def dest: arg_cong [where f = length])
qed

lemma enc_str_prefix: "enc_str s @ xs = enc_str t @ ys \<longleftrightarrow> s = t \<and> xs = ys"
  by (auto simp: enc_str_def enc_nat_prefix dest: append_eq_append_conv [THEN iffD1, rotated])

lemma show_int_inject [simp]: "show_int i = show_int j \<longleftrightarrow> i = j"
proof -
  have "CHR ''-'' \<notin> decimal_digits"
    by (auto simp: decimal_digits_def digit_char_def dest: arg_cong [where f = "of_char :: char \<Rightarrow> nat"])
  then have "show_nat n \<noteq> CHR ''-'' # s" for n s
    using show_nat_digits [of n] by auto
  then show ?thesis by (auto simp: show_int_def dest: sym)
qed

lemma enc_list_prefix:
  assumes "\<And>v w xs ys. v \<in> set vs \<Longrightarrow> f v @ xs = f w @ ys \<Longrightarrow> v = w \<and> xs = ys"
    and "length vs = length ws" and "concat (map f vs) @ xs = concat (map f ws) @ ys"
  shows "vs = ws \<and> xs = ys"
  using assms
proof (induction vs arbitrary: ws)
  case Nil
  then show ?case by simp
next
  case (Cons v vs)
  then obtain w ws' where ws: "ws = w # ws'" by (cases ws) auto
  with Cons.prems(3) have "f v @ (concat (map f vs) @ xs) = f w @ (concat (map f ws') @ ys)" by simp
  with Cons.prems(1) have "v = w \<and> concat (map f vs) @ xs = concat (map f ws') @ ys"
    by (meson list.set_intros(1))
  with Cons ws show ?case by (metis length_Cons list.set_intros(2) nat.inject)
qed

lemma enc_prefix: "enc v @ xs = enc w @ ys \<Longrightarrow> v = w \<and> xs = ys"
proof (induction v arbitrary: w xs ys)
  case (JArr js)
  from JArr.prems obtain ks where w: "w = JArr ks"
    by (cases w) auto
  with JArr.prems have "length js = length ks" "concat (map enc js) @ xs = concat (map enc ks) @ ys"
    by (simp_all add: enc_nat_prefix)
  then show ?case using enc_list_prefix [of js enc ks xs ys, OF JArr.IH] w by simp
next
  case (JObj kvs)
  let ?f = "\<lambda>p. enc_str (fst p) @ enc (snd p)"
  from JObj.prems obtain ls where w: "w = JObj ls"
    by (cases w) auto
  have "map (\<lambda>p. enc_str (fst p) @ snd p) (map (map_prod (\<lambda>k. k) enc) zs) = map ?f zs" for zs
    by simp
  with JObj.prems w have len: "length kvs = length ls"
    and eq: "concat (map ?f kvs) @ xs = concat (map ?f ls) @ ys"
    by (simp_all add: enc_nat_prefix comp_def)
  have each: "p = q \<and> xs = ys" if "p \<in> set kvs" "?f p @ xs = ?f q @ ys" for p q xs ys
  proof -
    from that(2) have "fst p = fst q" "enc (snd p) @ xs = enc (snd q) @ ys"
      by (simp_all add: enc_str_prefix)
    moreover have "snd p \<in> Basic_BNFs.snds p" by (cases p) simp
    ultimately show ?thesis using JObj.IH [OF that(1)] by (metis prod.expand)
  qed
  show ?case using enc_list_prefix [of kvs ?f, OF each len eq] w by simp
next
  case JNull
  then show ?case by (cases w) auto
next
  case (JBool b)
  then show ?case by (cases w) (auto split: if_splits)
next
  case (JNumber i)
  then show ?case by (cases w) (auto simp: enc_str_prefix)
next
  case (JFloat f)
  then show ?case by (cases w) (auto simp: enc_str_prefix word_unat_eq_iff)
next
  case (JStr s)
  then show ?case by (cases w) (auto simp: enc_str_prefix)
qed

lemma enc_inject: "enc v = enc w \<longleftrightarrow> v = w"
  using enc_prefix [of v "[]" w "[]"] by auto

lemma demo_json_faithful: "json_faithful demo_crates"
  by (simp add: json_faithful_def inj_on_def enc_inject)

lemma hex_digit_nibble: "n < 16 \<Longrightarrow> hex_nibble (hex_digit n) = Some n \<and> hex_digit n \<in> set ''0123456789abcdef''"
  unfolding hex_digit_def
  by (auto simp: hex_nibble_def numeral_eq_Suc less_Suc_eq)

lemma unat_nibbles: "unat (b :: u8) div 16 < 16" "unat b mod 16 < 16"
proof -
  have "unat b < 2 ^ LENGTH(8)" by (rule unsigned_less)
  then show "unat b div 16 < 16" by (simp add: less_mult_imp_div_less)
qed simp

lemma demo_hex_encode_decode: "demo_hex (demo_hex_encode bs) = Inr bs"
proof (induction bs)
  case (Cons b bs)
  with hex_digit_nibble [OF unat_nibbles(1) [of b]] hex_digit_nibble [OF unat_nibbles(2) [of b]] show ?case
    by (simp add: demo_hex_encode_def)
qed (simp add: demo_hex_encode_def)

lemma demo_hex_faithful: "hex_faithful demo_crates"
proof -
  have "(\<And>n. n < 16 \<Longrightarrow> hex_digit n \<in> D) \<Longrightarrow> set (demo_hex_encode bs) \<subseteq> D" for bs D
    unfolding demo_hex_encode_def by (auto simp: unat_nibbles)
  then have "set (demo_hex_encode bs) \<subseteq> set ''0123456789abcdef''" for bs
    using hex_digit_nibble by meson
  then show ?thesis by (simp add: hex_faithful_def demo_hex_encode_decode)
qed

lemma demo_ed25519_correct: "ed25519_correct demo_crates"
proof -
  have "vk_to_bytes demo_crates vk = (case vk of VerifyingKey k \<Rightarrow> k)" for vk by (cases vk) simp
  moreover have "length (case demo_public sk of VerifyingKey k \<Rightarrow> k) = 32" for sk by (cases sk) simp
  moreover have "VerifyingKey (case vk of VerifyingKey k \<Rightarrow> k) = vk" for vk by (cases vk) simp
  ultimately show ?thesis by (simp add: ed25519_correct_def demo_sign_def split: verifying_key.split)
qed

lemma byte_of_uuid: "(ucast (drop_bit (8 * i) u) :: u8) = ucast (drop_bit (8 * i) v) \<longleftrightarrow>
    (\<forall>n < 8. bit (u :: uuid) (8 * i + n) = bit v (8 * i + n))"
  by (auto simp: bit_eq_iff bit_unsigned_iff bit_drop_bit_eq)

lemma demo_uuid_bytes_inject: "demo_uuid_bytes u = demo_uuid_bytes v \<Longrightarrow> u = v"
proof (rule bit_word_eqI)
  fix n
  assume eq: "demo_uuid_bytes u = demo_uuid_bytes v" and "n < LENGTH(128)"
  then have "n div 8 \<in> set (rev [0..<16])" by (simp del: upt_Suc)
  moreover have "\<forall>i \<in> set (rev [0..<16]). (ucast (drop_bit (8 * i) u) :: u8) = ucast (drop_bit (8 * i) v)"
    using eq unfolding demo_uuid_bytes_def by (simp only: map_eq_conv)
  ultimately have "(ucast (drop_bit (8 * (n div 8)) u) :: u8) = ucast (drop_bit (8 * (n div 8)) v)"
    by (rule bspec [rotated])
  then have "\<forall>k < 8. bit u (8 * (n div 8) + k) = bit v (8 * (n div 8) + k)"
    unfolding byte_of_uuid .
  then have "bit u (8 * (n div 8) + n mod 8) = bit v (8 * (n div 8) + n mod 8)"
    by (meson mod_less_divisor zero_less_numeral)
  then show "bit u n = bit v n" by simp
qed

lemma length_demo_uuid_bytes [simp]: "length (demo_uuid_bytes u) = 16"
  by (simp add: demo_uuid_bytes_def del: upt_Suc)

lemma demo_uuid_faithful: "uuid_faithful demo_crates"
  by (auto simp: uuid_faithful_def intro: injI demo_uuid_bytes_inject)

lemma gcra_arith:
  fixes k :: nat
  assumes "m + w = p" and "t + w \<le> s" and "tat + w \<le> s" and "k = 0 \<or> a + k * w \<le> tat"
    and "tat \<le> t + m" and "a \<le> t" and "t \<le> b" and "d = b - a"
  shows "Suc k * w \<le> p + d" and "a + Suc k * w \<le> s"
  using assms by auto

lemma gcra_rate_step:
  assumes "0 < n" and "a \<le> b"
  defines "acc hist \<equiv> length (filter (\<lambda>t. a \<le> t \<and> t \<le> b) (gov_accepted demo_crates n [] hist))"
  shows "acc hist * 60000000000 \<le> n * 60000000000 + n * (b - a) \<and>
    (acc hist \<noteq> 0 \<longrightarrow> n * a + acc hist * 60000000000 \<le> gcra_state n hist)"
proof (induction hist rule: rev_induct)
  case Nil
  then show ?case by (simp add: acc_def)
next
  case (snoc t hist)
  let ?tat = "gcra_state n hist"
  have state: "gcra_state n (hist @ [t]) = snd (gcra n ?tat t)" by (simp add: gcra_state_def)
  show ?case
  proof (cases "fst (gcra n ?tat t) \<and> a \<le> t \<and> t \<le> b")
    case True
    then have acc: "acc (hist @ [t]) = Suc (acc hist)"
      by (simp add: acc_def gov_accepted_append)
    from True have tat: "?tat \<le> n * t + (n - 1) * 60000000000"
      "gcra_state n (hist @ [t]) = max (n * t) ?tat + 60000000000"
      by (auto simp: gcra_def state split: if_splits)
    have nt: "n * a \<le> n * t" "n * t \<le> n * b" "n * (b - a) = n * b - n * a"
      using True by (simp_all add: diff_mult_distrib2)
    have m: "(n - 1) * 60000000000 + 60000000000 = n * (60000000000 :: nat)"
      using assms(1) by (cases n) simp_all
    have s: "n * t + 60000000000 \<le> gcra_state n (hist @ [t])" "?tat + 60000000000 \<le> gcra_state n (hist @ [t])"
      unfolding tat(2) by simp_all
    have k: "acc hist = 0 \<or> n * a + acc hist * 60000000000 \<le> ?tat" using snoc by blast
    note gcra_arith [OF m s k tat(1) nt]
    then show ?thesis unfolding acc by blast
  next
    case False
    then have "acc (hist @ [t]) = acc hist"
      by (auto simp: acc_def gov_accepted_append)
    moreover have "?tat \<le> gcra_state n (hist @ [t])"
      by (auto simp: state gcra_def)
    ultimately show ?thesis using snoc by auto
  qed
qed

lemma demo_gov_rate: "gov_rate demo_crates"
  unfolding gov_rate_def using gcra_rate_step by blast

section \<open>Example identities\<close>

definition demo_key :: "char \<Rightarrow> string" where
  "demo_key c = concat (replicate 32 [CHR ''0'', c])"

definition demo_sig :: "char \<Rightarrow> string" where
  "demo_sig c = concat (replicate 64 [CHR ''0'', c])"

lemma demo_hex_replicate:
  "hex_nibble a = Some x \<Longrightarrow> hex_nibble b = Some y \<Longrightarrow>
   demo_hex (concat (replicate n [a, b])) = Inr (replicate n (of_nat (16 * x + y)))"
  by (induction n) simp_all

lemma demo_hex_key [simp]:
  "hex_nibble c = Some y \<Longrightarrow> demo_hex (demo_key c) = Inr (replicate 32 (of_nat y))"
  "hex_nibble c = Some y \<Longrightarrow> demo_hex (demo_sig c) = Inr (replicate 64 (of_nat y))"
  using demo_hex_replicate [of "CHR ''0''" 0 c y 32] demo_hex_replicate [of "CHR ''0''" 0 c y 64]
  by (simp_all add: demo_key_def demo_sig_def hex_nibble_def)

lemma hex_nibble_simps [simp]:
  "hex_nibble (CHR ''1'') = Some 1" "hex_nibble (CHR ''2'') = Some 2" "hex_nibble (CHR ''3'') = Some 3"
  by (simp_all add: hex_nibble_def)

lemma demo_key_inject [simp]: "demo_key a = demo_key b \<longleftrightarrow> a = b"
proof
  assume "demo_key a = demo_key b"
  then have "demo_key a ! 1 = demo_key b ! 1" by simp
  then show "a = b" by (simp add: demo_key_def numeral_eq_Suc)
qed simp

end
