(* ===== verification/Auth.thy ===== *)
theory Auth
  imports Demo_Crates
begin

text \<open>
  \<open>src/auth.rs\<close>: parsing of keys and signatures, the replay window and the verification
  of a signed message. \<open>Utc::now().timestamp()\<close> is the argument \<open>now\<close>; \<open>i64\<close> arithmetic
  wraps, as it does in the release profile.
\<close>

definition MAX_DRIFT_SECS :: i64 where
  "MAX_DRIFT_SECS = 60"

definition strip_prefix :: "string \<Rightarrow> string \<Rightarrow> string option" where
  "strip_prefix p s = (if take (length p) s = p then Some (drop (length p) s) else None)"

definition unwrap_or :: "'a \<Rightarrow> 'a option \<Rightarrow> 'a" where
  "unwrap_or d x = (case x of None \<Rightarrow> d | Some a \<Rightarrow> a)"

definition parse_pubkey :: "crates \<Rightarrow> string \<Rightarrow> verifying_key result" where
  "parse_pubkey cr s =
     (let hex_str = unwrap_or s (strip_prefix ''ed25519:'' s)
      in rbind (map_err InvalidPubKey (hex_decode cr hex_str)) (\<lambda>bytes.
           if length bytes = 32 then map_err InvalidPubKey (vk_from_bytes cr bytes)
           else Inl (InvalidPubKey ''expected 32 bytes'')))"

definition parse_signature :: "crates \<Rightarrow> string \<Rightarrow> u8 list result" where
  "parse_signature cr s =
     rbind (map_err InvalidSignature (hex_decode cr s)) (\<lambda>bytes.
       if length bytes = 64 then Inr bytes
       else Inl (InvalidSignature ''expected 64 bytes''))"

definition check_timestamp :: "i64 \<Rightarrow> i64 \<Rightarrow> unit result" where
  "check_timestamp now ts =
     (let drift = now - ts
      in if sint drift > sint MAX_DRIFT_SECS then Inl (StaleMessage drift)
         else if sint drift < sint (- MAX_DRIFT_SECS) then Inl (FutureMessage (- drift))
         else Inr ())"

definition verify_signed_message :: "crates \<Rightarrow> i64 \<Rightarrow> client_message \<Rightarrow> verifying_key result" where
  "verify_signed_message cr now msg =
     rbind (parse_pubkey cr (cm_pubkey msg)) (\<lambda>pk.
     rbind (check_timestamp now (cm_timestamp msg)) (\<lambda>_.
     rbind (parse_signature cr (cm_signature msg)) (\<lambda>sig.
     let bytes = canonical_bytes (json_to_vec cr) msg
     in if vk_verify cr pk bytes sig then Inr pk else Inl SignatureVerifyFailed)))"

definition verify_detached :: "crates \<Rightarrow> string \<Rightarrow> string \<Rightarrow> u8 list \<Rightarrow> unit result" where
  "verify_detached cr pubkey_hex sig_hex message =
     rbind (parse_pubkey cr pubkey_hex) (\<lambda>pk.
     rbind (parse_signature cr sig_hex) (\<lambda>sig.
     if vk_verify cr pk message sig then Inr () else Inl SignatureVerifyFailed))"

section \<open>The replay window\<close>

lemma sint_i64_bounds: "- (2 ^ 63) \<le> sint (x :: i64)" "sint (x :: i64) < 2 ^ 63"
  using sint_greater_eq [of x] sint_less [of x] by simp_all

text \<open>Subtraction of \<open>i64\<close> values: exact, or off by one turn of the counter.\<close>

lemma sint_diff_i64:
  fixes x y :: i64
  defines "d \<equiv> sint x - sint y"
  shows "sint (x - y) = (if d \<ge> 2 ^ 63 then d - 2 ^ 64 else if d < - (2 ^ 63) then d + 2 ^ 64 else d)"
proof -
  have eq: "sint (x - y) = (d + 2 ^ 63) mod 2 ^ 64 - 2 ^ 63"
    by (simp add: d_def sint_word_ariths signed_take_bit_eq_take_bit_shift take_bit_eq_mod)
  have "- (2 ^ 64) < d" "d < 2 ^ 64"
    using sint_i64_bounds [of x] sint_i64_bounds [of y] by (simp_all add: d_def)
  then show ?thesis unfolding eq
    using mod_pos_pos_trivial [of "d + 2 ^ 63" "2 ^ 64"] mod_pos_pos_trivial [of "d + 2 ^ 63 - 2 ^ 64" "2 ^ 64"]
      mod_pos_pos_trivial [of "d + 2 ^ 63 + 2 ^ 64" "2 ^ 64"]
      minus_mod_self2 [of "d + 2 ^ 63" "2 ^ 64"] mod_add_self2 [of "d + 2 ^ 63" "2 ^ 64"]
    by (auto simp del: minus_mod_self2 mod_add_self2)
qed

lemma sint_drift_bounds [simp]: "sint MAX_DRIFT_SECS = 60" "sint (- MAX_DRIFT_SECS) = - 60"
  by (simp_all add: MAX_DRIFT_SECS_def)

lemma check_timestamp_ok:
  assumes "0 \<le> sint now" "sint now < 2 ^ 62"
  shows "check_timestamp now ts = Inr () \<longleftrightarrow> \<bar>sint now - sint ts\<bar> \<le> 60"
  using assms sint_i64_bounds [of ts]
  by (auto simp: check_timestamp_def Let_def sint_diff_i64)

lemma check_timestamp_cases:
  assumes "0 \<le> sint now" "sint now < 2 ^ 62"
  shows "sint ts < sint now - 60 \<Longrightarrow> sint now - 2 ^ 63 < sint ts \<Longrightarrow>
           check_timestamp now ts = Inl (StaleMessage (now - ts))"
    and "sint now + 60 < sint ts \<Longrightarrow> check_timestamp now ts = Inl (FutureMessage (ts - now))"
    and "sint ts \<le> sint now - 2 ^ 63 \<Longrightarrow> check_timestamp now ts = Inl (FutureMessage (ts - now))"
  using assms sint_i64_bounds [of ts]
  by (auto simp: check_timestamp_def Let_def sint_diff_i64)

text \<open>
  (C28) The replay window: for any present time up to the year 146 billion, a timestamp is
  accepted exactly when it is at most 60 seconds away from it, in the past or in the future;
  the wrap-around of the \<open>i64\<close> subtraction never lets a message through.
\<close>
theorem replay_window:
  assumes "0 \<le> sint now" and "sint now < 2 ^ 62"
  shows "check_timestamp now ts = Inr () \<longleftrightarrow> \<bar>sint now - sint ts\<bar> \<le> 60"
  using assms by (rule check_timestamp_ok)

theorem replay_window_witness:
  "check_timestamp 1731340000 1731339940 = Inr () \<and> check_timestamp 1731340000 1731339939 \<noteq> Inr ()"
  using replay_window [of 1731340000 1731339940] replay_window [of 1731340000 1731339939] by simp

text \<open>
  A timestamp so far in the past that the subtraction overflows is rejected, but as a
  message from the future, not as a stale one.
\<close>
theorem ancient_message_is_future:
  assumes "0 \<le> sint now" and "sint now < 2 ^ 62" and "sint ts \<le> sint now - 2 ^ 63"
  shows "check_timestamp now ts = Inl (FutureMessage (ts - now))"
  using assms by (rule check_timestamp_cases(3))

theorem ancient_message_is_future_witness:
  "check_timestamp 1731340000 (- (2 ^ 63)) = Inl (FutureMessage (- (2 ^ 63) - 1731340000))"
  by (rule ancient_message_is_future) simp_all

section \<open>Verification\<close>

lemma unwrap_or_simps [simp]: "unwrap_or d None = d" "unwrap_or d (Some a) = a"
  by (simp_all add: unwrap_or_def)

text \<open>Hexadecimal text never begins with the optional prefix.\<close>

lemma hex_encode_no_prefix:
  assumes "hex_faithful cr"
  shows "strip_prefix ''ed25519:'' (hex_encode cr bs) = None"
proof -
  have "set (hex_encode cr bs) \<subseteq> set ''0123456789abcdef''" using assms by (simp only: hex_faithful_def)
  then have "CHR '':'' \<notin> set (take (length ''ed25519:'') (hex_encode cr bs))" by (auto dest: in_set_takeD)
  then show ?thesis by (auto simp: strip_prefix_def simp del: take_Suc_Cons)
qed

lemma parse_pubkey_ok:
  "parse_pubkey cr s = Inr vk \<longleftrightarrow>
     (\<exists>bytes. hex_decode cr (unwrap_or s (strip_prefix ''ed25519:'' s)) = Inr bytes \<and>
        length bytes = 32 \<and> vk_from_bytes cr bytes = Inr vk)"
  by (auto simp: parse_pubkey_def Let_def result_simps)

lemma parse_signature_ok:
  "parse_signature cr s = Inr sig \<longleftrightarrow> hex_decode cr s = Inr sig \<and> length sig = 64"
  by (auto simp: parse_signature_def result_simps)

lemma verify_ok:
  "verify_signed_message cr now m = Inr vk \<longleftrightarrow>
     parse_pubkey cr (cm_pubkey m) = Inr vk \<and> check_timestamp now (cm_timestamp m) = Inr () \<and>
     (\<exists>sig. parse_signature cr (cm_signature m) = Inr sig \<and>
        vk_verify cr vk (canonical_bytes (json_to_vec cr) m) sig)"
  by (auto simp: verify_signed_message_def Let_def result_simps split: if_splits)

lemma verify_detached_ok:
  "verify_detached cr pk sg msg = Inr () \<longleftrightarrow>
     (\<exists>vk sig. parse_pubkey cr pk = Inr vk \<and> parse_signature cr sg = Inr sig \<and> vk_verify cr vk msg sig)"
  by (auto simp: verify_detached_def result_simps split: if_splits)

lemma canonical_bytes_inject:
  "json_faithful cr \<Longrightarrow> canonical_bytes (json_to_vec cr) m = canonical_bytes (json_to_vec cr) m' \<Longrightarrow>
     with_signature '''' m = with_signature '''' m'"
  by (simp add: canonical_bytes_def json_faithful_def inj_on_eq_iff flip: canonical_value_inject)

text \<open>
  (C27) The signature covers the whole message: two messages have the same signed bytes
  exactly when they agree on the variant and on every field but the signature.
\<close>
theorem signature_covers_message:
  assumes "json_faithful cr"
  shows "canonical_bytes (json_to_vec cr) m = canonical_bytes (json_to_vec cr) m' \<longleftrightarrow>
         with_signature '''' m = with_signature '''' m'"
proof
  assume "with_signature [] m = with_signature [] m'"
  then have "canonical_value m = canonical_value m'" by (rule canonical_value_inject [THEN iffD2])
  then show "canonical_bytes (json_to_vec cr) m = canonical_bytes (json_to_vec cr) m'"
    unfolding canonical_bytes_def by (rule arg_cong)
qed (rule canonical_bytes_inject [OF assms])

theorem signature_covers_message_witness:
  "canonical_bytes (json_to_vec demo_crates) (Ping ''a'' 7 ''x'') = canonical_bytes (json_to_vec demo_crates) (Ping ''a'' 7 ''y'') \<and>
   canonical_bytes (json_to_vec demo_crates) (Ping ''a'' 7 ''x'') \<noteq> canonical_bytes (json_to_vec demo_crates) (Ping ''b'' 7 ''x'')"
  using signature_covers_message [OF demo_json_faithful, of "Ping ''a'' 7 ''x''" "Ping ''a'' 7 ''y''"]
    signature_covers_message [OF demo_json_faithful, of "Ping ''a'' 7 ''x''" "Ping ''b'' 7 ''x''"]
  by simp

text \<open>
  (C2) Authenticity and integrity: if the scheme is unforgeable and the holder of the key that the message
  names as its own signs canonical bytes of messages in \<open>S\<close> only, then a message that verifies,
  verified under that very key, has a fresh timestamp and is one of \<open>S\<close> up to the signature text:
  its holder signed it and nothing else in it was altered on the way.
\<close>
theorem verified_message_authentic:
  assumes "json_faithful cr" and "unforgeable cr has_signed"
    and "verify_signed_message cr now m = Inr vk"
    and "\<And>holder bytes. parse_pubkey cr (cm_pubkey m) = Inr holder \<Longrightarrow> has_signed holder bytes \<Longrightarrow>
      \<exists>m' \<in> S. bytes = canonical_bytes (json_to_vec cr) m'"
  shows "parse_pubkey cr (cm_pubkey m) = Inr vk \<and> has_signed vk (canonical_bytes (json_to_vec cr) m) \<and>
    check_timestamp now (cm_timestamp m) = Inr () \<and> (\<exists>m' \<in> S. m = with_signature (cm_signature m) m')"
proof -
  obtain sig where key: "parse_pubkey cr (cm_pubkey m) = Inr vk" and fresh: "check_timestamp now (cm_timestamp m) = Inr ()"
    and "vk_verify cr vk (canonical_bytes (json_to_vec cr) m) sig"
    using assms(3) unfolding verify_ok by (elim conjE exE)
  then have signed: "has_signed vk (canonical_bytes (json_to_vec cr) m)"
    using assms(2) unfolding unforgeable_def by (elim allE impE)
  from assms(4) [OF key signed] obtain m'
    where m': "m' \<in> S" and eq: "canonical_bytes (json_to_vec cr) m = canonical_bytes (json_to_vec cr) m'"
    by (elim bexE)
  from canonical_bytes_inject [OF assms(1) eq]
  have "with_signature (cm_signature m) (with_signature [] m) = with_signature (cm_signature m) (with_signature [] m')"
    by (rule arg_cong)
  then have "m = with_signature (cm_signature m) m'" by simp
  with m' key signed fresh show ?thesis by blast
qed

definition demo_ping :: client_message where
  "demo_ping = Ping (demo_key CHR ''1'') 1000 (demo_sig CHR ''1'')"

text \<open>The demonstration scheme, in the run where one key has signed one message.\<close>

definition demo_signed :: "verifying_key \<Rightarrow> u8 list \<Rightarrow> bool" where
  "demo_signed vk bytes \<longleftrightarrow> vk = VerifyingKey (replicate 32 1) \<and> bytes = enc (canonical_value demo_ping)"

definition demo_signed_once :: crates where
  "demo_signed_once = demo_crates\<lparr>vk_verify := (\<lambda>vk bytes sig. demo_signed vk bytes)\<rparr>"

lemma strip_prefix_demo_key [simp]: "strip_prefix ''ed25519:'' (demo_key c) = None"
  by (simp add: strip_prefix_def demo_key_def numeral_eq_Suc)

theorem verified_message_authentic_witness:
  "verify_signed_message demo_signed_once 1030 demo_ping = Inr (VerifyingKey (replicate 32 1)) \<and>
   parse_pubkey demo_signed_once (cm_pubkey demo_ping) = Inr (VerifyingKey (replicate 32 1)) \<and>
   (\<exists>m' \<in> {demo_ping}. demo_ping = with_signature (cm_signature demo_ping) m')"
proof -
  have faithful: "json_faithful demo_signed_once"
    using demo_json_faithful by (simp add: json_faithful_def demo_signed_once_def)
  have unf: "unforgeable demo_signed_once demo_signed"
    by (simp add: unforgeable_def demo_signed_once_def)
  have ok: "verify_signed_message demo_signed_once 1030 demo_ping = Inr (VerifyingKey (replicate 32 1))"
    using check_timestamp_ok [of 1030 1000]
    by (simp add: verify_ok parse_pubkey_ok parse_signature_ok canonical_bytes_def demo_signed_once_def demo_signed_def demo_ping_def)
  have "\<exists>m' \<in> {demo_ping}. bytes = canonical_bytes (json_to_vec demo_signed_once) m'" if "demo_signed holder bytes" for holder bytes
    using that by (simp add: canonical_bytes_def demo_signed_once_def demo_signed_def)
  then show ?thesis
    using verified_message_authentic [OF faithful unf ok, where S = "{demo_ping}"] ok by fast
qed

text \<open>
  Two texts, one key: an identifier with the \<open>ed25519:\<close> prefix and the same
  identifier without it parse to the same verifying key, although they are different strings.
\<close>
theorem prefixed_pubkey_is_alias:
  assumes "strip_prefix ''ed25519:'' s = None"
  shows "parse_pubkey cr (''ed25519:'' @ s) = parse_pubkey cr s \<and> ''ed25519:'' @ s \<noteq> s"
  using assms by (simp add: parse_pubkey_def strip_prefix_def)

theorem prefixed_pubkey_is_alias_witness:
  "parse_pubkey demo_crates (''ed25519:'' @ demo_key CHR ''1'') = Inr (VerifyingKey (replicate 32 1)) \<and>
   ''ed25519:'' @ demo_key CHR ''1'' \<noteq> demo_key CHR ''1''"
  using prefixed_pubkey_is_alias [of "demo_key CHR ''1''" demo_crates] by (simp add: parse_pubkey_ok)

end
