(* ===== verification/Stun.thy ===== *)
theory Stun
  imports Prelude
begin

text \<open>
  \<open>src/stun.rs\<close>: the text of the endpoint a peer was seen at. \<open>SocketAddr\<close> and its
  \<open>Display\<close> implementation belong to the Rust standard library and are written out: the
  dotted quad and port of an IPv4 endpoint; the bracketed IPv6 form with the IPv4-mapped
  shape, the first longest run of two or more zero groups compressed, and the scope id.
\<close>

type_synonym u16 = "16 word"

datatype socket_addr =
    V4 u8 u8 u8 u8 u16
  | V6 "u16 list" "32 word" u16

definition show_word :: "'a::len word \<Rightarrow> string" where
  "show_word w = show_nat (unat w)"

definition ipv4_text :: "u8 \<Rightarrow> u8 \<Rightarrow> u8 \<Rightarrow> u8 \<Rightarrow> string" where
  "ipv4_text a b c d = show_word a @ ''.'' @ show_word b @ ''.'' @ show_word c @ ''.'' @ show_word d"

fun join_hex :: "u16 list \<Rightarrow> string" where
  "join_hex [] = ''''"
| "join_hex [s] = show_hex (unat s)"
| "join_hex (s # t # ss) = show_hex (unat s) @ '':'' @ join_hex (t # ss)"

text \<open>The scan for the longest run of zero groups: index, current run and longest run as
  pairs of start and length.\<close>

fun zero_scan :: "nat \<Rightarrow> nat \<times> nat \<Rightarrow> nat \<times> nat \<Rightarrow> u16 list \<Rightarrow> nat \<times> nat" where
  "zero_scan i cur longest [] = longest"
| "zero_scan i cur longest (s # ss) =
     (if s = 0 then
        let cur' = (if snd cur = 0 then (i, 1) else (fst cur, snd cur + 1));
            longest' = (if snd cur' > snd longest then cur' else longest)
        in zero_scan (i + 1) cur' longest' ss
      else zero_scan (i + 1) (0, 0) longest ss)"

definition ipv6_text :: "u16 list \<Rightarrow> string" where
  "ipv6_text segs =
     (if take 6 segs = [0, 0, 0, 0, 0, 0xffff] \<and> length segs = 8 then
        ''::ffff:'' @ ipv4_text (ucast (drop_bit 8 (segs ! 6))) (ucast (segs ! 6))
                                (ucast (drop_bit 8 (segs ! 7))) (ucast (segs ! 7))
      else let z = zero_scan 0 (0, 0) (0, 0) segs
           in if snd z > 1 then join_hex (take (fst z) segs) @ ''::'' @ join_hex (drop (fst z + snd z) segs)
              else join_hex segs)"

fun format_reflected :: "socket_addr \<Rightarrow> string" where
  "format_reflected (V4 a b c d port) = ipv4_text a b c d @ '':'' @ show_word port"
| "format_reflected (V6 segs scope port) =
     ''['' @ ipv6_text segs @ (if scope = 0 then '''' else ''%'' @ show_word scope) @ '']:'' @ show_word port"

lemma show_word_inject [simp]: "show_word v = show_word w \<longleftrightarrow> v = w"
  by (simp add: show_word_def word_unat_eq_iff)

lemma show_word_separators [simp]:
  "CHR ''.'' \<notin> set (show_word w)" "CHR '':'' \<notin> set (show_word w)"
  using show_nat_digits [of "unat w"] separator_not_digit by (auto simp: show_word_def)

lemma ipv4_text_colon [simp]: "CHR '':'' \<notin> set (ipv4_text a b c d)"
  by (simp add: ipv4_text_def)

lemma ipv4_text_inject:
  "ipv4_text a b c d = ipv4_text a' b' c' d' \<longleftrightarrow> a = a' \<and> b = b' \<and> c = c' \<and> d = d'"
  by (simp add: ipv4_text_def append_sep_inject)

text \<open>
  The reflected address is exact for IPv4: two endpoints are reported by the same text
  only if they are the same address and the same port.
\<close>
theorem reflected_ipv4_exact:
  "format_reflected (V4 a b c d p) = format_reflected (V4 a' b' c' d' p') \<longleftrightarrow>
     V4 a b c d p = V4 a' b' c' d' p'"
  by (simp add: append_sep_inject ipv4_text_inject)

lemma format_reflected_examples:
  "format_reflected (V4 73 42 118 5 51820) = ''73.42.118.5:51820''"
  "format_reflected (V6 [0x2001, 0xdb8, 0, 0, 1, 0, 0, 1] 0 443) = ''[2001:db8::1:0:0:1]:443''"
  "format_reflected (V6 [0, 0, 0, 0, 0, 0, 0, 1] 3 80) = ''[::1%3]:80''"
  "format_reflected (V6 [0, 0, 0, 0, 0, 0xffff, 0xc000, 0x0201] 0 80) = ''[::ffff:192.0.2.1]:80''"
  by (simp_all add: ipv4_text_def ipv6_text_def show_word_def show_nat.simps show_hex.simps digit_char_def char_of_def bit_0)

end
