(* ===== verification/Registry.thy ===== *)
theory Registry
  imports Auth Stun
begin

text \<open>
  \<open>src/registry.rs\<close>: the registry of connected peers and the delivery of messages to
  them. A peer's sender is the name of its connection's channel. A channel is the sequence
  of messages accepted so far and whether its receiver (the connection's writer task) is
  alive; \<open>send().await\<close> waits for room in the buffer, so with a live receiver it ends with
  the message accepted, and with a dropped receiver it fails.
\<close>

section \<open>Channels\<close>

type_synonym chan_id = nat

record channel =
  ch_alive :: bool
  ch_log :: "server_message list"

type_synonym channels = "(chan_id, channel) dashmap"

definition chan_alive :: "channels \<Rightarrow> chan_id \<Rightarrow> bool" where
  "chan_alive cs i = (case dm_get cs i of None \<Rightarrow> False | Some c \<Rightarrow> ch_alive c)"

definition chan_log :: "channels \<Rightarrow> chan_id \<Rightarrow> server_message list" where
  "chan_log cs i = (case dm_get cs i of None \<Rightarrow> [] | Some c \<Rightarrow> ch_log c)"

definition chan_send :: "chan_id \<Rightarrow> server_message \<Rightarrow> channels \<Rightarrow> bool \<times> channels" where
  "chan_send i msg cs =
     (case dm_get cs i of
        None \<Rightarrow> (False, cs)
      | Some c \<Rightarrow> if ch_alive c then (True, dm_insert i (c\<lparr>ch_log := ch_log c @ [msg]\<rparr>) cs) else (False, cs))"

definition try_send :: "chan_id \<Rightarrow> server_message \<Rightarrow> channels \<Rightarrow> unit result \<times> channels" where
  "try_send tx msg cs = (case chan_send tx msg cs of (ok, cs') \<Rightarrow> (if ok then Inr () else Inl PeerOffline, cs'))"

section \<open>The registry\<close>

record peer_handle =
  ph_pubkey :: string
  ph_handle :: "string option"
  ph_addresses :: peer_addresses
  ph_reflected :: socket_addr
  ph_tx :: chan_id

record peer_registry =
  by_pubkey :: "(string, peer_handle) dashmap"
  handle_to_pubkey :: "(string, string) dashmap"

definition reg_new :: peer_registry where
  "reg_new = \<lparr>by_pubkey = dm_empty, handle_to_pubkey = dm_empty\<rparr>"

definition reg_insert :: "peer_handle \<Rightarrow> peer_registry \<Rightarrow> peer_registry" where
  "reg_insert peer r =
     (let r1 = (case ph_handle peer of
                  Some h \<Rightarrow> r\<lparr>handle_to_pubkey := dm_insert h (ph_pubkey peer) (handle_to_pubkey r)\<rparr>
                | None \<Rightarrow> r)
      in r1\<lparr>by_pubkey := dm_insert (ph_pubkey peer) peer (by_pubkey r1)\<rparr>)"

definition reg_remove :: "string \<Rightarrow> peer_registry \<Rightarrow> peer_handle option \<times> peer_registry" where
  "reg_remove pubkey r =
     (case dm_get (by_pubkey r) pubkey of
        None \<Rightarrow> (None, r)
      | Some peer \<Rightarrow>
          let r1 = r\<lparr>by_pubkey := dm_remove pubkey (by_pubkey r)\<rparr>
          in (Some peer,
              case ph_handle peer of
                None \<Rightarrow> r1
              | Some h \<Rightarrow>
                  (case dm_get (handle_to_pubkey r1) h of
                     None \<Rightarrow> r1
                   | Some e \<Rightarrow> if e = ph_pubkey peer
                       then r1\<lparr>handle_to_pubkey := dm_remove h (handle_to_pubkey r1)\<rparr> else r1)))"

definition reg_get :: "peer_registry \<Rightarrow> string \<Rightarrow> peer_handle option" where
  "reg_get r pubkey = dm_get (by_pubkey r) pubkey"

definition reg_resolve_handle :: "peer_registry \<Rightarrow> string \<Rightarrow> string option" where
  "reg_resolve_handle r h = dm_get (handle_to_pubkey r) h"

definition reg_is_online :: "peer_registry \<Rightarrow> string \<Rightarrow> bool" where
  "reg_is_online r pubkey = (dm_get (by_pubkey r) pubkey \<noteq> None)"

definition reg_len :: "peer_registry \<Rightarrow> nat" where
  "reg_len r = dm_len (by_pubkey r)"

definition reg_is_empty :: "peer_registry \<Rightarrow> bool" where
  "reg_is_empty r = (dm_len (by_pubkey r) = 0)"

definition reg_online_set :: "peer_registry \<Rightarrow> string list \<Rightarrow> (string \<times> bool) list" where
  "reg_online_set r pubkeys = map (\<lambda>pk. (pk, dm_get (by_pubkey r) pk \<noteq> None)) pubkeys"

section \<open>The contract of delivery\<close>

text \<open>What the senders rely on: a send goes to one channel, at its end, and fails exactly
  when the receiver is gone.\<close>

locale delivery =
  fixes send :: "'i \<Rightarrow> 'm \<Rightarrow> 'c \<Rightarrow> bool \<times> 'c"
    and log :: "'c \<Rightarrow> 'i \<Rightarrow> 'm list"
    and alive :: "'c \<Rightarrow> 'i \<Rightarrow> bool"
  assumes send_result: "fst (send i m c) = alive c i"
    and log_send: "log (snd (send i m c)) j = (if j = i \<and> alive c i then log c j @ [m] else log c j)"
    and alive_send: "alive (snd (send i m c)) j = alive c j"
begin

definition send_all :: "('i \<times> 'm) list \<Rightarrow> 'c \<Rightarrow> 'c" where
  "send_all ps c = fold (\<lambda>(i, m) c. snd (send i m c)) ps c"

lemma send_all_Nil: "send_all [] c = c"
  by (simp add: send_all_def)

lemma send_all_Cons: "send_all ((i, m) # ps) c = send_all ps (snd (send i m c))"
  by (simp add: send_all_def)

lemma alive_send_all: "alive (send_all ps c) j = alive c j"
proof (induction ps arbitrary: c)
  case (Cons p ps)
  then show ?case by (cases p) (simp add: send_all_Cons alive_send)
qed (simp add: send_all_Nil)

text \<open>Every channel receives exactly the messages addressed to it, in their order.\<close>

lemma log_send_all:
  "log (send_all ps c) j = log c j @ (if alive c j then map snd (filter (\<lambda>p. fst p = j) ps) else [])"
proof (induction ps arbitrary: c)
  case (Cons p ps)
  then show ?case by (cases p) (simp add: send_all_Cons log_send alive_send)
qed (simp add: send_all_Nil)

end

interpretation ch: delivery chan_send chan_log chan_alive
  by unfold_locales (auto simp: chan_send_def chan_log_def chan_alive_def split: option.splits)

lemmas chan_simps [simp] = ch.send_result ch.log_send ch.alive_send ch.alive_send_all

lemma try_send_eq:
  "try_send tx msg cs = (if chan_alive cs tx then Inr () else Inl PeerOffline, snd (chan_send tx msg cs))"
  by (simp add: try_send_def case_prod_beta)

lemma try_send_simps [simp]:
  "fst (try_send tx msg cs) = (if chan_alive cs tx then Inr () else Inl PeerOffline)"
  "chan_log (snd (try_send tx msg cs)) j = (if j = tx \<and> chan_alive cs tx then chan_log cs j @ [msg] else chan_log cs j)"
  "chan_alive (snd (try_send tx msg cs)) j = chan_alive cs j"
  by (simp_all add: try_send_eq)

text \<open>A dead receiver keeps the channel table as it is.\<close>

lemma chan_send_dead: "\<not> chan_alive cs tx \<Longrightarrow> chan_send tx msg cs = (False, cs)"
  by (auto simp: chan_send_def chan_alive_def split: option.splits)

section \<open>The registry's invariant\<close>

datatype registry_op = RegInsert peer_handle | RegRemove string

fun registry_step :: "peer_registry \<Rightarrow> registry_op \<Rightarrow> peer_registry" where
  "registry_step r (RegInsert p) = reg_insert p r"
| "registry_step r (RegRemove pk) = snd (reg_remove pk r)"

text \<open>A handle belongs to one public key: what the database guarantees to the registry.\<close>

fun registry_ok :: "peer_registry \<Rightarrow> registry_op \<Rightarrow> bool" where
  "registry_ok r (RegInsert p) = (\<forall>pk q. reg_get r pk = Some q \<and> ph_handle q = ph_handle p \<and> ph_handle p \<noteq> None
      \<longrightarrow> pk = ph_pubkey p)"
| "registry_ok r (RegRemove pk) = True"

definition registry_inv :: "peer_registry \<Rightarrow> bool" where
  "registry_inv r \<longleftrightarrow> dm_wf (by_pubkey r) \<and> dm_wf (handle_to_pubkey r) \<and>
     (\<forall>pk p. reg_get r pk = Some p \<longrightarrow> ph_pubkey p = pk \<and>
        (\<forall>h. ph_handle p = Some h \<longrightarrow> reg_resolve_handle r h = Some pk))"

lemma reg_is_online_iff: "reg_is_online r pk \<longleftrightarrow> reg_get r pk \<noteq> None"
  by (simp add: reg_is_online_def reg_get_def)

lemma reg_get_insert [simp]: "reg_get (reg_insert p r) pk = (if pk = ph_pubkey p then Some p else reg_get r pk)"
  by (simp add: reg_insert_def reg_get_def Let_def split: option.splits)

lemma reg_resolve_insert [simp]:
  "reg_resolve_handle (reg_insert p r) h =
     (if ph_handle p = Some h then Some (ph_pubkey p) else reg_resolve_handle r h)"
  by (auto simp: reg_insert_def reg_resolve_handle_def Let_def split: option.splits)

lemma reg_get_remove [simp]: "reg_get (snd (reg_remove pk r)) pk' = (if pk' = pk then None else reg_get r pk')"
  by (auto simp: reg_remove_def reg_get_def Let_def split: option.splits)

lemma reg_resolve_remove:
  "reg_resolve_handle (snd (reg_remove pk r)) h =
     (case reg_get r pk of
        Some p \<Rightarrow> if ph_handle p = Some h \<and> reg_resolve_handle r h = Some (ph_pubkey p) then None
                  else reg_resolve_handle r h
      | None \<Rightarrow> reg_resolve_handle r h)"
  by (auto simp: reg_remove_def reg_get_def reg_resolve_handle_def Let_def split: option.splits)

lemma reg_wf_insert: "dm_wf (by_pubkey r) \<Longrightarrow> dm_wf (handle_to_pubkey r) \<Longrightarrow>
    dm_wf (by_pubkey (reg_insert p r)) \<and> dm_wf (handle_to_pubkey (reg_insert p r))"
  by (simp add: reg_insert_def Let_def split: option.splits)

lemma reg_wf_remove: "dm_wf (by_pubkey r) \<Longrightarrow> dm_wf (handle_to_pubkey r) \<Longrightarrow>
    dm_wf (by_pubkey (snd (reg_remove pk r))) \<and> dm_wf (handle_to_pubkey (snd (reg_remove pk r)))"
  by (simp add: reg_remove_def Let_def split: option.splits)

lemma registry_inv_insert:
  "registry_inv r \<Longrightarrow> registry_ok r (RegInsert p) \<Longrightarrow> registry_inv (reg_insert p r)"
  by (auto simp: registry_inv_def reg_wf_insert)

lemma registry_inv_remove: "registry_inv r \<Longrightarrow> registry_inv (snd (reg_remove pk r))"
  by (auto simp: registry_inv_def reg_wf_remove reg_resolve_remove split: option.splits if_splits)

interpretation registry: event_machine registry_step registry_ok registry_inv
proof
  fix r e
  assume "registry_inv r" "registry_ok r e"
  then show "registry_inv (registry_step r e)"
    by (cases e) (auto intro: registry_inv_insert registry_inv_remove simp del: registry_ok.simps)
qed

lemma registry_inv_new: "registry_inv reg_new"
  by (simp add: registry_inv_def reg_new_def reg_get_def)

text \<open>
  The handle index is right: after any sequence of insertions and removals in which a
  handle is used by one public key at a time, the handle of every connected peer resolves to
  that peer's public key.
\<close>
theorem handle_index_resolves:
  assumes "registry.legal_run reg_new ops r"
    and "reg_get r pk = Some p" and "ph_handle p = Some h"
  shows "reg_resolve_handle r h = Some pk"
  using registry.legal_run_inv [OF assms(1) registry_inv_new] assms(2,3)
  by (auto simp: registry_inv_def)

definition demo_peer :: "char \<Rightarrow> string option \<Rightarrow> chan_id \<Rightarrow> peer_handle" where
  "demo_peer c h tx = \<lparr>ph_pubkey = demo_key c, ph_handle = h, ph_addresses = default_addresses,
     ph_reflected = V4 127 0 0 1 4000, ph_tx = tx\<rparr>"

lemma demo_peer_simps [simp]:
  "ph_pubkey (demo_peer c h tx) = demo_key c" "ph_handle (demo_peer c h tx) = h"
  "ph_addresses (demo_peer c h tx) = default_addresses"
  "ph_reflected (demo_peer c h tx) = V4 127 0 0 1 4000" "ph_tx (demo_peer c h tx) = tx"
  by (simp_all add: demo_peer_def)

lemma reg_new_simps [simp]: "reg_get reg_new pk = None" "reg_resolve_handle reg_new h = None"
  by (simp_all add: reg_new_def reg_get_def reg_resolve_handle_def)

theorem handle_index_resolves_witness:
  "reg_resolve_handle (reg_insert (demo_peer CHR ''2'' (Some ''bob'') 2)
     (reg_insert (demo_peer CHR ''1'' (Some ''alice'') 1) reg_new)) ''alice'' = Some (demo_key CHR ''1'')"
proof -
  let ?a = "demo_peer CHR ''1'' (Some ''alice'') 1" and ?b = "demo_peer CHR ''2'' (Some ''bob'') 2"
  have "registry.legal_run reg_new [RegInsert ?a, RegInsert ?b] (reg_insert ?b (reg_insert ?a reg_new))"
    by (intro registry.legal_cons) (auto intro: registry.legal_nil)
  then show ?thesis by (rule handle_index_resolves [where p = ?a]) simp_all
qed

text \<open>
  The count that the health endpoint reports is the number of distinct public keys that
  are online, after any sequence of insertions and removals.
\<close>
theorem registry_len_counts_online:
  "reg_len (foldl registry_step reg_new ops) = card {pk. reg_is_online (foldl registry_step reg_new ops) pk}"
proof -
  have "dm_wf (by_pubkey r) \<and> dm_wf (handle_to_pubkey r) \<Longrightarrow>
        dm_wf (by_pubkey (foldl registry_step r ops)) \<and> dm_wf (handle_to_pubkey (foldl registry_step r ops))" for r
  proof (induction ops arbitrary: r)
    case (Cons e ops)
    then show ?case by (cases e) (auto simp: reg_wf_insert reg_wf_remove)
  qed simp
  from this [of reg_new] show ?thesis
    by (simp add: reg_len_def reg_is_online_def dm_len_eq reg_new_def)
qed

text \<open>
  A stale index entry: when a peer that holds a handle registers again without it and then
  leaves, the index keeps sending the handle to the peer, who is offline.
\<close>
theorem stale_handle_index:
  assumes "ph_pubkey p = pk" and "ph_handle p = Some h" and "ph_pubkey q = pk" and "ph_handle q = None"
  shows "let r = snd (reg_remove pk (reg_insert q (reg_insert p r0)))
         in reg_resolve_handle r h = Some pk \<and> \<not> reg_is_online r pk"
  using assms by (simp add: Let_def reg_resolve_remove reg_is_online_iff)

theorem stale_handle_index_witness:
  "let r = snd (reg_remove (demo_key CHR ''1'')
       (reg_insert (demo_peer CHR ''1'' None 2) (reg_insert (demo_peer CHR ''1'' (Some ''alice'') 1) reg_new)))
   in reg_resolve_handle r ''alice'' = Some (demo_key CHR ''1'') \<and> \<not> reg_is_online r (demo_key CHR ''1'')"
  by (rule stale_handle_index) simp_all

text \<open>Two connected peers, for the examples.\<close>

definition demo_registry :: peer_registry where
  "demo_registry = reg_insert (demo_peer CHR ''1'' None 1) (reg_insert (demo_peer CHR ''2'' None 2) reg_new)"

definition demo_channels :: channels where
  "demo_channels = [(1, \<lparr>ch_alive = True, ch_log = []\<rparr>), (2, \<lparr>ch_alive = True, ch_log = []\<rparr>)]"

lemma demo_registry_get [simp]:
  "reg_get demo_registry (demo_key CHR ''1'') = Some (demo_peer CHR ''1'' None 1)"
  "reg_get demo_registry (demo_key CHR ''2'') = Some (demo_peer CHR ''2'' None 2)"
  by (simp_all add: demo_registry_def)

lemma demo_channels_simps [simp]:
  "chan_alive demo_channels 1" "chan_alive demo_channels 2" "chan_log demo_channels j = []"
  by (auto simp: chan_alive_def chan_log_def demo_channels_def dm_get_def)

end
