(* ===== verification/Presence.thy ===== *)
theory Presence
  imports Registry
begin

text \<open>
  \<open>src/presence.rs\<close>: the two indexes of the presence service, the operations on them and
  the broadcast of a state change. The mutable references the source holds into the maps are
  written back at the end of each loop; nothing reads the entry in between.
\<close>

record presence_manager =
  subscriptions :: "(string, string list) dashmap"
  watchers :: "(string, string list) dashmap"

definition presence_new :: presence_manager where
  "presence_new = \<lparr>subscriptions = dm_empty, watchers = dm_empty\<rparr>"

definition or_default :: "'a list option \<Rightarrow> 'a list" where
  "or_default x = (case x of None \<Rightarrow> [] | Some s \<Rightarrow> s)"

fun subscribe_loop :: "string \<Rightarrow> string list \<Rightarrow> string list \<times> (string, string list) dashmap
    \<Rightarrow> string list \<times> (string, string list) dashmap" where
  "subscribe_loop subscriber [] (subs, ws) = (subs, ws)"
| "subscribe_loop subscriber (t # ts) (subs, ws) =
     subscribe_loop subscriber ts
       (hs_insert t subs, dm_insert t (hs_insert subscriber (or_default (dm_get ws t))) ws)"

definition subscribe :: "string \<Rightarrow> string list \<Rightarrow> presence_manager \<Rightarrow> presence_manager" where
  "subscribe subscriber targets pm =
     (let (subs, ws) = subscribe_loop subscriber targets
            (or_default (dm_get (subscriptions pm) subscriber), watchers pm)
      in pm\<lparr>subscriptions := dm_insert subscriber subs (subscriptions pm), watchers := ws\<rparr>)"

definition drop_watcher :: "string \<Rightarrow> string \<Rightarrow> (string, string list) dashmap \<Rightarrow> (string, string list) dashmap" where
  "drop_watcher subscriber t ws =
     (case dm_get ws t of
        None \<Rightarrow> ws
      | Some w \<Rightarrow>
          let w' = hs_remove subscriber w
          in if w' = [] then dm_remove t ws else dm_insert t w' ws)"

fun unsubscribe_loop :: "string \<Rightarrow> string list \<Rightarrow> string list \<times> (string, string list) dashmap
    \<Rightarrow> string list \<times> (string, string list) dashmap" where
  "unsubscribe_loop subscriber [] (subs, ws) = (subs, ws)"
| "unsubscribe_loop subscriber (t # ts) (subs, ws) =
     unsubscribe_loop subscriber ts (hs_remove t subs, drop_watcher subscriber t ws)"

definition unsubscribe :: "string \<Rightarrow> string list \<Rightarrow> presence_manager \<Rightarrow> presence_manager" where
  "unsubscribe subscriber targets pm =
     (case dm_get (subscriptions pm) subscriber of
        None \<Rightarrow> pm
      | Some subs0 \<Rightarrow>
          let (subs, ws) = unsubscribe_loop subscriber targets (subs0, watchers pm)
          in pm\<lparr>subscriptions := dm_insert subscriber subs (subscriptions pm), watchers := ws\<rparr>)"

definition clear_subscriber :: "string \<Rightarrow> presence_manager \<Rightarrow> presence_manager" where
  "clear_subscriber subscriber pm =
     (case dm_get (subscriptions pm) subscriber of
        None \<Rightarrow> pm
      | Some targets \<Rightarrow>
          pm\<lparr>subscriptions := dm_remove subscriber (subscriptions pm),
             watchers := fold (drop_watcher subscriber) targets (watchers pm)\<rparr>)"

definition watchers_of :: "presence_manager \<Rightarrow> string \<Rightarrow> string list" where
  "watchers_of pm pubkey = or_default (dm_get (watchers pm) pubkey)"

fun broadcast_loop :: "peer_registry \<Rightarrow> server_message \<Rightarrow> string list \<Rightarrow> channels \<Rightarrow> channels" where
  "broadcast_loop r payload [] cs = cs"
| "broadcast_loop r payload (w # ws) cs =
     broadcast_loop r payload ws
       (case reg_get r w of None \<Rightarrow> cs | Some peer \<Rightarrow> snd (try_send (ph_tx peer) payload cs))"

definition broadcast :: "presence_manager \<Rightarrow> peer_registry \<Rightarrow> string \<Rightarrow> bool \<Rightarrow> channels \<Rightarrow> channels" where
  "broadcast pm r pubkey online cs =
     (case dm_get (watchers pm) pubkey of
        None \<Rightarrow> cs
      | Some w \<Rightarrow> broadcast_loop r (PresenceUpdate pubkey online) w cs)"

definition is_alive :: "channels \<Rightarrow> chan_id \<Rightarrow> bool" where
  "is_alive cs tx = chan_alive cs tx"

section \<open>The abstract service and the invariant\<close>

text \<open>What the service stands for: the relation "this peer watches that one".\<close>

datatype presence_op = Subscribe string "string list" | Unsubscribe string "string list" | ClearSubscriber string

fun presence_step :: "presence_manager \<Rightarrow> presence_op \<Rightarrow> presence_manager" where
  "presence_step pm (Subscribe s ts) = subscribe s ts pm"
| "presence_step pm (Unsubscribe s ts) = unsubscribe s ts pm"
| "presence_step pm (ClearSubscriber s) = clear_subscriber s pm"

fun watch_step :: "(string \<times> string) set \<Rightarrow> presence_op \<Rightarrow> (string \<times> string) set" where
  "watch_step R (Subscribe s ts) = R \<union> {s} \<times> set ts"
| "watch_step R (Unsubscribe s ts) = R - {s} \<times> set ts"
| "watch_step R (ClearSubscriber s) = R - {s} \<times> UNIV"

definition subs_of :: "presence_manager \<Rightarrow> string \<Rightarrow> string list" where
  "subs_of pm s = or_default (dm_get (subscriptions pm) s)"

definition watches :: "presence_manager \<Rightarrow> (string \<times> string) set" where
  "watches pm = {(s, t). t \<in> set (subs_of pm s)}"

definition watchers_tidy :: "presence_manager \<Rightarrow> bool" where
  "watchers_tidy pm \<longleftrightarrow> (\<forall>t. distinct (watchers_of pm t) \<and> dm_get (watchers pm) t \<noteq> Some [])"

definition presence_inv :: "presence_manager \<Rightarrow> bool" where
  "presence_inv pm \<longleftrightarrow> watchers_tidy pm \<and> (\<forall>s t. t \<in> set (subs_of pm s) \<longleftrightarrow> s \<in> set (watchers_of pm t))"

lemma or_default_simps [simp]: "or_default None = []" "or_default (Some s) = s"
  by (simp_all add: or_default_def)

text \<open>The loops, set by set.\<close>

lemma subscribe_loop_spec:
  assumes "subscribe_loop s ts (subs, ws) = (subs', ws')"
  shows "set subs' = set subs \<union> set ts"
    and "set (or_default (dm_get ws' t)) = set (or_default (dm_get ws t)) \<union> (if t \<in> set ts then {s} else {})"
    and "distinct (or_default (dm_get ws t)) \<Longrightarrow> distinct (or_default (dm_get ws' t))"
    and "dm_get ws t \<noteq> Some [] \<Longrightarrow> dm_get ws' t \<noteq> Some []"
proof -
  have "hs_insert x xs \<noteq> []" for x :: string and xs by (auto simp: hs_insert_def)
  then have "set subs' = set subs \<union> set ts \<and>
      set (or_default (dm_get ws' t)) = set (or_default (dm_get ws t)) \<union> (if t \<in> set ts then {s} else {}) \<and>
      (distinct (or_default (dm_get ws t)) \<longrightarrow> distinct (or_default (dm_get ws' t))) \<and>
      (dm_get ws t \<noteq> Some [] \<longrightarrow> dm_get ws' t \<noteq> Some [])"
    using assms
    by (induction s ts "(subs, ws)" arbitrary: subs ws rule: subscribe_loop.induct) (auto split: if_splits)
  then show "set subs' = set subs \<union> set ts"
    and "set (or_default (dm_get ws' t)) = set (or_default (dm_get ws t)) \<union> (if t \<in> set ts then {s} else {})"
    and "distinct (or_default (dm_get ws t)) \<Longrightarrow> distinct (or_default (dm_get ws' t))"
    and "dm_get ws t \<noteq> Some [] \<Longrightarrow> dm_get ws' t \<noteq> Some []"
    by blast+
qed

lemma drop_watcher_spec:
  "set (or_default (dm_get (drop_watcher s t ws) u)) = set (or_default (dm_get ws u)) - (if u = t then {s} else {})"
  "distinct (or_default (dm_get ws u)) \<Longrightarrow> distinct (or_default (dm_get (drop_watcher s t ws) u))"
  "dm_get ws u \<noteq> Some [] \<Longrightarrow> dm_get (drop_watcher s t ws) u \<noteq> Some []"
  by (auto simp: drop_watcher_def Let_def hs_remove_Nil split: option.splits)

lemma fold_drop_watcher_spec:
  "set (or_default (dm_get (fold (drop_watcher s) ts ws) u)) =
     set (or_default (dm_get ws u)) - (if u \<in> set ts then {s} else {})"
  "distinct (or_default (dm_get ws u)) \<Longrightarrow> distinct (or_default (dm_get (fold (drop_watcher s) ts ws) u))"
  "dm_get ws u \<noteq> Some [] \<Longrightarrow> dm_get (fold (drop_watcher s) ts ws) u \<noteq> Some []"
  by (induction ts arbitrary: ws) (auto simp: drop_watcher_spec)

lemma unsubscribe_loop_eq:
  "unsubscribe_loop s ts (subs, ws) = (fold hs_remove ts subs, fold (drop_watcher s) ts ws)"
  by (induction ts arbitrary: subs ws) simp_all

lemma set_fold_hs_remove: "set (fold hs_remove ts subs) = set subs - set ts"
  by (induction ts arbitrary: subs) auto

text \<open>The operations, set by set.\<close>

lemma subscribe_sets:
  "set (subs_of (subscribe s ts pm) x) = set (subs_of pm x) \<union> (if x = s then set ts else {})"
  "set (watchers_of (subscribe s ts pm) t) = set (watchers_of pm t) \<union> (if t \<in> set ts then {s} else {})"
  "watchers_tidy pm \<Longrightarrow> watchers_tidy (subscribe s ts pm)"
proof -
  obtain subs ws where loop: "subscribe_loop s ts (subs_of pm s, watchers pm) = (subs, ws)"
    by fastforce
  note spec = subscribe_loop_spec [OF loop]
  have eq: "subscribe s ts pm = pm\<lparr>subscriptions := dm_insert s subs (subscriptions pm), watchers := ws\<rparr>"
    using loop by (simp add: subscribe_def subs_of_def)
  show "set (subs_of (subscribe s ts pm) x) = set (subs_of pm x) \<union> (if x = s then set ts else {})"
    using spec(1) by (simp add: eq subs_of_def)
  show "set (watchers_of (subscribe s ts pm) t) = set (watchers_of pm t) \<union> (if t \<in> set ts then {s} else {})"
    using spec(2) by (simp add: eq watchers_of_def)
  show "watchers_tidy pm \<Longrightarrow> watchers_tidy (subscribe s ts pm)"
    using spec(3,4) by (simp add: eq watchers_of_def watchers_tidy_def)
qed

lemma unsubscribe_sets:
  "set (subs_of (unsubscribe s ts pm) x) = set (subs_of pm x) - (if x = s then set ts else {})"
  "set (watchers_of (unsubscribe s ts pm) t) =
     set (watchers_of pm t) - (if t \<in> set ts \<and> dm_get (subscriptions pm) s \<noteq> None then {s} else {})"
  "watchers_tidy pm \<Longrightarrow> watchers_tidy (unsubscribe s ts pm)"
  by (cases "dm_get (subscriptions pm) s";
      simp add: unsubscribe_def unsubscribe_loop_eq subs_of_def watchers_of_def watchers_tidy_def
        set_fold_hs_remove fold_drop_watcher_spec)+

lemma clear_sets:
  "set (subs_of (clear_subscriber s pm) x) = (if x = s then {} else set (subs_of pm x))"
  "set (watchers_of (clear_subscriber s pm) t) = set (watchers_of pm t) - (if t \<in> set (subs_of pm s) then {s} else {})"
  "watchers_tidy pm \<Longrightarrow> watchers_tidy (clear_subscriber s pm)"
  by (cases "dm_get (subscriptions pm) s";
      simp add: clear_subscriber_def subs_of_def watchers_of_def watchers_tidy_def fold_drop_watcher_spec)+

lemma presence_inv_D:
  "presence_inv pm \<Longrightarrow> s \<in> set (watchers_of pm t) \<longleftrightarrow> t \<in> set (subs_of pm s)"
  by (simp add: presence_inv_def)

lemma presence_inv_subscribe:
  assumes "presence_inv pm"
  shows "presence_inv (subscribe s ts pm)" and "watches (subscribe s ts pm) = watches pm \<union> {s} \<times> set ts"
  using assms by (auto simp: presence_inv_def watches_def subscribe_sets split: if_splits)

lemma presence_inv_unsubscribe:
  assumes "presence_inv pm"
  shows "presence_inv (unsubscribe s ts pm)" and "watches (unsubscribe s ts pm) = watches pm - {s} \<times> set ts"
proof -
  have "t \<notin> set (subs_of pm s)" if "dm_get (subscriptions pm) s = None" for t
    using that by (simp add: subs_of_def)
  with assms show "presence_inv (unsubscribe s ts pm)"
    unfolding presence_inv_def by (auto simp: unsubscribe_sets split: if_splits)
qed (auto simp: watches_def unsubscribe_sets split: if_splits)

lemma presence_inv_clear:
  assumes "presence_inv pm"
  shows "presence_inv (clear_subscriber s pm)" and "watches (clear_subscriber s pm) = watches pm - {s} \<times> UNIV"
  using assms by (auto simp: presence_inv_def watches_def clear_sets split: if_splits)

interpretation presence: simulation presence_step "\<lambda>_ _. True" presence_inv watches watch_step
proof
  fix pm e
  assume "presence_inv pm"
  then show "presence_inv (presence_step pm e)" and "watches (presence_step pm e) = watch_step (watches pm) e"
    by (cases e; simp add: presence_inv_subscribe presence_inv_unsubscribe presence_inv_clear)+
qed

lemma presence_inv_new: "presence_inv presence_new"
  by (simp add: presence_inv_def presence_new_def watchers_of_def subs_of_def watchers_tidy_def)

lemma presence_run_inv: "presence_inv (foldl presence_step presence_new ops)"
  by (rule presence.foldl_inv) (simp_all add: presence_inv_new)

text \<open>
  The two indexes of the presence service agree after every sequence of operations: a
  peer is among the watchers of another exactly when it is subscribed to it, and no empty
  watcher set is kept.
\<close>
theorem presence_indexes_agree:
  "let pm = foldl presence_step presence_new ops
   in (s \<in> set (watchers_of pm t) \<longleftrightarrow> t \<in> set (or_default (dm_get (subscriptions pm) s))) \<and>
      dm_get (watchers pm) t \<noteq> Some []"
  using presence_run_inv [of ops] by (simp add: presence_inv_def watchers_tidy_def subs_of_def Let_def)

text \<open>
  (C25) The presence service implements the relation "watches": after any sequence of
  subscriptions, unsubscriptions and disconnections, the watchers it would notify are those of
  the abstract machine that adds and removes pairs of peers.
\<close>
theorem presence_refines_watch_relation:
  "set (watchers_of (foldl presence_step presence_new ops) t) = {s. (s, t) \<in> foldl watch_step {} ops}"
proof -
  have "watches (foldl presence_step presence_new ops) = foldl watch_step (watches presence_new) ops"
    by (rule presence.foldl_abs) (simp_all add: presence_inv_new)
  also have "watches presence_new = {}"
    by (simp add: watches_def subs_of_def presence_new_def)
  finally have eq: "foldl watch_step {} ops = watches (foldl presence_step presence_new ops)" ..
  show ?thesis
    unfolding eq by (auto simp: watches_def presence_inv_D [OF presence_run_inv])
qed

section \<open>Broadcast\<close>

text \<open>The deliveries a broadcast makes: one per watcher that is registered.\<close>

fun broadcast_targets :: "peer_registry \<Rightarrow> string list \<Rightarrow> chan_id list" where
  "broadcast_targets r [] = []"
| "broadcast_targets r (w # ws) =
     (case reg_get r w of None \<Rightarrow> broadcast_targets r ws | Some p \<Rightarrow> ph_tx p # broadcast_targets r ws)"

lemma broadcast_loop_send_all:
  "broadcast_loop r payload ws cs = ch.send_all (map (\<lambda>i. (i, payload)) (broadcast_targets r ws)) cs"
  by (induction ws arbitrary: cs)
    (simp_all add: ch.send_all_Nil ch.send_all_Cons try_send_eq split: option.splits)

lemma broadcast_send_all:
  "broadcast pm r pk online cs =
     ch.send_all (map (\<lambda>i. (i, PresenceUpdate pk online)) (broadcast_targets r (watchers_of pm pk))) cs"
  by (simp add: broadcast_def broadcast_loop_send_all watchers_of_def ch.send_all_Nil split: option.splits)

lemma filter_same_message:
  "map snd (filter (\<lambda>p. fst p = j) (map (\<lambda>i. (i, m)) js)) = replicate (count_list js j) m"
  by (induction js) auto

lemma chan_log_broadcast:
  "chan_log (broadcast pm r pk online cs) j = chan_log cs j @
     (if chan_alive cs j
      then replicate (count_list (broadcast_targets r (watchers_of pm pk)) j) (PresenceUpdate pk online) else [])"
  unfolding broadcast_send_all ch.log_send_all filter_same_message ..

lemma chan_alive_broadcast [simp]: "chan_alive (broadcast pm r pk online cs) j = chan_alive cs j"
  by (simp add: broadcast_send_all)

text \<open>Distinct peers have distinct channels.\<close>

definition own_channels :: "peer_registry \<Rightarrow> bool" where
  "own_channels r \<longleftrightarrow> (\<forall>a b p q. reg_get r a = Some p \<and> reg_get r b = Some q \<and> ph_tx p = ph_tx q \<longrightarrow> a = b)"

lemma set_broadcast_targets:
  "j \<in> set (broadcast_targets r ws) \<longleftrightarrow> (\<exists>w \<in> set ws. \<exists>p. reg_get r w = Some p \<and> ph_tx p = j)"
  by (induction ws) (auto split: option.splits)

lemma distinct_broadcast_targets:
  assumes "own_channels r"
  shows "distinct ws \<Longrightarrow> distinct (broadcast_targets r ws)"
proof (induction ws)
  case (Cons w ws)
  have "ph_tx p \<notin> set (broadcast_targets r ws)" if "reg_get r w = Some p" for p
    using Cons.prems assms that unfolding set_broadcast_targets own_channels_def by auto
  with Cons show ?case by (simp split: option.splits)
qed simp

lemma broadcast_exact:
  assumes "presence_inv pm" and "own_channels r"
  shows "chan_log (broadcast pm r pk online cs) j = chan_log cs j @
     (if chan_alive cs j \<and> (\<exists>w p. (w, pk) \<in> watches pm \<and> reg_get r w = Some p \<and> ph_tx p = j)
      then [PresenceUpdate pk online] else [])"
proof -
  let ?ts = "broadcast_targets r (watchers_of pm pk)"
  have "distinct ?ts"
    using assms by (auto intro: distinct_broadcast_targets simp: presence_inv_def watchers_tidy_def)
  then have "count_list ?ts j = (if j \<in> set ?ts then 1 else 0)"
    by (rule count_list_distinct)
  moreover have "j \<in> set ?ts \<longleftrightarrow> (\<exists>w p. (w, pk) \<in> watches pm \<and> reg_get r w = Some p \<and> ph_tx p = j)"
    using presence_inv_D [OF assms(1)] by (auto simp: set_broadcast_targets watches_def)
  ultimately show ?thesis by (simp add: chan_log_broadcast)
qed

text \<open>
  (C26) A presence change reaches its watchers and nobody else: in a service whose indexes agree
  and where peers have their own channels, each connected watcher with a live connection gets
  the update once, at the end of its channel, and every other channel is left as it was.
\<close>
theorem broadcast_reaches_watchers:
  assumes "presence_inv pm" and "own_channels r"
  shows "chan_log (broadcast pm r pk online cs) j = chan_log cs j @
     (if chan_alive cs j \<and> (\<exists>w p. (w, pk) \<in> watches pm \<and> reg_get r w = Some p \<and> ph_tx p = j)
      then [PresenceUpdate pk online] else [])"
  using assms by (rule broadcast_exact)

definition demo_presence :: presence_manager where
  "demo_presence = foldl presence_step presence_new [Subscribe (demo_key CHR ''1'') [demo_key CHR ''2'']]"

lemma own_channels_demo: "own_channels demo_registry"
  by (auto simp: own_channels_def demo_registry_def split: if_splits)

theorem broadcast_reaches_watchers_witness:
  "chan_log (broadcast demo_presence demo_registry (demo_key CHR ''2'') False demo_channels) 1
     = [PresenceUpdate (demo_key CHR ''2'') False]"
proof -
  have "presence_inv demo_presence" unfolding demo_presence_def by (rule presence_run_inv)
  from broadcast_reaches_watchers [OF this own_channels_demo]
  have "chan_log (broadcast demo_presence demo_registry (demo_key CHR ''2'') False demo_channels) 1 = chan_log demo_channels 1 @
     (if chan_alive demo_channels 1 \<and> (\<exists>w p. (w, demo_key CHR ''2'') \<in> watches demo_presence \<and> reg_get demo_registry w = Some p \<and> ph_tx p = 1)
      then [PresenceUpdate (demo_key CHR ''2'') False] else [])" .
  moreover have "(demo_key CHR ''1'', demo_key CHR ''2'') \<in> watches demo_presence"
    by (simp add: demo_presence_def watches_def subscribe_sets)
  moreover have "reg_get demo_registry (demo_key CHR ''1'') = Some (demo_peer CHR ''1'' None 1)"
    by (simp add: demo_registry_def)
  ultimately show ?thesis
    by (auto simp: chan_log_def chan_alive_def demo_channels_def dm_get_def)
qed

end
