(* ===== verification/F64.thy ===== *)
theory F64
  imports Prelude "HOL-Library.Log_Nat"
begin

text \<open>
  The \<open>f64\<close> arithmetic of the token bucket. A finite double is the rational number it
  denotes; every operation is the exact operation followed by \<open>f64_round\<close>, the IEEE-754
  rounding to 53 significant bits, to nearest with ties to even. The broker's values lie
  between one nanosecond and far below \<open>2^1023\<close>, so neither subnormal numbers nor overflow
  arise, and the model has neither.
\<close>

definition floor_log2 :: "rat \<Rightarrow> int" where
  "floor_log2 x =
     (let (p, q) = quotient_of x; e = bitlen p - bitlen q
      in if x < 2 powi e then e - 1 else e)"

definition round_half_even :: "rat \<Rightarrow> int" where
  "round_half_even y =
     (let f = \<lfloor>y\<rfloor>; d = y - of_int f
      in if d < 1 / 2 then f else if d > 1 / 2 then f + 1 else if even f then f else f + 1)"

definition f64_round :: "rat \<Rightarrow> rat" where
  "f64_round x =
     (if x = 0 then 0
      else let e = floor_log2 \<bar>x\<bar> - 52
           in of_int (round_half_even (x / 2 powi e)) * 2 powi e)"

section \<open>The binary exponent\<close>

lemma bitlen_powi:
  assumes "0 < (p :: int)"
  shows "(2 :: rat) powi (bitlen p - 1) \<le> of_int p" and "of_int p < (2 :: rat) powi bitlen p"
    and "0 < bitlen p"
proof -
  from assms show pos: "0 < bitlen p" using bitlen_eq_zero_iff [of p] bitlen_nonneg [of p] by linarith
  have "2 ^ nat (bitlen p - 1) \<le> p" "p < 2 ^ nat (bitlen p)"
    using bitlen_bounds [OF assms] by auto
  then have "(of_int (2 ^ nat (bitlen p - 1)) :: rat) \<le> of_int p" "(of_int p :: rat) < of_int (2 ^ nat (bitlen p))"
    by (simp_all only: of_int_le_iff of_int_less_iff)
  with pos show "(2 :: rat) powi (bitlen p - 1) \<le> of_int p" and "of_int p < (2 :: rat) powi bitlen p"
    by (simp_all add: power_int_def)
qed

lemma floor_log2_bounds:
  assumes "0 < x"
  shows "2 powi floor_log2 x \<le> x" and "x < 2 powi (floor_log2 x + 1)"
proof -
  obtain p q where pq: "quotient_of x = (p, q)" by fastforce
  then have q: "0 < q" and x: "x = of_int p / of_int q"
    by (auto intro: quotient_of_denom_pos quotient_of_div)
  with assms have p: "0 < p" by (simp add: zero_less_divide_iff)
  note bp = bitlen_powi [OF p] and bq = bitlen_powi [OF q]
  let ?e = "bitlen p - bitlen q"
  have q': "0 < (of_int q :: rat)" using q by simp
  have "(2 :: rat) powi (bitlen p - 1 - bitlen q) = (2 :: rat) powi (bitlen p - 1) / 2 powi bitlen q"
    by (rule power_int_diff) simp
  then have "2 powi (?e - 1) = (2 :: rat) powi (bitlen p - 1) / 2 powi bitlen q"
    by (simp add: algebra_simps)
  also have "\<dots> \<le> of_int p / 2 powi bitlen q"
    using bp(1) by (simp add: divide_right_mono)
  also have "\<dots> \<le> x" unfolding x
    using bq(2) p q' by (intro divide_left_mono) auto
  finally have lo: "2 powi (?e - 1) \<le> x" .
  have "x < 2 powi bitlen p / of_int q" unfolding x
    using bp(2) q' by (simp add: divide_strict_right_mono)
  also have "\<dots> \<le> (2 :: rat) powi bitlen p / 2 powi (bitlen q - 1)"
    using bq(1) q' by (intro divide_left_mono) auto
  also have "\<dots> = 2 powi (bitlen p - (bitlen q - 1))"
    by (rule power_int_diff [symmetric]) simp
  also have "\<dots> = 2 powi (?e + 1)"
    by (simp add: algebra_simps)
  finally have hi: "x < 2 powi (?e + 1)" .
  from lo hi show "2 powi floor_log2 x \<le> x" and "x < 2 powi (floor_log2 x + 1)"
    by (auto simp: floor_log2_def pq Let_def)
qed

section \<open>Rounding\<close>

lemma round_half_even_error: "\<bar>of_int (round_half_even y) - y\<bar> \<le> 1 / 2"
  using floor_correct [of y] by (auto simp: round_half_even_def Let_def abs_if) linarith

lemma round_half_even_of_int [simp]: "round_half_even (of_int n) = n"
  by (simp add: round_half_even_def)

lemma round_half_even_nonneg: "0 \<le> y \<Longrightarrow> 0 \<le> round_half_even y"
  by (simp add: round_half_even_def Let_def)

lemma f64_round_0 [simp]: "f64_round 0 = 0"
  by (simp add: f64_round_def)

lemma f64_round_nonneg: "0 \<le> x \<Longrightarrow> 0 \<le> f64_round x"
  by (simp add: f64_round_def Let_def round_half_even_nonneg)

text \<open>One rounding is off by at most one part in \<open>2^53\<close>.\<close>

lemma f64_round_error: "\<bar>f64_round x - x\<bar> \<le> \<bar>x\<bar> / 2 ^ 53"
proof (cases "x = 0")
  case False
  define e where "e = floor_log2 \<bar>x\<bar> - 52"
  define b where "b = (2 :: rat) powi e"
  have b: "0 < b" by (simp add: b_def)
  have "f64_round x - x = (of_int (round_half_even (x / b)) - x / b) * b"
    using False b by (simp add: f64_round_def e_def b_def Let_def field_simps)
  then have "\<bar>f64_round x - x\<bar> \<le> 1 / 2 * b"
    using mult_right_mono [OF round_half_even_error [of "x / b"], of b] b by (simp add: abs_mult)
  moreover have "b * 2 ^ 52 \<le> \<bar>x\<bar>"
  proof -
    have "b * 2 ^ 52 = 2 powi (e + 52)"
      by (simp add: b_def power_int_add)
    also have "\<dots> \<le> \<bar>x\<bar>"
      using floor_log2_bounds(1) [of "\<bar>x\<bar>"] False by (simp add: e_def)
    finally show ?thesis .
  qed
  ultimately show ?thesis by simp
qed simp

text \<open>Integers below \<open>2^53\<close> are represented exactly.\<close>

lemma f64_round_of_int:
  assumes "\<bar>n\<bar> < 2 ^ 53"
  shows "f64_round (of_int n) = of_int n"
proof (cases "n = 0")
  case False
  define e where "e = floor_log2 \<bar>of_int n\<bar> - 52"
  have "(2 :: rat) powi floor_log2 \<bar>of_int n\<bar> \<le> \<bar>of_int n\<bar>"
    using floor_log2_bounds(1) [of "\<bar>of_int n\<bar>"] False by simp
  also have "\<dots> < (of_int (2 ^ 53) :: rat)"
    using assms by (simp only: of_int_abs [symmetric] of_int_less_iff)
  also have "\<dots> = 2 powi 53" by simp
  finally have "floor_log2 \<bar>of_int n :: rat\<bar> < 53"
    using power_int_increasing [of 53 "floor_log2 \<bar>of_int n :: rat\<bar>" "2 :: rat"] by (meson leD leI one_le_numeral)
  then have "e \<le> 0" by (simp add: e_def)
  then have "(2 :: rat) powi e = 1 / 2 ^ nat (- e)"
    by (simp add: power_int_def power_one_over inverse_eq_divide)
  then have "of_int n / (2 :: rat) powi e = of_int (n * 2 ^ nat (- e))"
    by simp
  then have "round_half_even (of_int n / 2 powi e) = n * 2 ^ nat (- e)"
    by (metis round_half_even_of_int)
  with False \<open>2 powi e = 1 / 2 ^ nat (- e)\<close> show ?thesis
    by (simp add: f64_round_def Let_def flip: e_def)
qed simp

lemma f64_round_of_nat: "n < 2 ^ 53 \<Longrightarrow> f64_round (of_nat n) = of_nat n"
  using f64_round_of_int [of "int n"] by simp

text \<open>Rounding does not cross a power of two.\<close>

lemma round_half_even_le: "y \<le> of_int k \<Longrightarrow> round_half_even y \<le> k"
proof (cases "y = of_int k")
  case False
  assume "y \<le> of_int k"
  with False have "\<lfloor>y\<rfloor> < k" by (simp add: floor_less_iff)
  then show ?thesis by (simp add: round_half_even_def Let_def)
qed simp

lemma f64_round_le_powi:
  assumes "0 \<le> x" and "x \<le> 2 powi k"
  shows "f64_round x \<le> 2 powi k"
proof (cases "x = 0")
  case False
  with assms have x: "0 < x" by simp
  define e where "e = floor_log2 \<bar>x\<bar> - 52"
  from x have "(2 :: rat) powi floor_log2 x \<le> 2 powi k"
    using floor_log2_bounds(1) [of x] assms(2) by linarith
  then have "floor_log2 x \<le> k"
    using power_int_strict_increasing [of k "floor_log2 x" "2 :: rat"] by (meson leI leD one_less_numeral_iff semiring_norm(76))
  then have ke: "0 \<le> k - e" using x by (simp add: e_def)
  have "x / 2 powi e \<le> 2 powi k / 2 powi e"
    using assms(2) by (intro divide_right_mono) simp_all
  also have "\<dots> = 2 powi (k - e)" by (simp add: power_int_diff)
  also have "\<dots> = of_int (2 ^ nat (k - e))" using ke by (simp add: power_int_def)
  finally have "round_half_even (x / 2 powi e) \<le> 2 ^ nat (k - e)" by (rule round_half_even_le)
  then have "(of_int (round_half_even (x / 2 powi e)) :: rat) \<le> of_int (2 ^ nat (k - e))"
    by (simp only: of_int_le_iff)
  also have "\<dots> = 2 powi (k - e)" using ke by (simp add: power_int_def)
  finally have "of_int (round_half_even (x / 2 powi e)) * 2 powi e \<le> (2 :: rat) powi (k - e) * 2 powi e"
    by (intro mult_right_mono) simp_all
  also have "\<dots> = 2 powi k" by (simp add: power_int_diff)
  finally show ?thesis using False by (simp add: f64_round_def Let_def flip: e_def)
qed simp

lemma round_half_even_ge: "of_int k \<le> y \<Longrightarrow> k \<le> round_half_even y"
  using le_floor_iff [of k y] by (auto simp: round_half_even_def Let_def)

lemma f64_round_ge_powi:
  assumes "2 powi k \<le> x"
  shows "2 powi k \<le> f64_round x"
proof -
  have "(0 :: rat) < 2 powi k" by simp
  with assms have x: "0 < x" by linarith
  define e where "e = floor_log2 x - 52"
  have "(2 :: rat) powi k < 2 powi (floor_log2 x + 1)" using floor_log2_bounds(2) [OF x] assms by linarith
  then have "k \<le> floor_log2 x"
    using power_int_increasing [of "floor_log2 x + 1" k "2 :: rat"] by fastforce
  have "2 powi k \<le> (2 :: rat) powi floor_log2 x" using \<open>k \<le> floor_log2 x\<close> by (intro power_int_increasing) simp_all
  also have "\<dots> = of_int (2 ^ 52) * 2 powi e" by (simp add: e_def power_int_diff)
  also have "\<dots> \<le> of_int (round_half_even (x / 2 powi e)) * 2 powi e"
  proof -
    have "of_int (2 ^ 52) \<le> x / 2 powi e"
      using floor_log2_bounds(1) [OF x] by (simp add: e_def power_int_diff field_simps)
    then have "2 ^ 52 \<le> round_half_even (x / 2 powi e)" by (rule round_half_even_ge)
    then show ?thesis by (intro mult_right_mono) (simp_all only: of_int_le_iff, simp)
  qed
  also have "\<dots> = f64_round x" using x by (simp add: f64_round_def Let_def e_def)
  finally show ?thesis .
qed

lemma f64_round_rel:
  assumes "0 \<le> x"
  shows "f64_round x \<le> x * (1 + 1 / 2 ^ 53)" and "x * (1 - 1 / 2 ^ 53) \<le> f64_round x"
  using abs_le_D1 [OF f64_round_error [of x]] abs_le_D2 [OF f64_round_error [of x]] assms
  by (simp_all add: algebra_simps)

end
