(* ===== verification/Quota.thy ===== *)
theory Quota
  imports Broker_Error F64
begin

text \<open>
  \<open>PeerQuota\<close> of \<open>src/relay.rs\<close>: the token bucket of one MiB per second and the daily
  allowance of one GiB that every relayed frame is charged to. An \<open>Instant\<close> is the number
  of nanoseconds since an arbitrary origin of the monotonic clock; each
  \<open>Instant::now()\<close> is an argument. \<open>day_used\<close> is a \<open>u64\<close> whose addition wraps.
\<close>

type_synonym instant = nat

definition BYTES_PER_SECOND :: u64 where
  "BYTES_PER_SECOND = 1024 * 1024"

definition BYTES_PER_DAY :: u64 where
  "BYTES_PER_DAY = 1024 * 1024 * 1024"

text \<open>\<open>Instant::duration_since\<close> saturates at zero, as subtraction of \<open>nat\<close> does.\<close>

definition duration_since :: "instant \<Rightarrow> instant \<Rightarrow> nat" where
  "duration_since now earlier = now - earlier"

definition from_secs :: "nat \<Rightarrow> nat" where
  "from_secs s = s * 1000000000"

text \<open>\<open>Duration::as_secs_f64\<close>: whole seconds plus nanoseconds over a billion.\<close>

definition as_secs_f64 :: "nat \<Rightarrow> rat" where
  "as_secs_f64 d =
     f64_round (f64_round (of_nat (d div 1000000000)) +
                f64_round (of_nat (d mod 1000000000) / 1000000000))"

definition u64_as_f64 :: "u64 \<Rightarrow> rat" where
  "u64_as_f64 b = f64_round (of_nat (unat b))"

record peer_quota =
  tokens :: rat
  last_refill :: instant
  day_used :: u64
  day_window_start :: instant

definition quota_new :: "instant \<Rightarrow> instant \<Rightarrow> peer_quota" where
  "quota_new t1 t2 =
     \<lparr>tokens = u64_as_f64 BYTES_PER_SECOND, last_refill = t1, day_used = 0, day_window_start = t2\<rparr>"

definition refill :: "instant \<Rightarrow> peer_quota \<Rightarrow> peer_quota" where
  "refill now q =
     (let elapsed = as_secs_f64 (duration_since now (last_refill q)) in
      q\<lparr>tokens := min (f64_round (tokens q + f64_round (elapsed * u64_as_f64 BYTES_PER_SECOND)))
                      (u64_as_f64 BYTES_PER_SECOND),
        last_refill := now\<rparr>)"

definition reset_day :: "instant \<Rightarrow> peer_quota \<Rightarrow> peer_quota" where
  "reset_day now q =
     (if from_secs 86400 \<le> duration_since now (day_window_start q)
      then q\<lparr>day_used := 0, day_window_start := now\<rparr> else q)"

definition try_consume :: "instant \<Rightarrow> u64 \<Rightarrow> peer_quota \<Rightarrow> peer_quota \<times> unit result" where
  "try_consume now bytes q =
     (let q = reset_day now (refill now q) in
      if BYTES_PER_DAY < day_used q + bytes then (q, Inl RelayQuotaExceeded)
      else if tokens q < u64_as_f64 bytes then (q, Inl RateLimited)
      else (q\<lparr>tokens := f64_round (tokens q - u64_as_f64 bytes), day_used := day_used q + bytes\<rparr>,
            Inr ()))"

text \<open>The bytes a sequence of attempts is granted.\<close>

fun granted :: "peer_quota \<Rightarrow> (instant \<times> u64) list \<Rightarrow> nat" where
  "granted q [] = 0"
| "granted q ((now, bytes) # es) =
     (case try_consume now bytes q of
        (q', Inr _) \<Rightarrow> unat bytes + granted q' es
      | (q', Inl _) \<Rightarrow> granted q' es)"

section \<open>The invariant\<close>

definition quota_inv :: "peer_quota \<Rightarrow> bool" where
  "quota_inv q \<longleftrightarrow> 0 \<le> tokens q \<and> tokens q \<le> 2 ^ 20 \<and> unat (day_used q) \<le> 2 ^ 30"

definition quota_step :: "peer_quota \<Rightarrow> instant \<times> u64 \<Rightarrow> peer_quota" where
  "quota_step q e = fst (try_consume (fst e) (snd e) q)"

declare of_nat_unat [simp del]

lemma rate_limit_f64 [simp]: "u64_as_f64 BYTES_PER_SECOND = 2 ^ 20"
  using f64_round_of_nat [of "2 ^ 20"] by (simp add: u64_as_f64_def BYTES_PER_SECOND_def)

lemma unat_day [simp]: "unat BYTES_PER_DAY = 2 ^ 30"
  by (simp add: BYTES_PER_DAY_def)

lemma u64_as_f64_nonneg [simp]: "0 \<le> u64_as_f64 b"
  by (simp add: u64_as_f64_def f64_round_nonneg)

lemma u64_as_f64_small: "unat b < 2 ^ 53 \<Longrightarrow> u64_as_f64 b = of_nat (unat b)"
  by (simp add: u64_as_f64_def f64_round_of_nat)

text \<open>A byte count the bucket can cover is exact as a double, so that the addition to
  \<open>day_used\<close> cannot wrap.\<close>

lemma u64_as_f64_le_bucket:
  assumes "u64_as_f64 b \<le> 2 ^ 20"
  shows "unat b \<le> 2 ^ 20" and "u64_as_f64 b = of_nat (unat b)"
proof -
  have "(of_nat (unat b) :: rat) \<le> 2 * u64_as_f64 b"
    using f64_round_rel(2) [of "of_nat (unat b)"] by (simp add: u64_as_f64_def field_simps)
  with assms have "(of_nat (unat b) :: rat) \<le> of_nat (2 ^ 21)" by simp
  then have "unat b \<le> 2 ^ 21" by (simp only: of_nat_le_iff)
  then show eq: "u64_as_f64 b = of_nat (unat b)" by (simp add: u64_as_f64_small)
  from assms have "(of_nat (unat b) :: rat) \<le> of_nat (2 ^ 20)" by (simp add: eq)
  then show "unat b \<le> 2 ^ 20" by (simp only: of_nat_le_iff)
qed

lemma as_secs_f64_nonneg [simp]: "0 \<le> as_secs_f64 d"
  by (simp add: as_secs_f64_def f64_round_nonneg)

lemma refill_bounds:
  "0 \<le> tokens q \<Longrightarrow> 0 \<le> tokens (refill now q)" "tokens (refill now q) \<le> 2 ^ 20"
  by (simp_all add: refill_def Let_def f64_round_nonneg)

lemma refill_fields [simp]:
  "day_used (refill now q) = day_used q" "day_window_start (refill now q) = day_window_start q"
  "last_refill (refill now q) = now"
  by (simp_all add: refill_def Let_def)

lemma reset_day_fields [simp]:
  "tokens (reset_day now q) = tokens q" "last_refill (reset_day now q) = last_refill q"
  "day_used (reset_day now q) =
     (if from_secs 86400 \<le> now - day_window_start q then 0 else day_used q)"
  "day_window_start (reset_day now q) =
     (if from_secs 86400 \<le> now - day_window_start q then now else day_window_start q)"
  by (simp_all add: reset_day_def duration_since_def)

text \<open>What a grant does and what it needed, with the machine arithmetic resolved.\<close>

lemma try_consume_cases:
  assumes "quota_inv q"
  obtains (grant) "try_consume now b q =
      ((reset_day now (refill now q))\<lparr>tokens := f64_round (tokens (refill now q) - of_nat (unat b)),
         day_used := day_used (reset_day now q) + b\<rparr>, Inr ())"
    "of_nat (unat b) \<le> tokens (refill now q)"
    "unat (day_used (reset_day now q) + b) = unat (day_used (reset_day now q)) + unat b"
    "unat (day_used (reset_day now q)) + unat b \<le> 2 ^ 30"
  | (denied) err where "try_consume now b q = (reset_day now (refill now q), Inl err)"
proof (cases "BYTES_PER_DAY < day_used (reset_day now q) + b \<or> tokens (refill now q) < u64_as_f64 b")
  case True
  then show ?thesis 
    by (intro denied [where err = "if BYTES_PER_DAY < day_used (reset_day now q) + b
          then RelayQuotaExceeded else RateLimited"]) (auto simp: try_consume_def Let_def)
next
  case False
  let ?u = "day_used (reset_day now q)"
  from False have le: "u64_as_f64 b \<le> tokens (refill now q)" and day: "?u + b \<le> BYTES_PER_DAY" by auto
  from le refill_bounds(2) have "u64_as_f64 b \<le> 2 ^ 20" by (rule order_trans)
  note small = u64_as_f64_le_bucket [OF this]
  from assms have u: "unat ?u \<le> 2 ^ 30" by (simp add: quota_inv_def)
  with small(1) have "unat ?u + unat b < 2 ^ LENGTH(64)" by simp
  then have sum: "unat (?u + b) = unat ?u + unat b" by (rule unat_add_lem [THEN iffD1])
  moreover from day have "unat (?u + b) \<le> 2 ^ 30" by (metis unat_day word_le_nat_alt)
  ultimately show ?thesis using False le small(2)
    by (intro grant) (auto simp: try_consume_def Let_def)
qed

interpretation quota: event_machine quota_step "\<lambda>_ _. True" quota_inv
proof
  fix q :: peer_quota and e :: "instant \<times> u64"
  assume inv: "quota_inv q"
  obtain now b where e: "e = (now, b)" by fastforce
  note bounds = refill_bounds [where q = q and now = now]
  from inv show "quota_inv (quota_step q e)"
  proof (cases rule: try_consume_cases [of q now b])
    case grant
    have "f64_round (tokens (refill now q) - of_nat (unat b)) \<le> 2 ^ 20"
      using f64_round_le_powi [of "tokens (refill now q) - of_nat (unat b)" 20] grant(2) bounds(2) by simp
    with grant inv bounds show ?thesis
      by (auto simp: quota_step_def e quota_inv_def f64_round_nonneg)
  qed (use inv bounds in \<open>auto simp: quota_step_def e quota_inv_def\<close>)
qed

section \<open>The bandwidth bound\<close>

text \<open>A refill adds what the elapsed time earned, up to four roundings.\<close>

lemma refill_upper:
  assumes "0 \<le> tokens q"
  shows "tokens (refill now q) \<le>
    tokens q + 2 ^ 20 * of_nat (now - last_refill q) / 1000000000 + 5 / 2 ^ 33"
proof (cases "2 ^ 20 \<le> tokens q + 2 ^ 20 * of_nat (now - last_refill q) / 1000000000")
  case True
  then show ?thesis using refill_bounds(2) [of now q] by (simp add: add_increasing2)
next
  case False
  define d where "d = now - last_refill q"
  define u :: rat where "u = 1 + 1 / 2 ^ 53"
  define r :: rat where "r = of_nat d / 1000000000"
  have u: "0 \<le> u" and r: "0 \<le> r" by (simp_all add: u_def r_def)
  have up: "f64_round x \<le> y * u" if "0 \<le> x" "x \<le> y" for x y
    using f64_round_rel(1) [of x] mult_right_mono [of x y u] that u by (simp add: u_def)
  from False have lt: "tokens q + 2 ^ 20 * r < 2 ^ 20" by (simp add: r_def d_def)
  with assms have "r < 1" by simp
  then have "(of_nat d :: rat) < of_nat 1000000000" by (simp add: r_def)
  then have "d < 1000000000" by (simp only: of_nat_less_iff)
  then have "as_secs_f64 d = f64_round (f64_round r)"
    by (simp add: as_secs_f64_def r_def)
  also have "\<dots> \<le> r * u * u" by (intro up f64_round_nonneg r) simp
  finally have "f64_round (as_secs_f64 d * 2 ^ 20) \<le> (2 ^ 20 * r * u * u) * u"
    by (intro up) (simp_all add: mult_ac)
  then have "f64_round (tokens q + f64_round (as_secs_f64 d * 2 ^ 20)) \<le> (tokens q + 2 ^ 20 * r * u * u * u) * u"
    using assms by (intro up) (simp_all add: f64_round_nonneg mult_ac)
  also have "\<dots> \<le> (tokens q + 2 ^ 20 * r) * u ^ 4"
  proof -
    have "tokens q * 1 \<le> tokens q * u ^ 3" using assms by (intro mult_left_mono one_le_power) (simp_all add: u_def)
    then have "tokens q + 2 ^ 20 * r * u * u * u \<le> (tokens q + 2 ^ 20 * r) * u ^ 3"
      by (simp add: distrib_left distrib_right power3_eq_cube mult_ac)
    from mult_right_mono [OF this u] show ?thesis
      by (simp add: power3_eq_cube power4_eq_xxxx mult_ac)
  qed
  also have "\<dots> = (tokens q + 2 ^ 20 * r) + (tokens q + 2 ^ 20 * r) * (u ^ 4 - 1)"
    by (simp add: algebra_simps)
  also have "\<dots> \<le> (tokens q + 2 ^ 20 * r) + 2 ^ 20 * (5 / 2 ^ 53)"
    using lt assms r by (intro add_left_mono mult_mono) (simp_all add: u_def power4_eq_xxxx)
  finally show ?thesis by (simp add: refill_def Let_def duration_since_def r_def flip: d_def)
qed

text \<open>A full bucket stays full, and a refill adds at least half of what the time earned.\<close>

lemma refill_full:
  assumes "tokens q = 2 ^ 20"
  shows "tokens (refill now q) = 2 ^ 20"
proof -
  have "2 powi 20 \<le> f64_round (2 ^ 20 + f64_round (as_secs_f64 (duration_since now (last_refill q)) * 2 ^ 20))"
    by (rule f64_round_ge_powi) (simp add: f64_round_nonneg)
  then show ?thesis using assms by (simp add: refill_def Let_def min_def)
qed

lemma refill_lower:
  assumes "0 \<le> tokens q"
  shows "min (2 ^ 20) (2 ^ 20 * of_nat (now - last_refill q) / 1000000000 / 2) \<le> tokens (refill now q)"
proof -
  define d where "d = now - last_refill q"
  define l :: rat where "l = 1 - 1 / 2 ^ 53"
  define r :: rat where "r = of_nat d / 1000000000"
  have l: "0 \<le> l" and r: "0 \<le> r" by (simp_all add: l_def r_def)
  have down: "y * l \<le> f64_round x" if "0 \<le> y" "y \<le> x" for x y
    using f64_round_rel(2) [of x] mult_right_mono [of y x l] that l by (simp add: l_def)
  have "(of_nat d :: rat) = of_nat (d div 1000000000 * 1000000000 + d mod 1000000000)" by simp
  then have "r = of_nat (d div 1000000000) + of_nat (d mod 1000000000) / 1000000000"
    unfolding r_def of_nat_add of_nat_mult by simp
  then have "r * l \<le> f64_round (of_nat (d div 1000000000)) + f64_round (of_nat (d mod 1000000000) / 1000000000)"
    using down [of "of_nat (d div 1000000000)" "of_nat (d div 1000000000)"]
      down [of "of_nat (d mod 1000000000) / 1000000000" "of_nat (d mod 1000000000) / 1000000000"]
    by (simp add: distrib_right)
  then have "r * l * l \<le> as_secs_f64 d" unfolding as_secs_f64_def using l r by (intro down) simp_all
  then have "(2 ^ 20 * r * l * l) * l \<le> f64_round (as_secs_f64 d * 2 ^ 20)" using l r by (intro down) (simp_all add: mult_ac)
  then have "(2 ^ 20 * r * l * l * l) * l \<le> f64_round (tokens q + f64_round (as_secs_f64 d * 2 ^ 20))"
    using assms l r by (intro down) simp_all
  moreover have "2 ^ 20 * r * (1 / 2) \<le> 2 ^ 20 * r * (l * l * l * l)"
    using r by (intro mult_left_mono) (simp_all add: l_def)
  ultimately show ?thesis
    by (simp add: refill_def Let_def duration_since_def r_def mult_ac flip: d_def)
qed

lemma consume_potential:
  assumes "quota_inv q"
  shows "(case snd (try_consume now b q) of Inr _ \<Rightarrow> of_nat (unat b) | Inl _ \<Rightarrow> 0) +
      tokens (fst (try_consume now b q)) \<le>
    tokens q + 2 ^ 20 * of_nat (now - last_refill q) / 1000000000 + 6 / 2 ^ 33"
  using assms
proof (cases rule: try_consume_cases [of q now b])
  case grant
  have "tokens (refill now q) - of_nat (unat b) \<le> 2 ^ 20"
    using refill_bounds(2) [of now q] by (simp add: add_increasing2 diff_le_eq)
  then have "f64_round (tokens (refill now q) - of_nat (unat b)) \<le>
      tokens (refill now q) - of_nat (unat b) + 1 / 2 ^ 33"
    using f64_round_rel(1) [of "tokens (refill now q) - of_nat (unat b)"] grant(2) by (simp add: algebra_simps)
  with grant refill_upper [of q now] assms show ?thesis by (simp add: quota_inv_def)
next
  case (denied err)
  with refill_upper [of q now] assms show ?thesis by (simp add: quota_inv_def)
qed

lemma try_consume_last_refill [simp]: "last_refill (fst (try_consume now b q)) = now"
  by (simp add: try_consume_def Let_def)

lemma try_consume_inv: "quota_inv q \<Longrightarrow> quota_inv (fst (try_consume now b q))"
  using quota.step_inv [of q "(now, b)"] by (simp add: quota_step_def)

lemma granted_Cons:
  "granted q ((now, b) # es) =
     (case snd (try_consume now b q) of Inr _ \<Rightarrow> unat b | Inl _ \<Rightarrow> 0) + granted (fst (try_consume now b q)) es"
  by (simp split: prod.split sum.split)

text \<open>
  The token bucket limits the rate: whatever is asked of it and whenever, the bytes
  granted up to an instant are at most the tokens at the start plus one MiB for each second
  elapsed, and the rounding of \<open>f64\<close> adds less than \<open>6 / 2^33\<close> of a byte per attempt.
\<close>
theorem relay_bandwidth_bound:
  assumes "quota_inv q"
    and "sorted (last_refill q # map fst es)"
  shows "of_nat (granted q es) \<le> tokens q +
    2 ^ 20 * of_nat (last (last_refill q # map fst es) - last_refill q) / 1000000000 +
    of_nat (length es) * (6 / 2 ^ 33)"
  using assms
proof (induction es arbitrary: q)
  case (Cons e es)
  obtain now b where e: "e = (now, b)" by fastforce
  let ?q = "fst (try_consume now b q)" and ?fin = "last (now # map fst es)"
  from Cons.prems have order: "last_refill q \<le> now" "now \<le> ?fin"
    by (auto simp: e last_map)
  from Cons.IH [of ?q] Cons.prems
  have "of_nat (granted ?q es) \<le> tokens ?q + 2 ^ 20 * of_nat (?fin - now) / 1000000000 +
      of_nat (length es) * (6 / 2 ^ 33)"
    by (simp add: e try_consume_inv)
  moreover have "(of_nat (?fin - last_refill q) :: rat) = of_nat (?fin - now) + of_nat (now - last_refill q)"
    using order by (simp flip: of_nat_add)
  moreover have "(case r of Inr _ \<Rightarrow> of_nat k | Inl _ \<Rightarrow> 0) = (of_nat (case r of Inr _ \<Rightarrow> k | Inl _ \<Rightarrow> 0) :: rat)"
    for r :: "unit result" and k by (simp split: sum.split)
  ultimately show ?case
    using consume_potential [OF Cons.prems(1), where now = now and b = b]
    unfolding e granted_Cons by (simp add: distrib_right add_divide_distrib distrib_left)
qed (simp add: quota_inv_def)

text \<open>
  The daily quota: in one window of 24 hours the bytes granted, with those already
  used in it, never exceed one GiB.
\<close>
theorem relay_daily_bound:
  assumes "quota_inv q"
    and "\<forall>e\<in>set es. fst e < day_window_start q + from_secs 86400"
  shows "unat (day_used q) + granted q es \<le> 2 ^ 30"
  using assms
proof (induction es arbitrary: q)
  case (Cons e es)
  obtain now b where e: "e = (now, b)" by fastforce
  from Cons.prems have nr: "\<not> from_secs 86400 \<le> now - day_window_start q"
    by (auto simp: e from_secs_def)
  from Cons.prems(1) show ?case
  proof (cases rule: try_consume_cases [of q now b])
    case grant
    with Cons.IH [of "fst (try_consume now b q)"] Cons.prems nr show ?thesis
      using try_consume_inv [of q now b] by (simp add: e)
  next
    case (denied err)
    with Cons.IH [of "fst (try_consume now b q)"] Cons.prems nr show ?thesis
      using try_consume_inv [of q now b] by (simp add: e)
  qed
qed (simp add: quota_inv_def)

section \<open>A full second of use\<close>

lemma as_secs_f64_from_secs: "s < 2 ^ 53 \<Longrightarrow> as_secs_f64 (from_secs s) = of_nat s"
  by (simp add: as_secs_f64_def from_secs_def f64_round_of_nat)

text \<open>With whole seconds and whole tokens the refill is exact.\<close>

lemma refill_exact:
  assumes "tokens q = of_nat k" and "k \<le> 2 ^ 20"
    and "duration_since now (last_refill q) = from_secs s" and "s < 2 ^ 32"
  shows "tokens (refill now q) = min (of_nat (k + s * 2 ^ 20)) (2 ^ 20)"
proof -
  have s: "s * 2 ^ 20 < 2 ^ 53" and k: "k + s * 2 ^ 20 < 2 ^ 53" using assms(2,4) by simp_all
  have "as_secs_f64 (from_secs s) * 2 ^ 20 = (of_nat (s * 2 ^ 20) :: rat)"
    using assms(4) by (simp add: as_secs_f64_from_secs)
  then have "f64_round (as_secs_f64 (from_secs s) * 2 ^ 20) = of_nat (s * 2 ^ 20)"
    using f64_round_of_nat [OF s] by simp
  then have "tokens q + f64_round (as_secs_f64 (from_secs s) * 2 ^ 20) = of_nat (k + s * 2 ^ 20)"
    using assms(1) by simp
  then show ?thesis using f64_round_of_nat [OF k] assms(3) by (simp add: refill_def Let_def)
qed

definition mib_per_second :: "nat \<Rightarrow> nat \<Rightarrow> (instant \<times> u64) list" where
  "mib_per_second s n = map (\<lambda>i. (from_secs i, 2 ^ 20)) [s..<s + n]"

lemma mib_per_second_Suc: "mib_per_second s (Suc n) = (from_secs s, 2 ^ 20) # mib_per_second (Suc s) n"
  using upt_conv_Cons [of s "s + Suc n"] by (simp add: mib_per_second_def del: upt_Suc)

lemma mib_per_second_add:
  "mib_per_second s (n + m) = mib_per_second s n @ mib_per_second (s + n) m"
  using upt_add_eq_append [of s "s + n" m] by (simp add: mib_per_second_def add.assoc)

lemma consume_full:
  assumes "tokens (refill now q) = 2 ^ 20" and "unat (day_used (reset_day now q)) + 2 ^ 20 \<le> 2 ^ 30"
  shows "try_consume now (2 ^ 20) q =
    ((reset_day now (refill now q))\<lparr>tokens := 0, day_used := day_used (reset_day now q) + 2 ^ 20\<rparr>, Inr ())"
    and "unat (day_used (reset_day now q) + 2 ^ 20) = unat (day_used (reset_day now q)) + 2 ^ 20"
proof -
  let ?u = "day_used (reset_day now q)"
  have f: "u64_as_f64 (2 ^ 20) = 2 ^ 20" by (simp add: u64_as_f64_small)
  have "unat ?u + unat (2 ^ 20 :: u64) < 2 ^ LENGTH(64)" using assms(2) by simp
  then have "unat (?u + 2 ^ 20) = unat ?u + unat (2 ^ 20 :: u64)" by (rule unat_add_lem [THEN iffD1])
  then show sum: "unat (?u + 2 ^ 20) = unat ?u + 2 ^ 20" by simp
  with assms(2) have "\<not> BYTES_PER_DAY < ?u + 2 ^ 20" unfolding word_less_nat_alt unat_day by simp
  with assms(1) f show "try_consume now (2 ^ 20) q =
    ((reset_day now (refill now q))\<lparr>tokens := 0, day_used := ?u + 2 ^ 20\<rparr>, Inr ())"
    by (simp add: try_consume_def Let_def split: if_splits)
qed

lemma granted_append: "granted q (es @ fs) = granted q es + granted (foldl quota_step q es) fs"
proof (induction es arbitrary: q)
  case (Cons e es)
  then show ?case by (cases e) (simp add: quota_step_def granted_Cons del: granted.simps(2))
qed simp

lemma mib_run:
  assumes "tokens (refill (from_secs s) q) = 2 ^ 20"
    and "unat (day_used (reset_day (from_secs s) q)) + n * 2 ^ 20 \<le> 2 ^ 30"
    and "from_secs (s + n) \<le> day_window_start (reset_day (from_secs s) q) + from_secs 86400"
  shows "granted q (mib_per_second s n) = n * 2 ^ 20 \<and>
    tokens (refill (from_secs (s + n)) (foldl quota_step q (mib_per_second s n))) = 2 ^ 20 \<and>
    (n \<noteq> 0 \<longrightarrow> day_window_start (foldl quota_step q (mib_per_second s n)) =
       day_window_start (reset_day (from_secs s) q))"
  using assms
proof (induction n arbitrary: s q)
  case (Suc n)
  note step = consume_full [OF Suc.prems(1)]
  let ?q = "fst (try_consume (from_secs s) (2 ^ 20) q)"
  let ?w = "day_window_start (reset_day (from_secs s) q)"
  have room: "unat (day_used (reset_day (from_secs s) q)) + 2 ^ 20 \<le> 2 ^ 30" using Suc.prems(2) by simp
  have q: "tokens ?q = of_nat 0" "last_refill ?q = from_secs s" "day_window_start ?q = ?w"
    "unat (day_used ?q) = unat (day_used (reset_day (from_secs s) q)) + 2 ^ 20"
    using step [OF room] by simp_all
  have full: "tokens (refill (from_secs (Suc s)) ?q) = 2 ^ 20"
    using refill_exact [of ?q 0 "from_secs (Suc s)" 1] q by (simp add: duration_since_def from_secs_def)
  show ?case
  proof (cases n)
    case 0
    with step(1) [OF room] full q(3) show ?thesis
      by (simp add: mib_per_second_def quota_step_def)
  next
    case (Suc m)
    then have "\<not> from_secs 86400 \<le> from_secs (Suc s) - ?w"
      using Suc.prems(3) by (simp add: from_secs_def)
    with Suc.IH [of "Suc s" ?q] full q Suc.prems(2,3) step(1) [OF room] Suc show ?thesis
      by (simp add: mib_per_second_Suc quota_step_def granted_Cons del: granted.simps(2))
  qed
qed (simp add: mib_per_second_def)

text \<open>
  The daily window tumbles, it does not roll: a quota first used at second 0 grants one
  MiB in each of 2048 consecutive seconds around the end of its window, two GiB in less than
  35 minutes.
\<close>
theorem daily_window_tumbles:
  "granted (quota_new 0 0) (mib_per_second 85376 2048) = 2 * unat BYTES_PER_DAY"
proof -
  let ?q = "quota_new 0 0" and ?a = "mib_per_second 85376 1024"
  have split: "mib_per_second 85376 2048 = ?a @ mib_per_second 86400 1024"
    using mib_per_second_add [of 85376 1024 1024] by simp
  have "tokens (refill (from_secs 85376) ?q) = min (of_nat (2 ^ 20 + 85376 * 2 ^ 20)) (2 ^ 20)"
    by (rule refill_exact) (simp_all add: quota_new_def duration_since_def)
  then have full: "tokens (refill (from_secs 85376) ?q) = 2 ^ 20" by simp
  from mib_run [OF full, of 1024]
  have first: "granted ?q ?a = 1024 * 2 ^ 20"
    "tokens (refill (from_secs 86400) (foldl quota_step ?q ?a)) = 2 ^ 20"
    "day_window_start (foldl quota_step ?q ?a) = 0"
    by (simp_all add: quota_new_def from_secs_def)
  from mib_run [OF first(2), of 1024] first(3)
  have "granted (foldl quota_step ?q ?a) (mib_per_second 86400 1024) = 1024 * 2 ^ 20"
    by (simp add: from_secs_def)
  with first(1) show ?thesis by (simp add: split granted_append)
qed

text \<open>
  The quota stays in range for every byte count a \<open>u64\<close> can hold and at every
  instant: the bucket holds between zero and one MiB of tokens and at most one GiB is booked,
  so that neither addition to \<open>day_used\<close> that is kept has wrapped.
\<close>
theorem quota_in_range:
  "quota_inv (foldl quota_step (quota_new t1 t2) attempts)"
  by (rule quota.foldl_inv) (simp_all add: quota_inv_def quota_new_def)

text \<open>
  Every branch of a charge: past the day's allowance it is refused with
  \<open>relay_quota_exceeded\<close>, past the bucket with \<open>rate_limited\<close>, a refusal books nothing, and a
  grant books exactly the bytes asked for.
\<close>
theorem try_consume_outcomes:
  assumes "quota_inv q" and "unat b < 2 ^ 53"
  shows "let d = reset_day now q; t = tokens (refill now q); (q', r) = try_consume now b q in
    r = (if 2 ^ 30 < unat (day_used d) + unat b then Inl RelayQuotaExceeded
         else if t < of_nat (unat b) then Inl RateLimited else Inr ()) \<and>
    unat (day_used q') = unat (day_used d) + (if r = Inr () then unat b else 0) \<and>
    (r \<noteq> Inr () \<longrightarrow> tokens q' = t) \<and> day_window_start q' = day_window_start d"
proof -
  let ?u = "day_used (reset_day now q)"
  have "unat ?u + unat b < 2 ^ LENGTH(64)" using assms by (simp add: quota_inv_def)
  then have sum: "unat (?u + b) = unat ?u + unat b" by (rule unat_add_lem [THEN iffD1])
  then have "BYTES_PER_DAY < ?u + b \<longleftrightarrow> 2 ^ 30 < unat ?u + unat b"
    by (simp add: word_less_nat_alt BYTES_PER_DAY_def)
  moreover have "day_used (reset_day now (refill now q)) = ?u" by simp
  ultimately show ?thesis using sum u64_as_f64_small [OF assms(2)]
    by (simp add: try_consume_def Let_def del: reset_day_fields(3))
qed

definition demo_quota :: peer_quota where
  "demo_quota = quota_new 0 0"

lemma demo_quota_inv: "quota_inv demo_quota"
  by (simp add: quota_inv_def quota_new_def demo_quota_def)

theorem try_consume_outcomes_witness:
  "quota_inv demo_quota \<and> snd (try_consume 0 1048577 demo_quota) = Inl RateLimited"
proof -
  have "tokens (refill 0 demo_quota) = 2 ^ 20"
    using refill_exact [of demo_quota "2 ^ 20" 0 0]
    by (simp add: demo_quota_def quota_new_def duration_since_def from_secs_def)
  with try_consume_outcomes [OF demo_quota_inv, of 1048577 0] demo_quota_inv show ?thesis
    by (simp add: Let_def split_beta demo_quota_def quota_new_def)
qed

theorem relay_bandwidth_bound_witness:
  "sorted (last_refill demo_quota # map fst (mib_per_second 0 3)) \<and>
   granted demo_quota (mib_per_second 0 3) \<le> 3 * 2 ^ 20 + 1"
proof -
  let ?es = "mib_per_second 0 3"
  have times: "map fst ?es = [0, 1000000000, 2000000000]" "length ?es = 3"
    by (simp_all add: mib_per_second_def from_secs_def upt_rec)
  have "last_refill demo_quota = 0" "tokens demo_quota = 2 ^ 20"
    by (simp_all add: demo_quota_def quota_new_def)
  with times relay_bandwidth_bound [OF demo_quota_inv, of ?es]
  have "(of_nat (granted demo_quota ?es) :: rat) \<le> of_nat (3 * 2 ^ 20 + 1)" by simp
  then have "granted demo_quota ?es \<le> 3 * 2 ^ 20 + 1" by (simp only: of_nat_le_iff)
  with times \<open>last_refill demo_quota = 0\<close> show ?thesis by simp
qed

theorem relay_daily_bound_witness:
  "list_all (\<lambda>e. fst e < day_window_start demo_quota + from_secs 86400) (mib_per_second 0 2000) \<and>
   granted demo_quota (mib_per_second 0 2000) \<le> 2 ^ 30"
proof -
  have "\<forall>e\<in>set (mib_per_second 0 2000). fst e < day_window_start demo_quota + from_secs 86400"
    by (auto simp: mib_per_second_def from_secs_def demo_quota_def quota_new_def)
  with relay_daily_bound [OF demo_quota_inv this] show ?thesis by (simp add: list_all_iff)
qed

end
