(* ===== verification/Relay_Manager.thy ===== *)
theory Relay_Manager
  imports Registry Quota
begin

text \<open>
  \<open>RelayManager\<close> of \<open>src/relay.rs\<close>: the sessions of the fallback relay and the quotas of its
  users. An operation takes the manager and the channels and returns its result with both
  updated. A fresh session id (\<open>Uuid::new_v4\<close>) and the readings of the monotonic clock are
  arguments: the two that \<open>PeerQuota::new\<close> takes and the one of \<open>try_consume\<close>.
\<close>

datatype session_state = Pending | Active

text \<open>A session goes from pending to active and never back: the order of its states.\<close>

instantiation session_state :: linorder
begin

definition less_eq_session_state :: "session_state \<Rightarrow> session_state \<Rightarrow> bool" where
  "less_eq_session_state a b \<longleftrightarrow> a = Pending \<or> b = Active"

definition less_session_state :: "session_state \<Rightarrow> session_state \<Rightarrow> bool" where
  "less_session_state a b \<longleftrightarrow> a = Pending \<and> b = Active"

instance
proof
  fix a b c :: session_state
  show "a < b \<longleftrightarrow> a \<le> b \<and> \<not> b \<le> a" by (cases a; cases b) (simp_all add: less_eq_session_state_def less_session_state_def)
  show "a \<le> a" by (cases a) (simp_all add: less_eq_session_state_def)
  show "a \<le> c" if "a \<le> b" "b \<le> c" using that by (cases b) (auto simp: less_eq_session_state_def)
  show "a = b" if "a \<le> b" "b \<le> a" using that by (auto simp: less_eq_session_state_def)
  show "a \<le> b \<or> b \<le> a" by (cases a) (auto simp: less_eq_session_state_def)
qed

end

lemma session_state_bounds [simp]: "Pending \<le> st" "st \<le> Active"
  by (simp_all add: less_eq_session_state_def)

record session =
  initiator :: string
  responder :: string
  sess_state :: session_state

record relay_manager =
  sessions :: "(uuid, session) dashmap"
  quotas :: "(string, peer_quota) dashmap"

type_synonym relay_state = "relay_manager \<times> channels"
type_synonym clock3 = "instant \<times> instant \<times> instant"

definition relay_new :: relay_manager where
  "relay_new = \<lparr>sessions = dm_empty, quotas = dm_empty\<rparr>"

definition request :: "crates \<Rightarrow> peer_registry \<Rightarrow> uuid \<Rightarrow> string \<Rightarrow> string \<Rightarrow> relay_state
    \<Rightarrow> uuid result \<times> relay_state" where
  "request cr reg new_id init resp st =
     (let (rm, cs) = st in
      case ok_or PeerOffline (reg_get reg resp) of
        Inl e \<Rightarrow> (Inl e, rm, cs)
      | Inr recipient \<Rightarrow>
          let rm' = rm\<lparr>sessions := dm_insert new_id
                \<lparr>initiator = init, responder = resp, sess_state = Pending\<rparr> (sessions rm)\<rparr>
          in (case try_send (ph_tx recipient) (RelayOffer (uuid_text cr new_id) init) cs of
                (Inl e, cs') \<Rightarrow> (Inl e, rm', cs')
              | (Inr _, cs') \<Rightarrow> (Inr new_id, rm', cs')))"

definition announce_session :: "crates \<Rightarrow> peer_registry \<Rightarrow> uuid \<Rightarrow> string \<Rightarrow> string \<Rightarrow> channels
    \<Rightarrow> unit result \<times> channels" where
  "announce_session cr reg sid init resp cs =
     (case ok_or PeerOffline (reg_get reg init) of
        Inl e \<Rightarrow> (Inl e, cs)
      | Inr init_peer \<Rightarrow>
     (case ok_or PeerOffline (reg_get reg resp) of
        Inl e \<Rightarrow> (Inl e, cs)
      | Inr resp_peer \<Rightarrow>
     (case try_send (ph_tx init_peer) (RelaySessionEstablished (uuid_text cr sid) resp None) cs of
        (Inl e, cs') \<Rightarrow> (Inl e, cs')
      | (Inr _, cs') \<Rightarrow>
          try_send (ph_tx resp_peer) (RelaySessionEstablished (uuid_text cr sid) init None) cs')))"

definition accept :: "crates \<Rightarrow> peer_registry \<Rightarrow> string \<Rightarrow> uuid \<Rightarrow> relay_state
    \<Rightarrow> unit result \<times> relay_state" where
  "accept cr reg resp sid st =
     (let (rm, cs) = st in
      case ok_or RelaySessionNotFound (dm_get (sessions rm) sid) of
        Inl e \<Rightarrow> (Inl e, rm, cs)
      | Inr sess \<Rightarrow>
          if responder sess \<noteq> resp then (Inl RelayNotConsented, rm, cs)
          else if sess_state sess \<noteq> Pending then (Inl RelayNotConsented, rm, cs)
          else
            let rm' = rm\<lparr>sessions := dm_insert sid (sess\<lparr>sess_state := Active\<rparr>) (sessions rm)\<rparr>
            in (case announce_session cr reg sid (initiator sess) resp cs of
                  (r, cs') \<Rightarrow> (r, rm', cs')))"

definition consume_quota :: "clock3 \<Rightarrow> string \<Rightarrow> u64 \<Rightarrow> relay_manager \<Rightarrow> unit result \<times> relay_manager" where
  "consume_quota ts pubkey bytes rm =
     (let (t1, t2, now) = ts;
          q = (case dm_get (quotas rm) pubkey of Some q \<Rightarrow> q | None \<Rightarrow> quota_new t1 t2);
          (q', outcome) = try_consume now bytes q
      in (outcome, rm\<lparr>quotas := dm_insert pubkey q' (quotas rm)\<rparr>))"

definition other_party :: "session \<Rightarrow> string \<Rightarrow> string option" where
  "other_party s sender =
     (if initiator s = sender then Some (responder s)
      else if responder s = sender then Some (initiator s) else None)"

definition forward :: "crates \<Rightarrow> peer_registry \<Rightarrow> clock3 \<Rightarrow> string \<Rightarrow> uuid \<Rightarrow> string \<Rightarrow> relay_state
    \<Rightarrow> u64 result \<times> relay_state" where
  "forward cr reg ts sender sid data st =
     (let (rm, cs) = st in
      case ok_or RelaySessionNotFound (dm_get (sessions rm) sid) of
        Inl e \<Rightarrow> (Inl e, rm, cs)
      | Inr sess \<Rightarrow>
      if sess_state sess \<noteq> Active then (Inl RelayNotConsented, rm, cs)
      else
     (case ok_or RelayNotConsented (other_party sess sender) of
        Inl e \<Rightarrow> (Inl e, rm, cs)
      | Inr other \<Rightarrow>
     (case map_err (\<lambda>e. Malformed (''relay base64: '' @ e)) (b64_decode cr data) of
        Inl e \<Rightarrow> (Inl e, rm, cs)
      | Inr v \<Rightarrow>
      if RELAY_MAX_FRAME < length v then (Inl (PayloadTooLarge (length v) RELAY_MAX_FRAME), rm, cs)
      else
     (case consume_quota ts sender (of_nat (length v)) rm of
        (Inl e, rm') \<Rightarrow> (Inl e, rm', cs)
      | (Inr _, rm') \<Rightarrow>
     (case ok_or PeerOffline (reg_get reg other) of
        Inl e \<Rightarrow> (Inl e, rm', cs)
      | Inr recipient \<Rightarrow>
     (case try_send (ph_tx recipient) (RelayData (uuid_text cr sid) sender data) cs of
        (Inl e, cs') \<Rightarrow> (Inl e, rm', cs')
      | (Inr _, cs') \<Rightarrow> (Inr (of_nat (length v)), rm', cs')))))))"

definition drop_sessions_for :: "string \<Rightarrow> relay_manager \<Rightarrow> relay_manager" where
  "drop_sessions_for pubkey rm =
     (let stale = map fst (filter (\<lambda>(k, s). initiator s = pubkey \<or> responder s = pubkey) (sessions rm))
      in rm\<lparr>sessions := fold dm_remove stale (sessions rm)\<rparr>)"

definition parse_session_id :: "crates \<Rightarrow> string \<Rightarrow> uuid result" where
  "parse_session_id cr s = map_err (\<lambda>e. Malformed (''session_id: '' @ e)) (uuid_parse cr s)"

section \<open>The relay as a machine\<close>

text \<open>The operations of the manager, each with the registry it runs against.\<close>

datatype relay_op =
    Request peer_registry uuid string string
  | Accept peer_registry string uuid
  | Forward peer_registry clock3 string uuid string
  | DropFor string

fun relay_step :: "crates \<Rightarrow> relay_state \<Rightarrow> relay_op \<Rightarrow> relay_state" where
  "relay_step cr st (Request reg new_id i p) = snd (request cr reg new_id i p st)"
| "relay_step cr st (Accept reg p sid) = snd (accept cr reg p sid st)"
| "relay_step cr st (Forward reg ts s sid data) = snd (forward cr reg ts s sid data st)"
| "relay_step cr st (DropFor pk) = (drop_sessions_for pk (fst st), snd st)"

definition relay_inv :: "relay_state \<Rightarrow> bool" where
  "relay_inv st \<longleftrightarrow> dm_wf (sessions (fst st)) \<and> (\<forall>pk q. dm_get (quotas (fst st)) pk = Some q \<longrightarrow> quota_inv q)"

definition session_of :: "relay_state \<Rightarrow> uuid \<Rightarrow> session option" where
  "session_of st sid = dm_get (sessions (fst st)) sid"

definition quota_of :: "relay_state \<Rightarrow> string \<Rightarrow> peer_quota option" where
  "quota_of st pk = dm_get (quotas (fst st)) pk"

section \<open>What each operation does to the sessions and quotas\<close>

lemmas relay_defs = Let_def session_of_def quota_of_def relay_inv_def

lemma session_request:
  "session_of (snd (request cr reg new_id i p st)) k =
     (if reg_is_online reg p \<and> k = new_id then Some \<lparr>initiator = i, responder = p, sess_state = Pending\<rparr>
      else session_of st k)"
  "quotas (fst (snd (request cr reg new_id i p st))) = quotas (fst st)"
  "dm_wf (sessions (fst st)) \<Longrightarrow> dm_wf (sessions (fst (snd (request cr reg new_id i p st))))"
  by (auto simp: request_def relay_defs reg_is_online_iff split: prod.split sum.split option.splits)

lemma session_accept:
  "session_of (snd (accept cr reg p sid st)) k =
     (case session_of st sid of
        Some s \<Rightarrow> if k = sid \<and> responder s = p \<and> sess_state s = Pending
                  then Some (s\<lparr>sess_state := Active\<rparr>) else session_of st k
      | None \<Rightarrow> session_of st k)"
  "quotas (fst (snd (accept cr reg p sid st))) = quotas (fst st)"
  "dm_wf (sessions (fst st)) \<Longrightarrow> dm_wf (sessions (fst (snd (accept cr reg p sid st))))"
  by (auto simp: accept_def relay_defs split: prod.split sum.split option.splits)

lemma consume_quota_fields [simp]: "sessions (snd (consume_quota ts pk b rm)) = sessions rm"
  by (simp add: consume_quota_def Let_def split: prod.split)

text \<open>A forward is an admission check, then the charge, then the delivery.\<close>

definition admit :: "crates \<Rightarrow> relay_manager \<Rightarrow> string \<Rightarrow> uuid \<Rightarrow> string \<Rightarrow> (string \<times> nat) result" where
  "admit cr rm sender sid data =
     rbind (ok_or RelaySessionNotFound (dm_get (sessions rm) sid)) (\<lambda>sess.
     if sess_state sess \<noteq> Active then Inl RelayNotConsented
     else rbind (ok_or RelayNotConsented (other_party sess sender)) (\<lambda>other.
     rbind (map_err (\<lambda>e. Malformed (''relay base64: '' @ e)) (b64_decode cr data)) (\<lambda>v.
     if RELAY_MAX_FRAME < length v then Inl (PayloadTooLarge (length v) RELAY_MAX_FRAME)
     else Inr (other, length v))))"

definition deliver :: "crates \<Rightarrow> peer_registry \<Rightarrow> string \<Rightarrow> string \<Rightarrow> uuid \<Rightarrow> string \<Rightarrow> channels \<Rightarrow> unit result \<times> channels" where
  "deliver cr reg other sender sid data cs =
     (case reg_get reg other of
        None \<Rightarrow> (Inl PeerOffline, cs)
      | Some p \<Rightarrow> try_send (ph_tx p) (RelayData (uuid_text cr sid) sender data) cs)"

lemma forward_eq:
  "forward cr reg ts sender sid data (rm, cs) =
     (case admit cr rm sender sid data of
        Inl e \<Rightarrow> (Inl e, rm, cs)
      | Inr (other, n) \<Rightarrow>
          let (r, rm') = consume_quota ts sender (of_nat n) rm
          in case r of
               Inl e \<Rightarrow> (Inl e, rm', cs)
             | Inr _ \<Rightarrow>
                 (let (d, cs') = deliver cr reg other sender sid data cs
                  in (rbind d (\<lambda>_. Inr (of_nat n)), rm', cs')))"
proof (cases "dm_get (sessions rm) sid")
  case (Some sess)
  show ?thesis
  proof (cases "sess_state sess = Active")
    case True
    show ?thesis
    proof (cases "other_party sess sender")
      case other: (Some other)
      show ?thesis
      proof (cases "b64_decode cr data")
        case (Inr v)
        with Some True other show ?thesis
          by (simp add: forward_def admit_def deliver_def split: prod.split sum.split option.split)
      qed (simp add: forward_def admit_def Some True other)
    qed (simp add: forward_def admit_def Some True)
  qed (simp add: forward_def admit_def Some)
qed (simp add: forward_def admit_def)

lemma forward_simps:
  "fst (forward cr reg ts sender sid data (rm, cs)) =
     rbind (admit cr rm sender sid data) (\<lambda>(other, n).
     rbind (fst (consume_quota ts sender (of_nat n) rm)) (\<lambda>_.
     rbind (fst (deliver cr reg other sender sid data cs)) (\<lambda>_. Inr (of_nat n))))"
  "fst (snd (forward cr reg ts sender sid data (rm, cs))) =
     (case admit cr rm sender sid data of
        Inl e \<Rightarrow> rm | Inr (other, n) \<Rightarrow> snd (consume_quota ts sender (of_nat n) rm))"
  "snd (snd (forward cr reg ts sender sid data (rm, cs))) =
     (case admit cr rm sender sid data of
        Inl e \<Rightarrow> cs
      | Inr (other, n) \<Rightarrow>
          (case fst (consume_quota ts sender (of_nat n) rm) of
             Inl e \<Rightarrow> cs | Inr _ \<Rightarrow> snd (deliver cr reg other sender sid data cs)))"
  by (simp_all add: forward_eq split_beta Let_def split: sum.split)

lemma session_forward [simp]: "sessions (fst (snd (forward cr reg ts s sid data st))) = sessions (fst st)"
  by (cases st) (auto simp: forward_simps split: sum.split)

lemma session_drop:
  assumes "dm_wf (sessions rm)"
  shows "dm_get (sessions (drop_sessions_for pk rm)) k =
     (case dm_get (sessions rm) k of
        Some s \<Rightarrow> if initiator s = pk \<or> responder s = pk then None else Some s
      | None \<Rightarrow> None)"
    and "quotas (drop_sessions_for pk rm) = quotas rm"
    and "dm_wf (sessions (drop_sessions_for pk rm))"
proof -
  have "k \<in> fst ` set (filter (\<lambda>(k, s). initiator s = pk \<or> responder s = pk) (sessions rm)) \<longleftrightarrow>
      (\<exists>s. dm_get (sessions rm) k = Some s \<and> (initiator s = pk \<or> responder s = pk))"
    using assms by (force simp: dm_get_def dm_wf_def image_iff dest: map_of_SomeD intro: map_of_is_SomeI)
  then show "dm_get (sessions (drop_sessions_for pk rm)) k =
     (case dm_get (sessions rm) k of
        Some s \<Rightarrow> if initiator s = pk \<or> responder s = pk then None else Some s
      | None \<Rightarrow> None)"
    by (auto simp: drop_sessions_for_def split: option.split)
qed (use assms in \<open>simp_all add: drop_sessions_for_def\<close>)

lemma quota_consume:
  "quotas (snd (consume_quota ts pk b rm)) = dm_insert pk
     (quota_step (case dm_get (quotas rm) pk of Some q \<Rightarrow> q | None \<Rightarrow> quota_new (fst ts) (fst (snd ts))) (snd (snd ts), b)) (quotas rm)"
  by (cases ts) (simp add: consume_quota_def Let_def quota_step_def split_beta split: option.split)

lemma quota_new_inv [simp]: "quota_inv (quota_new t1 t2)"
  by (simp add: quota_inv_def quota_new_def)

lemma quota_inv_consume:
  assumes "\<forall>pk q. dm_get (quotas rm) pk = Some q \<longrightarrow> quota_inv q"
  shows "\<forall>pk q. dm_get (quotas (snd (consume_quota ts s b rm))) pk = Some q \<longrightarrow> quota_inv q"
  using assms by (auto simp: quota_consume quota.step_inv split: option.splits)

interpretation relay: event_machine "relay_step cr" "\<lambda>_ _. True" relay_inv for cr
proof
  fix st :: relay_state and e
  assume inv: "relay_inv st"
  obtain rm cs where st: "st = (rm, cs)" by fastforce
  show "relay_inv (relay_step cr st e)"
  proof (cases e)
    case (Forward reg ts s sid data)
    then show ?thesis
      using inv quota_inv_consume [of rm ts s]
      by (simp add: relay_inv_def st) (auto simp: forward_simps split: sum.split)
  qed (use inv in \<open>auto simp: relay_inv_def session_request session_accept session_drop\<close>)
qed

section \<open>Consent\<close>

lemma relay_run_inv: "relay_inv (foldl (relay_step cr) (relay_new, cs0) ops)"
  by (rule relay.foldl_inv) (simp_all add: relay_inv_def relay_new_def)

text \<open>What the log of operations holds about a session that exists.\<close>

definition session_justified :: "relay_op list \<Rightarrow> uuid \<Rightarrow> session \<Rightarrow> bool" where
  "session_justified ops sid s \<longleftrightarrow>
     (\<exists>pre reg post. ops = pre @ Request reg sid (initiator s) (responder s) # post \<and>
        (sess_state s = Active \<longrightarrow> (\<exists>mid reg' rest. post = mid @ Accept reg' (responder s) sid # rest)))"

lemma session_justified_snoc: "session_justified ops sid s \<Longrightarrow> session_justified (ops @ [e]) sid s"
  unfolding session_justified_def by fastforce

lemma justified_new:
  "session_justified (ops @ [Request reg sid i p]) sid \<lparr>initiator = i, responder = p, sess_state = Pending\<rparr>"
  unfolding session_justified_def by fastforce

lemma justified_accept:
  assumes "session_justified ops sid s" and "responder s = p"
  shows "session_justified (ops @ [Accept reg p sid]) sid (s\<lparr>sess_state := Active\<rparr>)"
proof -
  from assms(1) obtain pre reg' post where "ops = pre @ Request reg' sid (initiator s) (responder s) # post"
    unfolding session_justified_def by blast
  then have "ops @ [Accept reg p sid] = pre @ Request reg' sid (initiator s) (responder s) # (post @ [Accept reg p sid])"
    by simp
  moreover have "post @ [Accept reg p sid] = post @ Accept reg (responder s) sid # []"
    using assms(2) by simp
  ultimately show ?thesis unfolding session_justified_def
    by (metis session.update_convs(3) session.select_convs(1,2) session.surjective)
qed

lemma sessions_justified:
  "session_of (foldl (relay_step cr) (relay_new, cs0) ops) sid = Some s \<Longrightarrow> session_justified ops sid s"
proof (induction ops arbitrary: sid s rule: rev_induct)
  case Nil
  then show ?case by (simp add: session_of_def relay_new_def)
next
  case (snoc e ops)
  let ?st = "foldl (relay_step cr) (relay_new, cs0) ops"
  have old: "session_of ?st sid = Some s \<Longrightarrow> session_justified (ops @ [e]) sid s"
    by (rule session_justified_snoc) (rule snoc.IH)
  show ?case
  proof (cases e)
    case (Request reg id i p)
    with snoc.prems old justified_new show ?thesis by (auto simp: session_request split: if_splits)
  next
    case (Accept reg p id)
    with snoc.prems old justified_accept snoc.IH show ?thesis
      by (auto simp: session_accept split: option.splits if_splits)
  next
    case (Forward reg ts sender id data)
    with snoc.prems old show ?thesis by (simp add: session_of_def)
  next
    case (DropFor pk)
    with snoc.prems old relay_run_inv [of cr cs0 ops] show ?thesis
      by (auto simp: session_of_def relay_inv_def session_drop split: option.splits if_splits)
  qed
qed

text \<open>
  (C9) No relay without consent: in every history of the relay, a session that is active was
  requested by its initiator for its responder and, after that, accepted by that same
  responder.
\<close>
theorem relay_requires_consent:
  assumes "session_of (foldl (relay_step cr) (relay_new, cs0) ops) sid = Some s"
    and "sess_state s = Active"
  shows "\<exists>pre reg mid reg' rest. ops = pre @ Request reg sid (initiator s) (responder s) # mid @
    Accept reg' (responder s) sid # rest"
  using sessions_justified [OF assms(1)] assms(2) unfolding session_justified_def by blast

section \<open>Forwarding\<close>

lemma admit_ok:
  "admit cr rm sender sid data = Inr (other, n) \<longleftrightarrow>
     (\<exists>s v. dm_get (sessions rm) sid = Some s \<and> sess_state s = Active \<and> other_party s sender = Some other \<and>
        b64_decode cr data = Inr v \<and> n = length v \<and> n \<le> RELAY_MAX_FRAME)"
  by (cases "dm_get (sessions rm) sid"; cases "b64_decode cr data")
    (auto simp: admit_def result_simps not_less split: if_splits)

lemma deliver_simps:
  "fst (deliver cr reg other sender sid data cs) =
     (if \<exists>p. reg_get reg other = Some p \<and> chan_alive cs (ph_tx p) then Inr () else Inl PeerOffline)"
  "chan_log (snd (deliver cr reg other sender sid data cs)) j = chan_log cs j @
     (if \<exists>p. reg_get reg other = Some p \<and> chan_alive cs (ph_tx p) \<and> ph_tx p = j
      then [RelayData (uuid_text cr sid) sender data] else [])"
  by (auto simp: deliver_def split: option.split)

lemma other_party_cases:
  "other_party s sender = Some other \<longleftrightarrow>
     initiator s = sender \<and> other = responder s \<or>
     initiator s \<noteq> sender \<and> responder s = sender \<and> other = initiator s"
  by (auto simp: other_party_def)

text \<open>
  (C22) Exactly when a frame crosses the relay, and what then happens: the session is active,
  the sender is one of its parties, the frame decodes to at most 64 KiB, the quota grants it
  and the other party is connected. The other party's channel gets the frame as it was sent,
  once, and no other channel is touched.
\<close>
theorem forward_delivers:
  "fst (forward cr reg ts sender sid data (rm, cs)) = Inr n \<longleftrightarrow>
     (\<exists>s v other p. dm_get (sessions rm) sid = Some s \<and> sess_state s = Active \<and>
        other_party s sender = Some other \<and> b64_decode cr data = Inr v \<and> length v \<le> 65536 \<and>
        n = of_nat (length v) \<and> fst (consume_quota ts sender n rm) = Inr () \<and>
        reg_get reg other = Some p \<and> chan_alive cs (ph_tx p) \<and>
        (\<forall>j. chan_log (snd (snd (forward cr reg ts sender sid data (rm, cs)))) j = chan_log cs j @
           (if j = ph_tx p then [RelayData (uuid_text cr sid) sender data] else [])))"
  (is "?l \<longleftrightarrow> ?r")
proof
  assume ?l
  then obtain other k where a: "admit cr rm sender sid data = Inr (other, k)"
    and q: "fst (consume_quota ts sender (of_nat k) rm) = Inr ()"
    and d: "fst (deliver cr reg other sender sid data cs) = Inr ()" and n: "n = of_nat k"
    by (auto simp: forward_simps result_simps)
  from d obtain p where p: "reg_get reg other = Some p" "chan_alive cs (ph_tx p)"
    by (auto simp: deliver_simps split: if_splits)
  have "chan_log (snd (snd (forward cr reg ts sender sid data (rm, cs)))) j = chan_log cs j @
      (if j = ph_tx p then [RelayData (uuid_text cr sid) sender data] else [])" for j
    using a q p by (auto simp: forward_simps deliver_simps)
  with a q n p show ?r
    by (auto simp: admit_ok RELAY_MAX_FRAME_def)
next
  assume ?r
  then obtain s v other p where
    "dm_get (sessions rm) sid = Some s" "sess_state s = Active" "other_party s sender = Some other"
    "b64_decode cr data = Inr v" "length v \<le> 65536"
    and r: "n = of_nat (length v)" "fst (consume_quota ts sender n rm) = Inr ()"
    "reg_get reg other = Some p" "chan_alive cs (ph_tx p)"
    by blast
  then have "admit cr rm sender sid data = Inr (other, length v)"
    by (simp add: admit_ok RELAY_MAX_FRAME_def)
  with r show ?l by (simp add: forward_simps deliver_simps)
qed

text \<open>
  The refusals of a forward in the order of the checks, and that a refused frame reaches
  nobody: a missing session, one that is not active or of other parties, a frame that does not
  decode or is too long change nothing at all; a frame over quota or with no one to receive it
  changes only the sender's quota.
\<close>
theorem forward_refused:
  assumes "fst (forward cr reg ts sender sid data (rm, cs)) = Inl e"
  shows "(\<forall>j. chan_log (snd (snd (forward cr reg ts sender sid data (rm, cs)))) j = chan_log cs j) \<and>
    (case dm_get (sessions rm) sid of
       None \<Rightarrow> e = RelaySessionNotFound
     | Some s \<Rightarrow>
         if sess_state s \<noteq> Active \<or> sender \<notin> {initiator s, responder s} then e = RelayNotConsented
         else case b64_decode cr data of
                Inl d \<Rightarrow> e = Malformed (''relay base64: '' @ d)
              | Inr v \<Rightarrow> if 65536 < length v then e = PayloadTooLarge (length v) 65536
                         else e \<in> {RelayQuotaExceeded, RateLimited, PeerOffline}) \<and>
    (e \<in> {RelayQuotaExceeded, RateLimited, PeerOffline} \<or>
     fst (snd (forward cr reg ts sender sid data (rm, cs))) = rm)"
proof (cases "admit cr rm sender sid data")
  case (Inl d)
  with assms have "e = d" by (simp add: forward_simps)
  with Inl show ?thesis
    by (auto simp: forward_simps admit_def other_party_def result_simps RELAY_MAX_FRAME_def split: option.splits sum.splits if_splits)
next
  case (Inr a)
  obtain other n where a: "a = (other, n)" by fastforce
  have "fst (consume_quota ts sender b rm) = Inl d \<Longrightarrow> d \<in> {RelayQuotaExceeded, RateLimited}" for b d
    by (auto simp: consume_quota_def try_consume_def Let_def split: prod.splits if_splits)
  moreover from Inr obtain s v where "dm_get (sessions rm) sid = Some s" "sess_state s = Active"
    "other_party s sender = Some other" "b64_decode cr data = Inr v" "length v \<le> 65536"
    by (auto simp: a admit_ok RELAY_MAX_FRAME_def)
  ultimately show ?thesis using assms Inr
    by (auto simp: forward_simps a deliver_simps result_simps other_party_cases split: sum.splits if_splits)
qed

text \<open>
  A relay request on every branch: with the responder not connected nothing happens;
  otherwise a pending session of the two is recorded and the responder is offered it, and the
  request fails if the responder's connection is gone, in which case the session stays.
\<close>
theorem request_outcomes:
  "case reg_get reg resp of
     None \<Rightarrow> request cr reg sid init resp (rm, cs) = (Inl PeerOffline, rm, cs)
   | Some p \<Rightarrow>
       let (r, rm', cs') = request cr reg sid init resp (rm, cs) in
       r = (if chan_alive cs (ph_tx p) then Inr sid else Inl PeerOffline) \<and>
       dm_get (sessions rm') = (dm_get (sessions rm))(sid \<mapsto> \<lparr>initiator = init, responder = resp, sess_state = Pending\<rparr>) \<and>
       quotas rm' = quotas rm \<and>
       (\<forall>j. chan_log cs' j = chan_log cs j @
          (if j = ph_tx p \<and> chan_alive cs j then [RelayOffer (uuid_text cr sid) init] else []))"
  by (auto simp: request_def Let_def try_send_eq split: option.split)

text \<open>
  An acceptance on every branch. It is refused without effect for an unknown session, for
  anyone but the responder, and for a session already accepted. Otherwise the session becomes
  active, even when one of the parties turns out to be gone and the caller gets an error.
\<close>
theorem accept_outcomes:
  "let (r, st') = accept cr reg p sid (rm, cs) in
   case dm_get (sessions rm) sid of
     None \<Rightarrow> r = Inl RelaySessionNotFound \<and> st' = (rm, cs)
   | Some s \<Rightarrow>
       if \<not> (responder s = p \<and> sess_state s = Pending) then r = Inl RelayNotConsented \<and> st' = (rm, cs)
       else fst st' = rm\<lparr>sessions := dm_insert sid (s\<lparr>sess_state := Active\<rparr>) (sessions rm)\<rparr> \<and>
         (case (reg_get reg (initiator s), reg_get reg p) of
            (Some i, Some q) \<Rightarrow>
              r = (if chan_alive cs (ph_tx i) \<and> chan_alive cs (ph_tx q) then Inr () else Inl PeerOffline) \<and>
              (\<forall>j. chan_log (snd st') j = chan_log cs j @
                (if j = ph_tx i \<and> chan_alive cs (ph_tx i)
                 then [RelaySessionEstablished (uuid_text cr sid) p None] else []) @
                (if j = ph_tx q \<and> chan_alive cs (ph_tx i) \<and> chan_alive cs (ph_tx q)
                 then [RelaySessionEstablished (uuid_text cr sid) (initiator s) None] else []))
          | _ \<Rightarrow> r = Inl PeerOffline \<and> snd st' = cs)"
proof (cases "dm_get (sessions rm) sid")
  case (Some s)
  show ?thesis
  proof (cases "responder s = p \<and> sess_state s = Pending")
    case True
    with Some show ?thesis
      by (auto simp: accept_def announce_session_def try_send_eq Let_def split: prod.split option.split)
  qed (auto simp: accept_def Some)
qed (simp add: accept_def)

text \<open>
  A disconnected peer leaves no session behind: in every history, dropping the sessions
  of a peer removes those it takes part in, as initiator or responder, and no other.
\<close>
theorem drop_sessions_exact:
  "session_of (relay_step cr (foldl (relay_step cr) (relay_new, cs0) ops) (DropFor pk)) sid =
     (case session_of (foldl (relay_step cr) (relay_new, cs0) ops) sid of
        Some s \<Rightarrow> if pk \<in> {initiator s, responder s} then None else Some s
      | None \<Rightarrow> None)"
  using relay_run_inv [of cr cs0 ops]
  by (auto simp: session_of_def relay_inv_def session_drop split: option.split)

section \<open>The throughput of a peer\<close>

fun forwarded_by :: "crates \<Rightarrow> string \<Rightarrow> relay_state \<Rightarrow> relay_op \<Rightarrow> nat" where
  "forwarded_by cr pk st (Forward reg ts s sid data) =
     (case fst (forward cr reg ts s sid data st) of Inr n \<Rightarrow> if s = pk then unat n else 0 | Inl _ \<Rightarrow> 0)"
| "forwarded_by cr pk st _ = 0"

fun forwarded :: "crates \<Rightarrow> string \<Rightarrow> relay_state \<Rightarrow> relay_op list \<Rightarrow> nat" where
  "forwarded cr pk st [] = 0"
| "forwarded cr pk st (e # es) = forwarded_by cr pk st e + forwarded cr pk (relay_step cr st e) es"

fun clocks :: "relay_op \<Rightarrow> instant list" where
  "clocks (Forward reg (t1, t2, now) s sid data) = [t1, t2, now]"
| "clocks _ = []"

text \<open>The credit of a peer at time zero: its tokens less what the clock has earned it so far.\<close>

definition earned :: "instant \<Rightarrow> rat" where
  "earned t = 2 ^ 20 * of_nat t / 1000000000"

definition credit :: "string \<Rightarrow> instant \<Rightarrow> relay_state \<Rightarrow> rat" where
  "credit pk t st =
     (case quota_of st pk of Some q \<Rightarrow> tokens q - earned (last_refill q) | None \<Rightarrow> 2 ^ 20 - earned t)"

definition clock_inv :: "string \<Rightarrow> instant \<Rightarrow> relay_state \<Rightarrow> bool" where
  "clock_inv pk t st \<longleftrightarrow> relay_inv st \<and> (\<forall>q. quota_of st pk = Some q \<longrightarrow> last_refill q \<le> t)"

lemma earned_mono: "s \<le> t \<Longrightarrow> earned s \<le> earned t"
  by (simp add: earned_def divide_right_mono)

lemma earned_diff: "s \<le> t \<Longrightarrow> 2 ^ 20 * of_nat (t - s) / 1000000000 = earned t - earned s"
  by (simp add: earned_def of_nat_diff diff_divide_distrib right_diff_distrib)

lemma quota_of_step_other:
  "\<forall>reg ts sid data. e \<noteq> Forward reg ts pk sid data \<Longrightarrow> quota_of (relay_step cr st e) pk = quota_of st pk"
proof (cases e)
  case (Forward reg ts s sid data)
  moreover assume "\<forall>reg ts sid data. e \<noteq> Forward reg ts pk sid data"
  ultimately show ?thesis
    by (cases st; cases ts) (auto simp: quota_of_def forward_simps quota_consume split: sum.split)
qed (cases st; simp add: quota_of_def session_request session_accept drop_sessions_for_def)+

lemma credit_antimono: "t \<le> t' \<Longrightarrow> credit pk t' st \<le> credit pk t st"
  using earned_mono [of t t'] by (simp add: credit_def split: option.split)

lemma credit_nonneg: "clock_inv pk t st \<Longrightarrow> 0 \<le> credit pk t st + earned t"
  using earned_mono
  by (force simp: clock_inv_def credit_def relay_inv_def quota_of_def quota_inv_def split: option.split)

text \<open>What the quota of the sender becomes, and the bytes a forward reports.\<close>

definition charged_quota :: "string \<Rightarrow> instant \<Rightarrow> instant \<Rightarrow> relay_state \<Rightarrow> peer_quota" where
  "charged_quota pk t1 t2 st = (case quota_of st pk of Some q \<Rightarrow> q | None \<Rightarrow> quota_new t1 t2)"

declare of_nat_unat [simp del]

lemma forward_charge:
  assumes "admit cr rm pk sid data = Inr (other, n)"
  shows "quota_of (relay_step cr (rm, cs) (Forward reg (t1, t2, now) pk sid data)) pk =
      Some (fst (try_consume now (of_nat n) (charged_quota pk t1 t2 (rm, cs))))"
    and "of_nat (forwarded_by cr pk (rm, cs) (Forward reg (t1, t2, now) pk sid data)) \<le>
      (case snd (try_consume now (of_nat n) (charged_quota pk t1 t2 (rm, cs))) of
         Inr _ \<Rightarrow> of_nat (unat (of_nat n :: u64)) | Inl _ \<Rightarrow> (0 :: rat))"
  using assms
  by (auto simp: quota_of_def charged_quota_def forward_simps quota_consume quota_step_def
      consume_quota_def Let_def split_beta result_simps split: sum.split option.split)

lemma credit_step:
  assumes "clock_inv pk t st" and "sorted (t # clocks e)"
  defines "t' \<equiv> last (t # clocks e)"
  shows "clock_inv pk t' (relay_step cr st e)"
    and "of_nat (forwarded_by cr pk st e) + credit pk t' (relay_step cr st e) \<le> credit pk t st + 6 / 2 ^ 33"
proof -
  have inv: "relay_inv (relay_step cr st e)"
    using assms(1) relay.step_inv [where s = st and e = e and cr = cr] by (simp add: clock_inv_def)
  have tt: "t \<le> t'" using assms(2) unfolding t'_def by (cases e rule: clocks.cases) auto
  have "clock_inv pk t' (relay_step cr st e) \<and>
    of_nat (forwarded_by cr pk st e) + credit pk t' (relay_step cr st e) \<le> credit pk t st + 6 / 2 ^ 33"
  proof (cases "forwarded_by cr pk st e = 0 \<and> quota_of (relay_step cr st e) pk = quota_of st pk")
    case True
    moreover have "credit pk t' st \<le> credit pk t st" by (rule credit_antimono [OF tt])
    moreover have "credit pk t' (relay_step cr st e) = credit pk t' st"
      using True by (simp add: credit_def)
    ultimately show ?thesis using inv assms(1) tt by (auto simp: clock_inv_def)
  next
    case False
    then obtain reg ts sid data where e: "e = Forward reg ts pk sid data"
      using quota_of_step_other [of e pk cr st] by (cases e) (auto split: sum.splits if_splits)
    obtain t1 t2 now where ts: "ts = (t1, t2, now)" by (cases ts)
    obtain rm cs where st: "st = (rm, cs)" by fastforce
    from False obtain other n where a: "admit cr rm pk sid data = Inr (other, n)"
      by (cases "admit cr rm pk sid data") (auto simp: e st quota_of_def forward_simps)
    let ?q = "charged_quota pk t1 t2 st"
    have order: "t \<le> t1" "t1 \<le> now" "t' = now" using assms(2) by (auto simp: t'_def e ts)
    let ?r = "try_consume now (of_nat n) ?q"
    have q: "quota_inv ?q" "last_refill ?q \<le> now" "tokens ?q - earned (last_refill ?q) \<le> credit pk t st"
      using assms(1) order earned_mono [of t t1]
      by (auto simp: charged_quota_def clock_inv_def relay_inv_def credit_def quota_of_def quota_new_def quota_inv_def
          split: option.split)
    note charge = forward_charge [OF a, of cs reg t1 t2 now, folded st ts, folded e]
    have "credit pk t' (relay_step cr st e) = tokens (fst ?r) - earned now"
      by (simp add: credit_def charge(1))
    moreover have "clock_inv pk t' (relay_step cr st e)"
      using inv by (simp add: clock_inv_def charge(1) order(3))
    ultimately show ?thesis
      using consume_potential [OF q(1), of "of_nat n" now, unfolded earned_diff [OF q(2)]] charge(2) q(3)
      by linarith
  qed
  then show "clock_inv pk t' (relay_step cr st e)"
    and "of_nat (forwarded_by cr pk st e) + credit pk t' (relay_step cr st e) \<le> credit pk t st + 6 / 2 ^ 33"
    by simp_all
qed

lemma forwarded_credit:
  assumes "clock_inv pk t st" and "sorted (t # concat (map clocks ops))"
  shows "of_nat (forwarded cr pk st ops) \<le>
    credit pk t st + earned (last (t # concat (map clocks ops))) + of_nat (length ops) * (6 / 2 ^ 33)"
  using assms
proof (induction ops arbitrary: t st)
  case Nil
  then show ?case using credit_nonneg [of pk t st] by simp
next
  case (Cons e ops)
  let ?t = "last (t # clocks e)"
  have "sorted (t # clocks e)" "sorted (?t # concat (map clocks ops))"
    using Cons.prems(2) by (auto simp: sorted_append split: if_splits)
  note step = credit_step [OF Cons.prems(1) this(1), of cr]
    and ih = Cons.IH [OF credit_step(1) [OF Cons.prems(1) this(1), of cr] this(2)]
  have ends: "last (?t # concat (map clocks ops)) = last (t # concat (map clocks (e # ops)))"
    by (auto simp: last_append)
  have "of_nat (length (e # ops)) * (6 / 2 ^ 33 :: rat) = 6 / 2 ^ 33 + of_nat (length ops) * (6 / 2 ^ 33)"
    by (simp add: distrib_right)
  then show ?case
    using step(2) ih [unfolded ends] unfolding forwarded.simps of_nat_add by linarith
qed

text \<open>
  (C11) The throughput of a peer over the relay: in every history whose clock does not run
  backwards, whatever the peer and all others request, accept, send and drop, the bytes the
  relay forwards for it are at most one MiB plus one MiB for each second elapsed, and the
  rounding of the bucket adds less than \<open>6 / 2^33\<close> of a byte per operation.
\<close>
theorem relay_throughput_bound:
  assumes "sorted (t # concat (map clocks ops))"
  shows "of_nat (forwarded cr pk (relay_new, cs0) ops) \<le>
    (2 ^ 20 + 2 ^ 20 * of_nat (last (t # concat (map clocks ops)) - t) / 1000000000 +
    of_nat (length ops) * (6 / 2 ^ 33) :: rat)"
proof -
  have start: "clock_inv pk t (relay_new, cs0)" "credit pk t (relay_new, cs0) = 2 ^ 20 - earned t"
    by (simp_all add: clock_inv_def relay_inv_def quota_of_def relay_new_def credit_def)
  have "t \<le> last (t # concat (map clocks ops))"
    using assms last_in_set [of "concat (map clocks ops)"] by auto
  from earned_diff [OF this] show ?thesis
    using forwarded_credit [OF start(1) assms, of cr] unfolding start(2) by linarith
qed

section \<open>An example\<close>

text \<open>Peer 1 asks peer 2 for a relay, peer 2 accepts, peer 1 sends four bytes.\<close>

definition demo_relay_ops :: "relay_op list" where
  "demo_relay_ops =
     [Request demo_registry 7 (demo_key CHR ''1'') (demo_key CHR ''2''),
      Accept demo_registry (demo_key CHR ''2'') 7,
      Forward demo_registry (0, 0, 0) (demo_key CHR ''1'') 7 ''data'']"

definition demo_active :: relay_manager where
  "demo_active = \<lparr>sessions = [(7, \<lparr>initiator = demo_key CHR ''1'', responder = demo_key CHR ''2'', sess_state = Active\<rparr>)],
     quotas = dm_empty\<rparr>"

theorem relay_requires_consent_witness:
  "\<exists>s. session_of (foldl (relay_step demo_crates) (relay_new, demo_channels) demo_relay_ops) 7 = Some s \<and>
     (\<exists>pre reg mid reg' rest. demo_relay_ops = pre @ Request reg 7 (initiator s) (responder s) # mid @
        Accept reg' (responder s) 7 # rest)"
proof -
  let ?s = "\<lparr>initiator = demo_key CHR ''1'', responder = demo_key CHR ''2'', sess_state = Active\<rparr>"
  have "session_of (foldl (relay_step demo_crates) (relay_new, demo_channels) demo_relay_ops) 7 = Some ?s"
    by (simp add: demo_relay_ops_def session_of_def)
       (simp add: session_accept session_request reg_is_online_iff flip: session_of_def)
  then show ?thesis using relay_requires_consent [of demo_crates demo_channels demo_relay_ops 7 ?s] by simp
qed

theorem forward_refused_witness:
  "fst (forward demo_crates demo_registry (0, 0, 0) (demo_key CHR ''3'') 7 ''data'' (demo_active, demo_channels)) =
     Inl RelayNotConsented \<and>
   fst (snd (forward demo_crates demo_registry (0, 0, 0) (demo_key CHR ''3'') 7 ''data'' (demo_active, demo_channels))) =
     demo_active"
proof -
  have "fst (forward demo_crates demo_registry (0, 0, 0) (demo_key CHR ''3'') 7 ''data'' (demo_active, demo_channels)) =
     Inl RelayNotConsented"
    by (simp add: forward_simps admit_def demo_active_def dm_get_def other_party_def)
  from forward_refused [OF this] this show ?thesis by simp
qed

theorem relay_throughput_bound_witness:
  "sorted (0 # concat (map clocks demo_relay_ops)) \<and>
   forwarded demo_crates (demo_key CHR ''1'') (relay_new, demo_channels) demo_relay_ops \<le> 2 ^ 20 + 1"
proof -
  have s: "sorted (0 # concat (map clocks demo_relay_ops))" by (simp add: demo_relay_ops_def)
  have "last (0 # concat (map clocks demo_relay_ops)) = 0" "length demo_relay_ops = 3"
    by (simp_all add: demo_relay_ops_def)
  with relay_throughput_bound [OF s, of demo_crates "demo_key CHR ''1''" demo_channels]
  have "(of_nat (forwarded demo_crates (demo_key CHR ''1'') (relay_new, demo_channels) demo_relay_ops) :: rat) \<le> of_nat (2 ^ 20 + 1)"
    by simp
  with s show ?thesis by (simp only: of_nat_le_iff)
qed

end
