(* ===== verification/Signaling.thy ===== *)
theory Signaling
  imports Registry
begin

text \<open>
  \<open>src/signaling.rs\<close>: the forwarding of signaling payloads with a limit of 100 messages per
  minute for each sender. A \<open>governor\<close> limiter is the quota it was built with and the instants
  at which it was consulted; whether a call passes is the crate's, the parameter \<open>gov_check\<close>.

  The lookup of a limiter and the storing of a new one are one step here: the histories of this theory are those of
  checks that do not overlap. \<open>Limiter_Race\<close> has them as the two accesses that they are.
\<close>

record rate_limiter =
  per_minute :: nat
  calls :: "nat list"

type_synonym signaling_limiter = "(string, rate_limiter) dashmap"

definition limiter_new :: signaling_limiter where
  "limiter_new = dm_empty"

definition limiter_for :: "string \<Rightarrow> signaling_limiter \<Rightarrow> rate_limiter \<times> signaling_limiter" where
  "limiter_for pubkey lm =
     (case dm_get lm pubkey of
        Some l \<Rightarrow> (l, lm)
      | None \<Rightarrow> let limiter = \<lparr>per_minute = 100, calls = []\<rparr> in (limiter, dm_insert pubkey limiter lm))"

definition limiter_check :: "crates \<Rightarrow> nat \<Rightarrow> string \<Rightarrow> signaling_limiter \<Rightarrow> unit result \<times> signaling_limiter" where
  "limiter_check cr now pubkey lm =
     (let (limiter, lm') = limiter_for pubkey lm
      in (if gov_check cr (per_minute limiter) (calls limiter) now then Inr () else Inl RateLimited,
          dm_insert pubkey (limiter\<lparr>calls := calls limiter @ [now]\<rparr>) lm'))"

definition base64_decoded_len :: "crates \<Rightarrow> string \<Rightarrow> nat result" where
  "base64_decoded_len cr s =
     map_err (\<lambda>e. Malformed (''base64: '' @ e)) (rbind (b64_decode cr s) (\<lambda>v. Inr (length v)))"

text \<open>\<open>now\<close> is the limiter's clock and \<open>ts\<close> the wall clock's \<open>Utc::now().timestamp()\<close>.\<close>

definition relay_signal :: "crates \<Rightarrow> peer_registry \<Rightarrow> nat \<Rightarrow> i64 \<Rightarrow> string \<Rightarrow> string \<Rightarrow> string
    \<Rightarrow> signaling_limiter \<times> channels \<Rightarrow> unit result \<times> signaling_limiter \<times> channels" where
  "relay_signal cr reg now ts from_pk to_pk payload st =
     (let (lm, cs) = st;
          (checked, lm') = limiter_check cr now from_pk lm
      in case checked of
           Inl e \<Rightarrow> (Inl e, lm', cs)
         | Inr _ \<Rightarrow>
        (case base64_decoded_len cr payload of
           Inl e \<Rightarrow> (Inl e, lm', cs)
         | Inr decoded_len \<Rightarrow>
             if SIGNALING_MAX_PAYLOAD < decoded_len
             then (Inl (PayloadTooLarge decoded_len SIGNALING_MAX_PAYLOAD), lm', cs)
             else
        (case ok_or PeerOffline (reg_get reg to_pk) of
           Inl e \<Rightarrow> (Inl e, lm', cs)
         | Inr recipient \<Rightarrow>
             (case try_send (ph_tx recipient) (SignalMsg from_pk payload ts) cs of
                (r, cs') \<Rightarrow> (r, lm', cs')))))"

section \<open>One limiter per sender\<close>

definition calls_of :: "signaling_limiter \<Rightarrow> string \<Rightarrow> nat list" where
  "calls_of lm pk = (case dm_get lm pk of Some l \<Rightarrow> calls l | None \<Rightarrow> [])"

definition limiter_inv :: "signaling_limiter \<Rightarrow> bool" where
  "limiter_inv lm \<longleftrightarrow> (\<forall>pk l. dm_get lm pk = Some l \<longrightarrow> per_minute l = 100)"

lemma limiter_check_result:
  "limiter_inv lm \<Longrightarrow> fst (limiter_check cr now pk lm) =
     (if gov_check cr 100 (calls_of lm pk) now then Inr () else Inl RateLimited)"
  by (simp add: limiter_check_def limiter_for_def calls_of_def limiter_inv_def Let_def split: option.split)

lemma limiter_check_calls:
  "calls_of (snd (limiter_check cr now pk lm)) pk' = (if pk' = pk then calls_of lm pk @ [now] else calls_of lm pk')"
  by (simp add: limiter_check_def limiter_for_def calls_of_def Let_def split: option.split)

lemma limiter_check_inv: "limiter_inv lm \<Longrightarrow> limiter_inv (snd (limiter_check cr now pk lm))"
  by (auto simp: limiter_check_def limiter_for_def limiter_inv_def Let_def split: option.splits if_splits)

lemma signal_limiter: "fst (snd (relay_signal cr reg now ts f t payload (lm, cs))) = snd (limiter_check cr now f lm)"
  by (simp add: relay_signal_def split: prod.split sum.split)

lemma signal_ok_checked: "fst (relay_signal cr reg now ts f t payload (lm, cs)) = Inr () \<Longrightarrow>
    fst (limiter_check cr now f lm) = Inr ()"
  by (auto simp: relay_signal_def split: prod.splits sum.splits)

record signal_op =
  sig_registry :: peer_registry
  sig_now :: nat
  sig_ts :: i64
  sig_from :: string
  sig_to :: string
  sig_payload :: string

definition signal_exec :: "crates \<Rightarrow> signal_op \<Rightarrow> signaling_limiter \<times> channels
    \<Rightarrow> unit result \<times> signaling_limiter \<times> channels" where
  "signal_exec cr e st =
     relay_signal cr (sig_registry e) (sig_now e) (sig_ts e) (sig_from e) (sig_to e) (sig_payload e) st"

definition signal_step :: "crates \<Rightarrow> signaling_limiter \<times> channels \<Rightarrow> signal_op \<Rightarrow> signaling_limiter \<times> channels" where
  "signal_step cr st e = snd (signal_exec cr e st)"

interpretation signal: event_machine "signal_step cr" "\<lambda>_ _. True" "\<lambda>st. limiter_inv (fst st)" for cr
proof
  fix st :: "signaling_limiter \<times> channels" and e
  assume "limiter_inv (fst st)"
  then show "limiter_inv (fst (signal_step cr st e))"
    by (cases st) (simp add: signal_step_def signal_exec_def signal_limiter limiter_check_inv)
qed

text \<open>The messages of a sender that were delivered between two instants.\<close>

fun delivered :: "crates \<Rightarrow> string \<Rightarrow> nat \<Rightarrow> nat \<Rightarrow> signaling_limiter \<times> channels \<Rightarrow> signal_op list \<Rightarrow> nat" where
  "delivered cr pk a b st [] = 0"
| "delivered cr pk a b st (e # es) =
     (if sig_from e = pk \<and> a \<le> sig_now e \<and> sig_now e \<le> b \<and> fst (signal_exec cr e st) = Inr () then 1 else 0) +
     delivered cr pk a b (signal_step cr st e) es"

lemma delivered_accepted:
  assumes "limiter_inv (fst st)"
  shows "\<exists>hist. delivered cr pk a b st es \<le>
     length (filter (\<lambda>t. a \<le> t \<and> t \<le> b) (gov_accepted cr 100 (calls_of (fst st) pk) hist))"
  using assms
proof (induction es arbitrary: st)
  case (Cons e es)
  obtain lm cs where st: "st = (lm, cs)" by fastforce
  let ?st = "signal_step cr st e"
  have inv: "limiter_inv (fst ?st)" using signal.step_inv [where s = st] Cons.prems by blast
  from Cons.IH [OF inv] obtain hist where hist: "delivered cr pk a b ?st es \<le>
     length (filter (\<lambda>t. a \<le> t \<and> t \<le> b) (gov_accepted cr 100 (calls_of (fst ?st) pk) hist))" by blast
  have calls: "calls_of (fst ?st) pk = (if pk = sig_from e then calls_of lm pk @ [sig_now e] else calls_of lm pk)"
    by (simp add: signal_step_def signal_exec_def st signal_limiter limiter_check_calls)
  show ?case
  proof (cases "sig_from e = pk")
    case True
    have "fst (signal_exec cr e st) = Inr () \<Longrightarrow> gov_check cr 100 (calls_of lm pk) (sig_now e)"
      using signal_ok_checked [of cr "sig_registry e" "sig_now e" "sig_ts e" "sig_from e" "sig_to e" "sig_payload e" lm cs]
        limiter_check_result [of lm cr "sig_now e" "sig_from e"] Cons.prems True
      by (simp add: signal_exec_def st split: if_splits)
    with hist calls True st show ?thesis by (intro exI [of _ "sig_now e # hist"]) auto
  next
    case False
    with hist calls st show ?thesis by (intro exI [of _ hist]) auto
  qed
qed simp

text \<open>
  The signaling rate of each sender is limited when its checks do not overlap: if the limiter
  crate enforces its documented rate, then in every sequence of signals and in every interval
  at most 100 messages of a sender are delivered, plus 100 for each minute of the interval.
  (\<open>Limiter_Race\<close> has what overlapping checks keep to.)
\<close>
theorem signal_rate_bound:
  assumes "gov_rate cr" and "a \<le> b"
  shows "delivered cr pk a b (limiter_new, cs0) es * 60000000000 \<le> 100 * 60000000000 + 100 * (b - a)"
proof -
  have "limiter_inv limiter_new" "calls_of limiter_new pk = []"
    by (simp_all add: limiter_new_def limiter_inv_def calls_of_def)
  with delivered_accepted [of "(limiter_new, cs0)" cr pk a b es] obtain hist where
    "delivered cr pk a b (limiter_new, cs0) es \<le>
       length (filter (\<lambda>t. a \<le> t \<and> t \<le> b) (gov_accepted cr 100 [] hist))" by auto
  moreover have "length (filter (\<lambda>t. a \<le> t \<and> t \<le> b) (gov_accepted cr 100 [] hist)) * 60000000000 \<le>
      100 * 60000000000 + 100 * (b - a)"
    using assms unfolding gov_rate_def by (meson zero_less_numeral)
  ultimately show ?thesis by linarith
qed

text \<open>
  A signal on every branch, with the limiter consulted first: over the limit, not base64,
  longer than 4 KiB and not connected are the refusals, each delivers nothing; otherwise the
  recipient's channel gets the payload as it was sent, marked with its sender, and no other
  channel is touched. The call is counted against its sender alone in every case.
\<close>
theorem relay_signal_outcomes:
  assumes "limiter_inv lm"
  shows "let (r, lm', cs') = relay_signal cr reg now ts f t payload (lm, cs) in
    r = (if \<not> gov_check cr 100 (calls_of lm f) now then Inl RateLimited
         else case b64_decode cr payload of
                Inl e \<Rightarrow> Inl (Malformed (''base64: '' @ e))
              | Inr v \<Rightarrow> if 4096 < length v then Inl (PayloadTooLarge (length v) 4096)
                  else if \<exists>p. reg_get reg t = Some p \<and> chan_alive cs (ph_tx p) then Inr () else Inl PeerOffline) \<and>
    (\<forall>j. chan_log cs' j = chan_log cs j @
       (if r = Inr () \<and> (\<exists>p. reg_get reg t = Some p \<and> ph_tx p = j) then [SignalMsg f payload ts] else [])) \<and>
    (\<forall>pk. calls_of lm' pk = calls_of lm pk @ (if pk = f then [now] else []))"
proof -
  obtain c lm1 where lc: "limiter_check cr now f lm = (c, lm1)" by fastforce
  have c: "c = (if gov_check cr 100 (calls_of lm f) now then Inr () else Inl RateLimited)"
    using limiter_check_result [OF assms, of cr now f] lc by simp
  have calls: "calls_of lm1 pk = (if pk = f then calls_of lm f @ [now] else calls_of lm pk)" for pk
    using limiter_check_calls [of cr now f lm pk] lc by simp
  show ?thesis
    by (cases "b64_decode cr payload"; cases "reg_get reg t")
      (simp_all add: relay_signal_def base64_decoded_len_def SIGNALING_MAX_PAYLOAD_def try_send_eq lc c calls)
qed

definition demo_signal :: "nat \<Rightarrow> signal_op" where
  "demo_signal now = \<lparr>sig_registry = demo_registry, sig_now = now, sig_ts = 1000,
     sig_from = demo_key CHR ''1'', sig_to = demo_key CHR ''2'', sig_payload = ''offer''\<rparr>"

theorem signal_rate_bound_witness:
  "gov_rate demo_crates \<and>
   delivered demo_crates (demo_key CHR ''1'') 0 60000000000 (limiter_new, demo_channels) (map demo_signal [0..<500]) \<le> 200"
  using signal_rate_bound [OF demo_gov_rate, of 0 60000000000 "demo_key CHR ''1''" demo_channels "map demo_signal [0..<500]"]
    demo_gov_rate by simp

theorem relay_signal_outcomes_witness:
  "limiter_inv limiter_new \<and>
   fst (relay_signal demo_crates demo_registry 5 1000 (demo_key CHR ''1'') (demo_key CHR ''2'') ''offer'' (limiter_new, demo_channels))
     = Inr ()"
proof -
  have inv: "limiter_inv limiter_new" by (simp add: limiter_inv_def limiter_new_def)
  from relay_signal_outcomes [OF inv, of demo_crates demo_registry 5 1000 "demo_key CHR ''1''" "demo_key CHR ''2''" "''offer''" demo_channels]
  have "fst (relay_signal demo_crates demo_registry 5 1000 (demo_key CHR ''1'') (demo_key CHR ''2'') ''offer'' (limiter_new, demo_channels))
     = Inr ()"
    by (auto simp: calls_of_def limiter_new_def gcra_def gcra_state_def split_beta Let_def)
  with inv show ?thesis by simp
qed

end
