(* ===== verification/Db.thy ===== *)
theory Db
  imports Auth
begin

text \<open>
  \<open>src/db.rs\<close> and the schema of \<open>migrations/\<close>: the four tables, and each query as what its SQL
  does to them, with the constraints of the schema (primary and foreign keys, \<open>UNIQUE\<close>,
  \<open>CHECK\<close>). \<open>NOW()\<close> and \<open>gen_random_uuid()\<close> are arguments.

  Every round trip to the database has an outcome the broker does not control: it works, it is
  lost before it takes effect, or it takes effect and the answer is lost. A list of outcomes
  says what happens to the round trips to come; past its end they all work.

  An operation is one step here, transactions included: the histories of this theory are those of operations that do
  not overlap. \<open>Claim_Race\<close> runs \<open>claim_handle\<close> statement by statement against other claims.
\<close>

section \<open>Tables\<close>

record peer_row =
  pr_pubkey :: string
  pr_handle :: "string option"
  pr_metadata :: json
  pr_first_seen :: int
  pr_last_seen :: int
  pr_kind :: string

record handle_row =
  hr_handle :: string
  hr_pubkey :: string
  hr_claimed_at :: int

record team_row =
  tr_team_id :: uuid
  tr_name :: string
  tr_admin_pubkey :: string
  tr_created_at :: int

record member_row =
  mr_team_id :: uuid
  mr_member_pubkey :: string
  mr_admin_signature :: string
  mr_joined_at :: int

record database =
  db_peers :: "peer_row list"
  db_handles :: "handle_row list"
  db_teams :: "team_row list"
  db_members :: "member_row list"

record peer_record =
  rec_pubkey :: string
  rec_handle :: "string option"
  rec_metadata :: json
  rec_first_seen :: int
  rec_last_seen :: int

record team_record =
  rec_team_id :: uuid
  rec_name :: string
  rec_admin_pubkey :: string
  rec_created_at :: int

record team_member_record =
  rec_m_team_id :: uuid
  rec_m_pubkey :: string
  rec_m_signature :: string
  rec_m_joined_at :: int

definition empty_db :: database where
  "empty_db = \<lparr>db_peers = [], db_handles = [], db_teams = [], db_members = []\<rparr>"

section \<open>Round trips\<close>

datatype outcome = Works | Lost string | Unacked string

type_synonym dbs = "database \<times> outcome list"

fun take_outcome :: "outcome list \<Rightarrow> outcome \<times> outcome list" where
  "take_outcome [] = (Works, [])"
| "take_outcome (x # xs) = (x, xs)"

text \<open>A statement gives a value and new tables, or is refused with a constraint's name.\<close>

definition query :: "crates \<Rightarrow> (database \<Rightarrow> string + 'a \<times> database) \<Rightarrow> dbs \<Rightarrow> 'a result \<times> dbs" where
  "query cr stmt s =
     (let (db, xs) = s; (x, rest) = take_outcome xs
      in case x of
           Lost e \<Rightarrow> (Inl (Database e), db, rest)
         | Works \<Rightarrow> (case stmt db of
               Inl v \<Rightarrow> (Inl (Database (pg_violation cr v)), db, rest)
             | Inr (a, db') \<Rightarrow> (Inr a, db', rest))
         | Unacked e \<Rightarrow> (case stmt db of
               Inl v \<Rightarrow> (Inl (Database e), db, rest)
             | Inr (a, db') \<Rightarrow> (Inl (Database e), db', rest)))"

definition qbind :: "'a result \<times> dbs \<Rightarrow> ('a \<Rightarrow> dbs \<Rightarrow> 'b result \<times> dbs) \<Rightarrow> 'b result \<times> dbs" where
  "qbind m f = (case m of (Inl e, s) \<Rightarrow> (Inl e, s) | (Inr a, s) \<Rightarrow> f a s)"

text \<open>A transaction: \<open>pool.begin()\<close>, statements on a working copy, then \<open>commit\<close> or
  \<open>rollback\<close>; a transaction left by an error is rolled back when it is dropped.\<close>

datatype 'a tx_end = Commit 'a | Rollback "'a result"

definition in_tx :: "crates \<Rightarrow> (dbs \<Rightarrow> 'a tx_end result \<times> dbs) \<Rightarrow> dbs \<Rightarrow> 'a result \<times> dbs" where
  "in_tx cr body s =
     qbind (query cr (\<lambda>d. Inr ((), d)) s) (\<lambda>_ s1.
       case body s1 of
         (Inl e, work, xs) \<Rightarrow> (Inl e, fst s1, xs)
       | (Inr (Rollback r), work, xs) \<Rightarrow>
           qbind (query cr (\<lambda>d. Inr ((), d)) (fst s1, xs)) (\<lambda>_ s2. (r, s2))
       | (Inr (Commit a), work, xs) \<Rightarrow> query cr (\<lambda>_. Inr (a, work)) (fst s1, xs))"

section \<open>Peers\<close>

definition default_peer_row :: "int \<Rightarrow> string \<Rightarrow> peer_row" where
  "default_peer_row now pubkey = \<lparr>pr_pubkey = pubkey, pr_handle = None, pr_metadata = JObj [],
     pr_first_seen = now, pr_last_seen = now, pr_kind = ''user''\<rparr>"

definition upsert_peer :: "crates \<Rightarrow> int \<Rightarrow> string \<Rightarrow> dbs \<Rightarrow> unit result \<times> dbs" where
  "upsert_peer cr now pubkey =
     query cr (\<lambda>db. Inr ((),
       db\<lparr>db_peers :=
         (if pubkey \<in> pr_pubkey ` set (db_peers db)
          then map (\<lambda>r. if pr_pubkey r = pubkey then r\<lparr>pr_last_seen := now\<rparr> else r) (db_peers db)
          else db_peers db @ [default_peer_row now pubkey])\<rparr>))"

definition upsert_peer_with_kind :: "crates \<Rightarrow> int \<Rightarrow> string \<Rightarrow> string \<Rightarrow> dbs \<Rightarrow> unit result \<times> dbs" where
  "upsert_peer_with_kind cr now pubkey kind =
     query cr (\<lambda>db.
       if kind \<notin> {''user'', ''machine''} then Inl ''peers_kind_check''
       else Inr ((),
         db\<lparr>db_peers :=
           (if pubkey \<in> pr_pubkey ` set (db_peers db)
            then map (\<lambda>r. if pr_pubkey r = pubkey then r\<lparr>pr_kind := kind, pr_last_seen := now\<rparr> else r) (db_peers db)
            else db_peers db @ [(default_peer_row now pubkey)\<lparr>pr_kind := kind\<rparr>])\<rparr>))"

definition peer_kind :: "crates \<Rightarrow> string \<Rightarrow> dbs \<Rightarrow> string option result \<times> dbs" where
  "peer_kind cr pubkey =
     query cr (\<lambda>db. Inr (map_option pr_kind (find (\<lambda>r. pr_pubkey r = pubkey) (db_peers db)), db))"

definition peer_into_record :: "peer_row \<Rightarrow> peer_record" where
  "peer_into_record r = \<lparr>rec_pubkey = pr_pubkey r, rec_handle = pr_handle r, rec_metadata = pr_metadata r,
     rec_first_seen = pr_first_seen r, rec_last_seen = pr_last_seen r\<rparr>"

definition get_peer :: "crates \<Rightarrow> string \<Rightarrow> dbs \<Rightarrow> peer_record option result \<times> dbs" where
  "get_peer cr pubkey =
     query cr (\<lambda>db. Inr (map_option peer_into_record (find (\<lambda>r. pr_pubkey r = pubkey) (db_peers db)), db))"

section \<open>Handles\<close>

definition select_handle_of :: "string \<Rightarrow> database \<Rightarrow> string option" where
  "select_handle_of pubkey db = map_option hr_handle (find (\<lambda>r. hr_pubkey r = pubkey) (db_handles db))"

definition select_owner_of :: "string \<Rightarrow> database \<Rightarrow> string option" where
  "select_owner_of h db = map_option hr_pubkey (find (\<lambda>r. hr_handle r = h) (db_handles db))"

definition insert_handle :: "int \<Rightarrow> string \<Rightarrow> string \<Rightarrow> database \<Rightarrow> string + unit \<times> database" where
  "insert_handle now h pubkey db =
     (if h \<in> hr_handle ` set (db_handles db) then Inl ''handles_pkey''
      else if pubkey \<notin> pr_pubkey ` set (db_peers db) then Inl ''handles_pubkey_fkey''
      else Inr ((), db\<lparr>db_handles := db_handles db @ [\<lparr>hr_handle = h, hr_pubkey = pubkey, hr_claimed_at = now\<rparr>]\<rparr>))"

definition set_peer_handle :: "string \<Rightarrow> string \<Rightarrow> database \<Rightarrow> string + unit \<times> database" where
  "set_peer_handle h pubkey db =
     (if \<exists>r \<in> set (db_peers db). pr_pubkey r = pubkey \<and> (\<exists>r' \<in> set (db_peers db). pr_pubkey r' \<noteq> pubkey \<and> pr_handle r' = Some h)
      then Inl ''peers_handle_key''
      else Inr ((), db\<lparr>db_peers := map (\<lambda>r. if pr_pubkey r = pubkey then r\<lparr>pr_handle := Some h\<rparr> else r) (db_peers db)\<rparr>))"

definition claim_body :: "crates \<Rightarrow> int \<Rightarrow> string \<Rightarrow> string \<Rightarrow> dbs \<Rightarrow> unit tx_end result \<times> dbs" where
  "claim_body cr now pubkey h s =
     qbind (query cr (\<lambda>d. Inr (select_handle_of pubkey d, d)) s) (\<lambda>existing s.
     case existing of
       Some existing_handle \<Rightarrow>
         if existing_handle = h then (Inr (Rollback (Inr ())), s)
         else (Inr (Rollback (Inl HandleAlreadyOwned)), s)
     | None \<Rightarrow>
         qbind (query cr (\<lambda>d. Inr (select_owner_of h d, d)) s) (\<lambda>taken s.
         if taken \<noteq> None then (Inr (Rollback (Inl HandleTaken)), s)
         else
           qbind (query cr (insert_handle now h pubkey) s) (\<lambda>_ s.
           qbind (query cr (set_peer_handle h pubkey) s) (\<lambda>_ s.
           (Inr (Commit ()), s)))))"

definition claim_handle :: "crates \<Rightarrow> int \<Rightarrow> string \<Rightarrow> string \<Rightarrow> dbs \<Rightarrow> unit result \<times> dbs" where
  "claim_handle cr now pubkey h = in_tx cr (claim_body cr now pubkey h)"

definition resolve_handle :: "crates \<Rightarrow> string \<Rightarrow> dbs \<Rightarrow> string option result \<times> dbs" where
  "resolve_handle cr h = query cr (\<lambda>db. Inr (select_owner_of h db, db))"

section \<open>Teams\<close>

definition upsert_team :: "crates \<Rightarrow> int \<Rightarrow> uuid \<Rightarrow> uuid option \<Rightarrow> string \<Rightarrow> string \<Rightarrow> dbs \<Rightarrow> uuid result \<times> dbs" where
  "upsert_team cr now fresh team_id name admin_pubkey =
     (case team_id of
        Some tid \<Rightarrow>
          query cr (\<lambda>db. Inr (tid,
            db\<lparr>db_teams :=
              (if tid \<in> tr_team_id ` set (db_teams db)
               then map (\<lambda>r. if tr_team_id r = tid then r\<lparr>tr_name := name\<rparr> else r) (db_teams db)
               else db_teams db @ [\<lparr>tr_team_id = tid, tr_name = name, tr_admin_pubkey = admin_pubkey, tr_created_at = now\<rparr>])\<rparr>))
      | None \<Rightarrow>
          query cr (\<lambda>db.
            if fresh \<in> tr_team_id ` set (db_teams db) then Inl ''teams_pkey''
            else Inr (fresh,
              db\<lparr>db_teams := db_teams db @
                [\<lparr>tr_team_id = fresh, tr_name = name, tr_admin_pubkey = admin_pubkey, tr_created_at = now\<rparr>]\<rparr>)))"

definition add_team_member :: "crates \<Rightarrow> int \<Rightarrow> uuid \<Rightarrow> string \<Rightarrow> string \<Rightarrow> dbs \<Rightarrow> unit result \<times> dbs" where
  "add_team_member cr now team_id member_pubkey admin_signature =
     query cr (\<lambda>db.
       if team_id \<notin> tr_team_id ` set (db_teams db) then Inl ''team_members_team_id_fkey''
       else Inr ((),
         db\<lparr>db_members :=
           (if \<exists>r \<in> set (db_members db). mr_team_id r = team_id \<and> mr_member_pubkey r = member_pubkey
            then map (\<lambda>r. if mr_team_id r = team_id \<and> mr_member_pubkey r = member_pubkey
                          then r\<lparr>mr_admin_signature := admin_signature\<rparr> else r) (db_members db)
            else db_members db @ [\<lparr>mr_team_id = team_id, mr_member_pubkey = member_pubkey,
                   mr_admin_signature = admin_signature, mr_joined_at = now\<rparr>])\<rparr>))"

definition member_into_record :: "member_row \<Rightarrow> team_member_record" where
  "member_into_record r = \<lparr>rec_m_team_id = mr_team_id r, rec_m_pubkey = mr_member_pubkey r,
     rec_m_signature = mr_admin_signature r, rec_m_joined_at = mr_joined_at r\<rparr>"

text \<open>\<open>ORDER BY joined_at ASC\<close> as a stable sort; SQL leaves the order of equal times open.\<close>

definition team_members :: "crates \<Rightarrow> uuid \<Rightarrow> dbs \<Rightarrow> team_member_record list result \<times> dbs" where
  "team_members cr team_id =
     query cr (\<lambda>db. Inr (map member_into_record
       (sort_key mr_joined_at (filter (\<lambda>r. mr_team_id r = team_id) (db_members db))), db))"

definition team_into_record :: "team_row \<Rightarrow> team_record" where
  "team_into_record r = \<lparr>rec_team_id = tr_team_id r, rec_name = tr_name r,
     rec_admin_pubkey = tr_admin_pubkey r, rec_created_at = tr_created_at r\<rparr>"

definition get_team :: "crates \<Rightarrow> uuid \<Rightarrow> dbs \<Rightarrow> team_record option result \<times> dbs" where
  "get_team cr team_id =
     query cr (\<lambda>db. Inr (map_option team_into_record (find (\<lambda>r. tr_team_id r = team_id) (db_teams db)), db))"

section \<open>What a round trip can do\<close>

text \<open>Whatever the outcome, a statement is done in full or not at all.\<close>

lemma query_db:
  "fst (snd (query cr stmt (db, xs))) = db \<or> (\<exists>a. stmt db = Inr (a, fst (snd (query cr stmt (db, xs)))))"
  by (auto simp: query_def Let_def split: prod.split outcome.split sum.split)

lemma query_ok:
  "query cr stmt (db, xs) = (Inr a, db', ys) \<longleftrightarrow> fst (take_outcome xs) = Works \<and> ys = snd (take_outcome xs) \<and> stmt db = Inr (a, db')"
  by (auto simp: query_def Let_def split: prod.split outcome.split sum.split)

lemma query_works [simp]:
  "query cr stmt (db, []) = (case stmt db of Inl v \<Rightarrow> Inl (Database (pg_violation cr v)) | Inr (a, _) \<Rightarrow> Inr a,
     case stmt db of Inl v \<Rightarrow> db | Inr (_, db') \<Rightarrow> db', [])"
  by (auto simp: query_def split: prod.split sum.split)

lemma query_read: "stmt db = Inr (a, db) \<Longrightarrow> fst (snd (query cr stmt (db, xs))) = db"
  using query_db [of cr stmt db xs] by auto

lemma qbind_simps [simp]: "qbind (Inl e, s) f = (Inl e, s)" "qbind (Inr a, s) f = f a s"
  by (simp_all add: qbind_def)

lemma qbind_ok:
  "qbind m f = (Inr b, t) \<longleftrightarrow> (\<exists>a s. m = (Inr a, s) \<and> f a s = (Inr b, t))"
  by (auto simp: qbind_def split: prod.split sum.split)

lemma in_tx_cases:
  obtains (not_begun) e ys where "in_tx cr body (db, xs) = (Inl e, db, ys)"
  | (begun) ys res work zs where "body (db, ys) = (res, work, zs)"
      "in_tx cr body (db, xs) =
        (case res of Inl e \<Rightarrow> (Inl e, db, zs)
         | Inr (Rollback r') \<Rightarrow> qbind (query cr (\<lambda>d. Inr ((), d)) (db, zs)) (\<lambda>_ s2. (r', s2))
         | Inr (Commit a) \<Rightarrow> query cr (\<lambda>_. Inr (a, work)) (db, zs))"
proof (cases "query cr (\<lambda>d. Inr ((), d)) (db, xs)")
  case (fields r db1 ys)
  have db1: "db1 = db" using query_read [of "\<lambda>d. Inr ((), d)" db "()" cr xs] fields by simp
  show ?thesis
  proof (cases r)
    case (Inl e)
    then show ?thesis using fields db1 by (intro not_begun [of e ys]) (simp add: in_tx_def)
  next
    case (Inr u)
    obtain res work zs where body: "body (db, ys) = (res, work, zs)" by (metis prod_cases3)
    then show ?thesis
      using fields Inr db1 by (intro begun [OF body]) (simp add: in_tx_def split: sum.split tx_end.split)
  qed
qed

text \<open>A transaction leaves the tables as they were unless its body ran through to the commit.\<close>

lemma in_tx_db:
  "fst (snd (in_tx cr body (db, xs))) = db \<or>
   (\<exists>ys a ys'. body (db, ys) = (Inr (Commit a), fst (snd (in_tx cr body (db, xs))), ys'))"
proof (cases rule: in_tx_cases [of cr body db xs])
  case (begun ys res work zs)
  consider e where "res = Inl e" | r' where "res = Inr (Rollback r')" | a where "res = Inr (Commit a)"
    by (metis sumE tx_end.exhaust)
  then show ?thesis
  proof cases
    case 2
    then have "fst (snd (in_tx cr body (db, xs))) = fst (snd (query cr (\<lambda>d. Inr ((), d)) (db, zs)))"
      by (simp add: begun(2) qbind_def split: prod.split sum.split)
    then show ?thesis using query_read [of "\<lambda>d. Inr ((), d)" db "()" cr zs] by simp
  next
    case (3 a)
    then show ?thesis using query_db [of cr "\<lambda>_. Inr (a, work)" db zs] begun by auto
  qed (simp add: begun(2))
qed simp

lemma in_tx_ok:
  assumes "in_tx cr body (db, xs) = (Inr a, db', ws)"
  obtains (commit) ys zs where "body (db, ys) = (Inr (Commit a), db', zs)"
  | (rollback) ys work zs where "body (db, ys) = (Inr (Rollback (Inr a)), work, zs)" "db' = db"
proof (cases rule: in_tx_cases [of cr body db xs])
  case (begun ys res work zs)
  consider e where "res = Inl e" | r' where "res = Inr (Rollback r')" | a' where "res = Inr (Commit a')"
    by (metis sumE tx_end.exhaust)
  then show ?thesis
  proof cases
    case 2
    with begun(2) assms have "qbind (query cr (\<lambda>d. Inr ((), d)) (db, zs)) (\<lambda>_ s2. (r', s2)) = (Inr a, db', ws)"
      by simp
    then have "r' = Inr a" "db' = db" by (auto simp: qbind_ok query_ok)
    with begun(1) 2 show ?thesis by (intro rollback [of ys work zs]) simp_all
  next
    case (3 a')
    with begun(2) assms have "query cr (\<lambda>_. Inr (a', work)) (db, zs) = (Inr a, db', ws)" by simp
    then have "a' = a" "work = db'" by (auto simp: query_ok)
    with begun(1) 3 show ?thesis by (intro commit [of ys zs]) simp
  qed (use begun assms in simp)
qed (use assms in simp)

text \<open>The tables after a claim that went through.\<close>

definition claimed :: "int \<Rightarrow> string \<Rightarrow> string \<Rightarrow> database \<Rightarrow> database" where
  "claimed now pubkey h db =
     db\<lparr>db_handles := db_handles db @ [\<lparr>hr_handle = h, hr_pubkey = pubkey, hr_claimed_at = now\<rparr>],
        db_peers := map (\<lambda>r. if pr_pubkey r = pubkey then r\<lparr>pr_handle := Some h\<rparr> else r) (db_peers db)\<rparr>"

definition may_claim :: "string \<Rightarrow> string \<Rightarrow> database \<Rightarrow> bool" where
  "may_claim pubkey h db \<longleftrightarrow> select_handle_of pubkey db = None \<and> select_owner_of h db = None \<and>
     pubkey \<in> pr_pubkey ` set (db_peers db) \<and>
     (\<forall>r \<in> set (db_peers db). pr_pubkey r \<noteq> pubkey \<longrightarrow> pr_handle r \<noteq> Some h)"

lemma select_none:
  "select_handle_of pk db = None \<longleftrightarrow> pk \<notin> hr_pubkey ` set (db_handles db)"
  "select_owner_of h db = None \<longleftrightarrow> h \<notin> hr_handle ` set (db_handles db)"
  by (auto simp: select_handle_of_def select_owner_of_def find_None_iff)

lemma claim_body_commit:
  assumes "claim_body cr now pk h (db, ys) = (Inr (Commit ()), work, zs)"
  shows "may_claim pk h db" and "work = claimed now pk h db"
  using assms unfolding claim_body_def
  by (auto simp: qbind_ok query_ok insert_handle_def set_peer_handle_def may_claim_def claimed_def
      select_none image_iff split: option.splits if_splits)

lemma claim_handle_db:
  "fst (snd (claim_handle cr now pk h (db, xs))) = db \<or>
   may_claim pk h db \<and> fst (snd (claim_handle cr now pk h (db, xs))) = claimed now pk h db"
  using in_tx_db [of cr "claim_body cr now pk h" db xs] claim_body_commit [of cr now pk h db]
  unfolding claim_handle_def by (metis (full_types) unit.exhaust)

section \<open>The invariant of the tables\<close>

text \<open>The schema's keys, references and checks, and the broker's own rule: a public key owns
  one handle at most, and the \<open>handle\<close> column of \<open>peers\<close> says which.\<close>

definition schema_inv :: "database \<Rightarrow> bool" where
  "schema_inv db \<longleftrightarrow>
     distinct (map pr_pubkey (db_peers db)) \<and> distinct (map hr_handle (db_handles db)) \<and>
     distinct (map tr_team_id (db_teams db)) \<and>
     distinct (map (\<lambda>r. (mr_team_id r, mr_member_pubkey r)) (db_members db)) \<and>
     hr_pubkey ` set (db_handles db) \<subseteq> pr_pubkey ` set (db_peers db) \<and>
     mr_team_id ` set (db_members db) \<subseteq> tr_team_id ` set (db_teams db) \<and>
     pr_kind ` set (db_peers db) \<subseteq> {''user'', ''machine''}"

definition handles_inv :: "database \<Rightarrow> bool" where
  "handles_inv db \<longleftrightarrow> distinct (map hr_pubkey (db_handles db)) \<and>
     (\<forall>r \<in> set (db_peers db). pr_handle r = select_handle_of (pr_pubkey r) db)"

definition db_inv :: "database \<Rightarrow> bool" where
  "db_inv db \<longleftrightarrow> schema_inv db \<and> handles_inv db"

datatype db_op =
    UpsertPeer int string
  | UpsertPeerKind int string string
  | ClaimHandle int string string
  | UpsertTeam int uuid "uuid option" string string
  | AddMember int uuid string string

fun db_step :: "crates \<Rightarrow> dbs \<Rightarrow> db_op \<Rightarrow> dbs" where
  "db_step cr s (UpsertPeer now pk) = snd (upsert_peer cr now pk s)"
| "db_step cr s (UpsertPeerKind now pk kind) = snd (upsert_peer_with_kind cr now pk kind s)"
| "db_step cr s (ClaimHandle now pk h) = snd (claim_handle cr now pk h s)"
| "db_step cr s (UpsertTeam now fresh tid name admin) = snd (upsert_team cr now fresh tid name admin s)"
| "db_step cr s (AddMember now tid pk sig) = snd (add_team_member cr now tid pk sig s)"

lemma inv_query:
  assumes "P db" and "\<And>a db'. stmt db = Inr (a, db') \<Longrightarrow> P db'"
  shows "P (fst (snd (query cr stmt (db, xs))))"
  using query_db [of cr stmt db xs] assms by metis

lemma map_update:
  "(\<And>r. key (f r) = key r) \<Longrightarrow> map key (map (\<lambda>r. if P r then f r else r) xs) = map key xs"
  by simp

text \<open>Statements on \<open>peers\<close> that keep keys, handles and valid kinds keep the invariant.\<close>

lemma db_inv_peers:
  assumes "db_inv db"
    and "map pr_pubkey ps = map pr_pubkey (db_peers db) @ new" and "set new \<inter> pr_pubkey ` set (db_peers db) = {}" and "distinct new"
    and "\<forall>r \<in> set ps. pr_kind r \<in> {''user'', ''machine''} \<and> pr_handle r = select_handle_of (pr_pubkey r) db"
  shows "db_inv (db\<lparr>db_peers := ps\<rparr>)"
proof -
  have "pr_pubkey ` set ps = pr_pubkey ` set (db_peers db) \<union> set new"
    using assms(2) by (metis set_append set_map)
  with assms show ?thesis
    unfolding db_inv_def schema_inv_def handles_inv_def select_handle_of_def by auto
qed

lemma select_handle_none:
  "db_inv db \<Longrightarrow> pk \<notin> pr_pubkey ` set (db_peers db) \<Longrightarrow> select_handle_of pk db = None"
  unfolding db_inv_def schema_inv_def select_none by blast

lemma db_inv_upsert:
  assumes "db_inv db"
    and "\<And>r. pr_pubkey (f r) = pr_pubkey r \<and> pr_handle (f r) = pr_handle r"
    and "\<And>r. pr_kind r \<in> {''user'', ''machine''} \<Longrightarrow> pr_kind (f r) \<in> {''user'', ''machine''}"
    and "pr_pubkey new = pk" and "pr_handle new = None" and "pr_kind new \<in> {''user'', ''machine''}"
  shows "db_inv (db\<lparr>db_peers := (if pk \<in> pr_pubkey ` set (db_peers db)
      then map (\<lambda>r. if pr_pubkey r = pk then f r else r) (db_peers db) else db_peers db @ [new])\<rparr>)"
proof (cases "pk \<in> pr_pubkey ` set (db_peers db)")
  case True
  have old: "\<forall>r \<in> set (db_peers db). pr_kind r \<in> {''user'', ''machine''} \<and> pr_handle r = select_handle_of (pr_pubkey r) db"
    using assms(1) unfolding db_inv_def schema_inv_def handles_inv_def by auto
  have "db_inv (db\<lparr>db_peers := map (\<lambda>r. if pr_pubkey r = pk then f r else r) (db_peers db)\<rparr>)"
  proof (rule db_inv_peers [OF assms(1), where new = "[]"])
    show "map pr_pubkey (map (\<lambda>r. if pr_pubkey r = pk then f r else r) (db_peers db)) = map pr_pubkey (db_peers db) @ []"
      using map_update [of pr_pubkey f] assms(2) by simp
    show "\<forall>r\<in>set (map (\<lambda>r. if pr_pubkey r = pk then f r else r) (db_peers db)).
       pr_kind r \<in> {''user'', ''machine''} \<and> pr_handle r = select_handle_of (pr_pubkey r) db"
      using old assms(2,3) by fastforce
  qed simp_all
  with True show ?thesis by simp
next
  case False
  have old: "\<forall>r \<in> set (db_peers db). pr_kind r \<in> {''user'', ''machine''} \<and> pr_handle r = select_handle_of (pr_pubkey r) db"
    using assms(1) unfolding db_inv_def schema_inv_def handles_inv_def by auto
  have "db_inv (db\<lparr>db_peers := db_peers db @ [new]\<rparr>)"
    using old assms(4-6) False select_handle_none [OF assms(1) False]
    by (intro db_inv_peers [OF assms(1), where new = "[pk]"]) auto
  with False show ?thesis by simp
qed

lemma claimed_handle_of:
  assumes "pk \<notin> hr_pubkey ` set (db_handles db)"
  shows "select_handle_of p (claimed now pk h db) = (if p = pk then Some h else select_handle_of p db)"
  using assms by (auto simp: select_handle_of_def claimed_def find_append dest!: find_SomeD split: option.split)

lemma db_inv_claimed:
  assumes "db_inv db" and "may_claim pk h db"
  shows "db_inv (claimed now pk h db)"
proof -
  let ?db = "claimed now pk h db"
  have keys: "map pr_pubkey (db_peers ?db) = map pr_pubkey (db_peers db)"
    and kinds: "map pr_kind (db_peers ?db) = map pr_kind (db_peers db)"
    unfolding claimed_def using map_update [of _ "\<lambda>r. r\<lparr>pr_handle := Some h\<rparr>"] by simp_all
  have rest: "db_handles ?db = db_handles db @ [\<lparr>hr_handle = h, hr_pubkey = pk, hr_claimed_at = now\<rparr>]"
    "db_teams ?db = db_teams db" "db_members ?db = db_members db"
    by (simp_all add: claimed_def)
  have fresh: "pk \<notin> hr_pubkey ` set (db_handles db)" "h \<notin> hr_handle ` set (db_handles db)"
    and peer: "pk \<in> pr_pubkey ` set (db_peers db)"
    using assms(2) unfolding may_claim_def select_none by auto
  have "schema_inv (claimed now pk h db)"
    using assms(1) fresh peer unfolding db_inv_def schema_inv_def rest keys
      set_map [of pr_pubkey, symmetric] set_map [of pr_kind, symmetric] kinds by auto
  moreover have "handles_inv (claimed now pk h db)"
    using assms(1) fresh claimed_handle_of [OF fresh(1)] unfolding db_inv_def handles_inv_def
    by (auto simp: claimed_def)
  ultimately show ?thesis by (simp add: db_inv_def)
qed

lemma db_inv_teams:
  assumes "db_inv db"
    and "distinct (map tr_team_id ts)" and "set (map tr_team_id (db_teams db)) \<subseteq> set (map tr_team_id ts)"
  shows "db_inv (db\<lparr>db_teams := ts\<rparr>)"
proof -
  have "mr_team_id ` set (db_members db) \<subseteq> tr_team_id ` set (db_teams db)"
    using assms(1) by (simp add: db_inv_def schema_inv_def)
  also have "\<dots> \<subseteq> tr_team_id ` set ts" using assms(3) by simp
  finally have "mr_team_id ` set (db_members db) \<subseteq> tr_team_id ` set ts" .
  with assms show ?thesis
    unfolding db_inv_def schema_inv_def handles_inv_def select_handle_of_def by simp
qed

lemma db_inv_upsert_team:
  assumes "db_inv db"
  shows "db_inv (fst (snd (upsert_team cr now fresh tid name admin (db, xs))))"
proof -
  have d: "distinct (map tr_team_id (db_teams db))" using assms by (simp add: db_inv_def schema_inv_def)
  have old: "db_inv (db\<lparr>db_teams := map (\<lambda>r. if P r then r\<lparr>tr_name := name\<rparr> else r) (db_teams db)\<rparr>)" for P
  proof -
    have u: "map tr_team_id (map (\<lambda>r. if P r then r\<lparr>tr_name := name\<rparr> else r) (db_teams db)) = map tr_team_id (db_teams db)"
      by (rule map_update) simp
    show ?thesis by (rule db_inv_teams [OF assms]) (unfold u, rule d, rule subset_refl)
  qed
  have new: "db_inv (db\<lparr>db_teams := db_teams db @ [r]\<rparr>)" if "tr_team_id r \<notin> tr_team_id ` set (db_teams db)" for r
    by (rule db_inv_teams [OF assms]) (use d that in auto)
  show ?thesis
  proof (cases tid)
    case None
    show ?thesis unfolding upsert_team_def None option.case
      by (rule inv_query [of db_inv, OF assms]) (use new in \<open>auto split: if_splits\<close>)
  next
    case (Some t)
    show ?thesis unfolding upsert_team_def Some option.case
      by (rule inv_query [of db_inv, OF assms]) (use old new in \<open>auto split: if_splits\<close>)
  qed
qed

lemma db_inv_members:
  assumes "db_inv db"
    and "distinct (map (\<lambda>r. (mr_team_id r, mr_member_pubkey r)) ms)"
    and "set (map mr_team_id ms) \<subseteq> tr_team_id ` set (db_teams db)"
  shows "db_inv (db\<lparr>db_members := ms\<rparr>)"
  using assms unfolding db_inv_def schema_inv_def handles_inv_def select_handle_of_def by simp

lemma db_inv_add_member:
  assumes "db_inv db"
  shows "db_inv (fst (snd (add_team_member cr now tid pk sig (db, xs))))"
proof -
  have d: "distinct (map (\<lambda>r. (mr_team_id r, mr_member_pubkey r)) (db_members db))"
    and fk: "set (map mr_team_id (db_members db)) \<subseteq> tr_team_id ` set (db_teams db)"
    using assms by (simp_all add: db_inv_def schema_inv_def)
  have old: "db_inv (db\<lparr>db_members := map (\<lambda>r. if P r then r\<lparr>mr_admin_signature := sig\<rparr> else r) (db_members db)\<rparr>)" for P
  proof -
    have k: "map (\<lambda>r. (mr_team_id r, mr_member_pubkey r)) (map (\<lambda>r. if P r then r\<lparr>mr_admin_signature := sig\<rparr> else r) (db_members db)) =
        map (\<lambda>r. (mr_team_id r, mr_member_pubkey r)) (db_members db)"
      by (rule map_update) simp
    have t: "map mr_team_id (map (\<lambda>r. if P r then r\<lparr>mr_admin_signature := sig\<rparr> else r) (db_members db)) = map mr_team_id (db_members db)"
      by (rule map_update) simp
    show ?thesis by (rule db_inv_members [OF assms]) (unfold k t, rule d, rule fk)
  qed
  have new: "db_inv (db\<lparr>db_members := db_members db @ [r]\<rparr>)"
    if "mr_team_id r \<in> tr_team_id ` set (db_teams db)"
      "\<not> (\<exists>r' \<in> set (db_members db). mr_team_id r' = mr_team_id r \<and> mr_member_pubkey r' = mr_member_pubkey r)" for r
    by (rule db_inv_members [OF assms]) (use d fk that in auto)
  show ?thesis unfolding add_team_member_def
  proof (rule inv_query [of db_inv, OF assms], goal_cases)
    case (1 a db')
    then show ?case using old new
      by (cases "\<exists>r \<in> set (db_members db). mr_team_id r = tid \<and> mr_member_pubkey r = pk") (auto split: if_splits)
  qed
qed

lemma db_inv_upsert_peer:
  assumes "db_inv db"
  shows "db_inv (fst (snd (upsert_peer cr now pk (db, xs))))"
    and "db_inv (fst (snd (upsert_peer_with_kind cr now pk kind (db, xs))))"
proof -
  show "db_inv (fst (snd (upsert_peer cr now pk (db, xs))))"
    unfolding upsert_peer_def
    by (rule inv_query [of db_inv, OF assms])
      (use db_inv_upsert [OF assms, of "\<lambda>r. r\<lparr>pr_last_seen := now\<rparr>" "default_peer_row now pk" pk] in \<open>simp add: default_peer_row_def\<close>)
  show "db_inv (fst (snd (upsert_peer_with_kind cr now pk kind (db, xs))))"
    unfolding upsert_peer_with_kind_def
    by (rule inv_query [of db_inv, OF assms])
      (use db_inv_upsert [OF assms, of "\<lambda>r. r\<lparr>pr_kind := kind, pr_last_seen := now\<rparr>" "(default_peer_row now pk)\<lparr>pr_kind := kind\<rparr>" pk]
       in \<open>simp add: default_peer_row_def split: if_splits\<close>)
qed

interpretation tables: event_machine "db_step cr" "\<lambda>_ _. True" "\<lambda>s. db_inv (fst s)" for cr
proof
  fix s :: dbs and e
  assume inv: "db_inv (fst s)"
  obtain db xs where s: "s = (db, xs)" by fastforce
  with inv have inv: "db_inv db" by simp
  show "db_inv (fst (db_step cr s e))"
  proof (cases e)
    case (ClaimHandle now pk h)
    then show ?thesis using claim_handle_db [of cr now pk h db xs] db_inv_claimed [OF inv] inv by (auto simp: s)
  qed (simp_all add: s inv db_inv_upsert_peer db_inv_upsert_team db_inv_add_member)
qed

lemma db_inv_empty: "db_inv empty_db"
  by (simp add: db_inv_def schema_inv_def handles_inv_def empty_db_def)

section \<open>Ownership of handles\<close>

lemma owner_iff:
  "distinct (map hr_handle (db_handles db)) \<Longrightarrow> select_owner_of h db = Some pk \<longleftrightarrow> (\<exists>r \<in> set (db_handles db). hr_handle r = h \<and> hr_pubkey r = pk)"
  using find_key [of hr_handle "db_handles db"]
  by (auto simp: select_owner_of_def dest: find_SomeD)

lemma handle_of_iff:
  "distinct (map hr_pubkey (db_handles db)) \<Longrightarrow> select_handle_of pk db = Some h \<longleftrightarrow> (\<exists>r \<in> set (db_handles db). hr_handle r = h \<and> hr_pubkey r = pk)"
  using find_key [of hr_pubkey "db_handles db"]
  by (auto simp: select_handle_of_def dest: find_SomeD)

text \<open>The two columns of the handle table are inverse to each other.\<close>

lemma owner_handle: "db_inv db \<Longrightarrow> select_owner_of h db = Some pk \<longleftrightarrow> select_handle_of pk db = Some h"
  by (simp add: db_inv_def schema_inv_def handles_inv_def owner_iff handle_of_iff)

lemma db_run_inv: "db_inv (fst (foldl (db_step cr) (empty_db, xs) ops))"
  by (rule tables.foldl_inv) (simp_all add: db_inv_empty)

text \<open>
  Handles are exclusive in both directions when operations do not overlap: in every sequence of operations,
  whichever round trips fail, a handle has one owner, a public key owns one handle at most, and the
  owner's row in \<open>peers\<close> carries that handle. (\<open>Claim_Race\<close> has what of this overlapping claims keep.)
\<close>
theorem handle_ownership_exclusive:
  "let db = fst (foldl (db_step cr) (empty_db, xs) ops) in
    (select_owner_of h db = Some pk \<longleftrightarrow> select_handle_of pk db = Some h) \<and>
    card {r \<in> set (db_handles db). hr_handle r = h} \<le> 1 \<and>
    card {r \<in> set (db_handles db). hr_pubkey r = pk} \<le> 1 \<and>
    (\<forall>r. r \<in> set (db_peers db) \<longrightarrow> (pr_handle r = Some h \<longleftrightarrow> select_owner_of h db = Some (pr_pubkey r)))"
proof -
  let ?db = "fst (foldl (db_step cr) (empty_db, xs) ops)"
  have inv: "db_inv ?db" by (rule db_run_inv)
  have one: "card {r \<in> set rs. key r = k} \<le> 1" if "distinct (map key rs)" for key and rs :: "handle_row list" and k :: string
    using that by (auto simp: card_le_Suc0_iff_eq distinct_map dest: inj_onD)
  from inv show ?thesis
    unfolding Let_def One_nat_def
    by (simp add: owner_handle one [unfolded One_nat_def] db_inv_def schema_inv_def handles_inv_def)
qed

lemma owner_stable_step:
  assumes "select_owner_of h (fst s) = Some pk"
  shows "select_owner_of h (fst (db_step cr s e)) = Some pk"
proof -
  obtain db xs where s: "s = (db, xs)" by fastforce
  have q: "select_owner_of h (fst (snd (query cr stmt (db, xs)))) = Some pk"
    if "\<And>a db'. stmt db = Inr (a, db') \<Longrightarrow> db_handles db' = db_handles db" for stmt :: "database \<Rightarrow> string + 'a \<times> database"
    using query_db [of cr stmt db xs] assms that by (auto simp: s select_owner_of_def)
  have claim: "select_owner_of h (claimed now p k db) = Some pk" for now p k
    using assms by (auto simp: s select_owner_of_def claimed_def find_append split: option.split)
  show ?thesis
  proof (cases e)
    case (ClaimHandle now p k)
    then show ?thesis using claim_handle_db [of cr now p k db xs] claim assms by (auto simp: s)
  next
    case (UpsertTeam now fresh tid name admin)
    then show ?thesis by (cases tid) (auto simp: s upsert_team_def intro!: q split: if_splits)
  qed (auto simp: s upsert_peer_def upsert_peer_with_kind_def add_team_member_def intro!: q split: if_splits)
qed

text \<open>
  A handle never changes hands: once a public key owns a handle, it owns it after every
  further sequence of database operations of any peer, with any failures.
\<close>
theorem handle_owner_stable:
  assumes "select_owner_of h (fst s) = Some pk"
  shows "select_owner_of h (fst (foldl (db_step cr) s ops)) = Some pk"
  using assms by (induction ops arbitrary: s) (simp_all add: owner_stable_step)

lemma claim_handle_answers:
  assumes "db_inv db"
  shows "claim_handle cr now pk h (db, []) =
    (case select_handle_of pk db of
       Some h' \<Rightarrow> (if h' = h then Inr () else Inl HandleAlreadyOwned, db, [])
     | None \<Rightarrow>
         if select_owner_of h db \<noteq> None then (Inl HandleTaken, db, [])
         else if pk \<notin> pr_pubkey ` set (db_peers db)
         then (Inl (Database (pg_violation cr ''handles_pubkey_fkey'')), db, [])
         else (Inr (), claimed now pk h db, []))"
proof (cases "select_handle_of pk db")
  case None
  show ?thesis
  proof (cases "select_owner_of h db = None \<and> pk \<in> pr_pubkey ` set (db_peers db)")
    case True
    have "pr_handle r \<noteq> Some h" if "r \<in> set (db_peers db)" for r
      using that True assms owner_handle [OF assms, of h "pr_pubkey r"]
      by (simp add: db_inv_def handles_inv_def)
    moreover have "h \<notin> hr_handle ` set (db_handles db)" using True select_none(2) by blast
    ultimately show ?thesis using None True
      by (simp add: claim_handle_def in_tx_def claim_body_def insert_handle_def set_peer_handle_def claimed_def)
  next
    case False
    moreover have "select_owner_of h db = None \<Longrightarrow> h \<notin> hr_handle ` set (db_handles db)" using select_none(2) by blast
    ultimately show ?thesis using None
      by (cases "select_owner_of h db") (simp_all add: claim_handle_def in_tx_def claim_body_def insert_handle_def)
  qed
qed (simp add: claim_handle_def in_tx_def claim_body_def)

text \<open>
  A handle claim on every branch when the database answers: claiming one's own handle
  again succeeds and changes nothing, a second handle is refused with
  \<open>handle_already_owned\<close>, another's with \<open>handle_taken\<close>, and a key without a row in \<open>peers\<close>
  with a database error; otherwise the handle is recorded in both tables.
\<close>
theorem claim_handle_outcomes:
  assumes "db_inv db"
  shows "claim_handle cr now pk h (db, []) =
    (case select_handle_of pk db of
       Some h' \<Rightarrow> (if h' = h then Inr () else Inl HandleAlreadyOwned, db, [])
     | None \<Rightarrow>
         if select_owner_of h db \<noteq> None then (Inl HandleTaken, db, [])
         else if pk \<notin> pr_pubkey ` set (db_peers db)
         then (Inl (Database (pg_violation cr ''handles_pubkey_fkey'')), db, [])
         else (Inr (), claimed now pk h db, []))"
  using assms by (rule claim_handle_answers)

lemma claim_owned:
  assumes "db_inv db" and "claim_handle cr now pk h (db, xs) = (Inr (), db', xs')"
  shows "select_owner_of h db' = Some pk"
  using assms(2) [unfolded claim_handle_def]
proof (cases rule: in_tx_ok)
  case commit
  from claim_body_commit [OF commit] show ?thesis
    by (auto simp: may_claim_def select_owner_of_def claimed_def find_append split: option.split)
next
  case rollback
  then have "select_handle_of pk db = Some h"
    by (auto simp: claim_body_def qbind_ok query_ok split: option.splits if_splits)
  with rollback(2) owner_handle [OF assms(1)] show ?thesis by simp
qed

text \<open>
  (C24) An acknowledged claim holds: if a claim returns success, then whatever failures
  happened before, the claimer owns the handle and resolving it gives the claimer. And
  whatever a claim returns, it was carried out in both tables or in neither.
\<close>
theorem claim_acknowledged:
  assumes "db_inv db"
  shows "let (r, db', xs') = claim_handle cr now pk h (db, xs) in
    (r = Inr () \<longrightarrow> fst (resolve_handle cr h (db', [])) = Inr (Some pk)) \<and> db' \<in> {db, claimed now pk h db}"
proof -
  obtain r db' xs' where eq: "claim_handle cr now pk h (db, xs) = (r, db', xs')" by (metis prod_cases3)
  have "db' \<in> {db, claimed now pk h db}"
    using claim_handle_db [of cr now pk h db xs] eq by auto
  with eq claim_owned [OF assms, of cr now pk h xs] show ?thesis by (simp add: resolve_handle_def)
qed

section \<open>An example\<close>

definition demo_db_ops :: "db_op list" where
  "demo_db_ops = [UpsertPeer 0 (demo_key CHR ''1''), UpsertPeer 0 (demo_key CHR ''2''),
     ClaimHandle 1 (demo_key CHR ''1'') ''alice'']"

definition demo_db :: database where
  "demo_db = fst (foldl (db_step demo_crates) (empty_db, []) demo_db_ops)"

lemma demo_db_inv: "db_inv demo_db"
  unfolding demo_db_def by (rule db_run_inv)

lemma demo_db_eq:
  "demo_db = \<lparr>db_peers = [(default_peer_row 0 (demo_key CHR ''1''))\<lparr>pr_handle := Some ''alice''\<rparr>, default_peer_row 0 (demo_key CHR ''2'')],
     db_handles = [\<lparr>hr_handle = ''alice'', hr_pubkey = demo_key CHR ''1'', hr_claimed_at = 1\<rparr>], db_teams = [], db_members = []\<rparr>"
  by (simp add: demo_db_def demo_db_ops_def empty_db_def upsert_peer_def claim_handle_def in_tx_def claim_body_def
      select_handle_of_def select_owner_of_def insert_handle_def set_peer_handle_def default_peer_row_def)

lemma demo_db_simps [simp]:
  "select_owner_of ''alice'' demo_db = Some (demo_key CHR ''1'')" "select_owner_of ''bob'' demo_db = None"
  "select_handle_of (demo_key CHR ''1'') demo_db = Some ''alice''" "select_handle_of (demo_key CHR ''2'') demo_db = None"
  "pr_pubkey ` set (db_peers demo_db) = {demo_key CHR ''1'', demo_key CHR ''2''}"
  by (simp_all add: demo_db_eq select_owner_of_def select_handle_of_def default_peer_row_def)

theorem handle_ownership_exclusive_witness:
  "let db = fst (foldl (db_step demo_crates) (empty_db, []) demo_db_ops) in
   \<exists>r \<in> set (db_peers db). pr_handle r = Some ''alice'' \<and> select_owner_of ''alice'' db = Some (pr_pubkey r)"
proof -
  let ?r = "(default_peer_row 0 (demo_key CHR ''1''))\<lparr>pr_handle := Some ''alice''\<rparr>"
  have r: "?r \<in> set (db_peers demo_db)" "pr_handle ?r = Some ''alice''" by (simp_all add: demo_db_eq)
  with handle_ownership_exclusive [of demo_crates "[]" demo_db_ops "''alice''" "demo_key CHR ''1''"]
  show ?thesis unfolding Let_def by (fold demo_db_def) blast
qed

theorem handle_owner_stable_witness:
  "select_owner_of ''alice'' (fst (foldl (db_step demo_crates) (demo_db, [Works, Lost ''io''])
     [ClaimHandle 2 (demo_key CHR ''2'') ''alice''])) = Some (demo_key CHR ''1'')"
  by (rule handle_owner_stable) simp

theorem claim_handle_outcomes_witness:
  "claim_handle demo_crates 2 (demo_key CHR ''2'') ''alice'' (demo_db, []) = (Inl HandleTaken, demo_db, []) \<and>
   claim_handle demo_crates 2 (demo_key CHR ''1'') ''bob'' (demo_db, []) = (Inl HandleAlreadyOwned, demo_db, []) \<and>
   fst (claim_handle demo_crates 2 (demo_key CHR ''2'') ''bob'' (demo_db, [])) = Inr ()"
  by (simp add: claim_handle_outcomes [OF demo_db_inv])

theorem claim_acknowledged_witness:
  "let (r, db', xs') = claim_handle demo_crates 2 (demo_key CHR ''2'') ''bob'' (demo_db, []) in
     r = Inr () \<and> fst (resolve_handle demo_crates ''bob'' (db', [])) = Inr (Some (demo_key CHR ''2''))"
proof -
  have "fst (claim_handle demo_crates 2 (demo_key CHR ''2'') ''bob'' (demo_db, [])) = Inr ()"
    by (simp add: claim_handle_def in_tx_def claim_body_def insert_handle_def set_peer_handle_def)
       (simp add: demo_db_eq default_peer_row_def)
  with claim_acknowledged [OF demo_db_inv, of demo_crates 2 "demo_key CHR ''2''" "''bob''" "[]"]
  show ?thesis by (auto split: prod.splits)
qed

end
