(* ===== verification/Handles.thy ===== *)
theory Handles
  imports Db
begin

text \<open>
  \<open>src/handles.rs\<close>: the syntax of handles, and claiming and resolving them. \<open>len\<close> counts the
  bytes of the UTF-8 text; the loop over its characters only accepts ASCII ones, so that it
  steps byte by byte up to the first character it refuses.
\<close>

definition in_range :: "char \<Rightarrow> char \<Rightarrow> char \<Rightarrow> bool" where
  "in_range a b c = ((of_char a :: nat) \<le> of_char c \<and> (of_char c :: nat) \<le> of_char b)"

definition plain_char :: "char \<Rightarrow> bool" where
  "plain_char c = (in_range CHR ''a'' CHR ''z'' c \<or> in_range CHR ''0'' CHR ''9'' c \<or> c = CHR ''.'' \<or> c = CHR ''-'' \<or> c = CHR ''_'')"

text \<open>The number of bytes of the character that a leading byte announces.\<close>

definition utf8_width :: "char \<Rightarrow> nat" where
  "utf8_width c = (let n = of_char c :: nat in if n < 128 then 1 else if n < 224 then 2 else if n < 240 then 3 else 4)"

fun validate_chars :: "crates \<Rightarrow> nat \<Rightarrow> string \<Rightarrow> unit result" where
  "validate_chars cr at_count [] = Inr ()"
| "validate_chars cr at_count (c # cs) =
     (if plain_char c then validate_chars cr at_count cs
      else if c = CHR ''@'' then
        (if 1 < at_count + 1 then Inl (Malformed (''handle has >1 '' @ [CHR 0x27, CHR ''@'', CHR 0x27])) else validate_chars cr (at_count + 1) cs)
      else Inl (Malformed (''handle char '' @ debug_char cr (take (utf8_width c) (c # cs)) @
             '' not allowed (lowercase alnum, .-_ or single @)'')))"

definition validate_handle :: "crates \<Rightarrow> string \<Rightarrow> unit result" where
  "validate_handle cr handle =
     (let len = length handle in
      if \<not> (2 \<le> len \<and> len \<le> 64)
      then Inl (Malformed (''handle length '' @ show_nat len @ '' not in [2, 64]''))
      else validate_chars cr 0 handle)"

definition claim :: "crates \<Rightarrow> int \<Rightarrow> int \<Rightarrow> string \<Rightarrow> string \<Rightarrow> dbs \<Rightarrow> unit result \<times> dbs" where
  "claim cr now1 now2 pubkey handle s =
     (case validate_handle cr handle of
        Inl e \<Rightarrow> (Inl e, s)
      | Inr _ \<Rightarrow> qbind (upsert_peer cr now1 pubkey s) (\<lambda>_ s. claim_handle cr now2 pubkey handle s))"

definition resolve :: "crates \<Rightarrow> string \<Rightarrow> dbs \<Rightarrow> string option result \<times> dbs" where
  "resolve cr handle s = resolve_handle cr handle s"

section \<open>The syntax\<close>

lemma validate_chars_ok:
  "n \<le> 1 \<Longrightarrow> validate_chars cr n s = Inr () \<longleftrightarrow>
     (\<forall>c \<in> set s. plain_char c \<or> c = CHR ''@'') \<and> n + count_list s CHR ''@'' \<le> 1"
proof (induction s arbitrary: n)
  case (Cons c s)
  have "\<not> plain_char CHR ''@''" by (simp add: plain_char_def in_range_def)
  with Cons show ?case by (cases "n = 0") (auto simp: le_Suc_eq)
qed simp

lemma handle_alphabet:
  "\<forall>c. (plain_char c \<or> c = CHR ''@'') \<longleftrightarrow> c \<in> set ''abcdefghijklmnopqrstuvwxyz0123456789.-_@''"
  by code_simp

text \<open>
  (C40) The handles that are accepted: between 2 and 64 bytes, lowercase letters, digits, dots,
  dashes and underscores, and at most one at-sign.
\<close>
theorem validate_handle_accepts:
  "validate_handle cr h = Inr () \<longleftrightarrow>
     2 \<le> length h \<and> length h \<le> 64 \<and> count_list h CHR ''@'' \<le> 1 \<and>
     set h \<subseteq> set ''abcdefghijklmnopqrstuvwxyz0123456789.-_@''"
proof -
  have "(\<forall>c \<in> set h. plain_char c \<or> c = CHR ''@'') \<longleftrightarrow> set h \<subseteq> set ''abcdefghijklmnopqrstuvwxyz0123456789.-_@''"
    unfolding handle_alphabet [rule_format] by (rule subset_eq [symmetric])
  then show ?thesis unfolding validate_handle_def Let_def by (auto simp only: validate_chars_ok split: if_splits)
qed

section \<open>Claims\<close>

lemma upsert_peer_works:
  "upsert_peer cr now pk (db, []) = (Inr (), fst (snd (upsert_peer cr now pk (db, []))), [])"
  by (simp add: upsert_peer_def)

lemma upsert_peer_effect:
  "db_handles (fst (snd (upsert_peer cr now pk (db, xs)))) = db_handles db"
  "fst (upsert_peer cr now pk (db, xs)) = Inr () \<Longrightarrow>
     pk \<in> pr_pubkey ` set (db_peers (fst (snd (upsert_peer cr now pk (db, xs)))))"
proof -
  have keys: "pr_pubkey ` set (map (\<lambda>r. if pr_pubkey r = pk then r\<lparr>pr_last_seen := now\<rparr> else r) (db_peers db)) =
      pr_pubkey ` set (db_peers db)"
    using map_update [of pr_pubkey "\<lambda>r. r\<lparr>pr_last_seen := now\<rparr>" "\<lambda>r. pr_pubkey r = pk" "db_peers db"]
    by (metis (no_types, lifting) peer_row.select_convs(1) peer_row.surjective peer_row.update_convs(5) set_map)
  show "db_handles (fst (snd (upsert_peer cr now pk (db, xs)))) = db_handles db"
    unfolding upsert_peer_def by (rule inv_query) simp_all
  show "pk \<in> pr_pubkey ` set (db_peers (fst (snd (upsert_peer cr now pk (db, xs)))))"
    if "fst (upsert_peer cr now pk (db, xs)) = Inr ()"
    using that keys unfolding upsert_peer_def query_def Let_def
    by (cases "pk \<in> pr_pubkey ` set (db_peers db)")
      (simp_all add: default_peer_row_def split: prod.splits outcome.splits del: set_map)
qed

text \<open>
  Claiming a handle through the service: a bad handle never reaches the database; with
  the database answering, a well-formed handle that is free is granted to a key that has none,
  whether or not the broker has seen the key before, and resolves to it from then on; and
  whenever a claim is acknowledged, the handle is well-formed and resolves to the claimer.
\<close>
theorem claim_service:
  assumes "db_inv db"
  shows "(validate_handle cr h \<noteq> Inr () \<longrightarrow> snd (claim cr t1 t2 pk h (db, xs)) = (db, xs)) \<and>
    (validate_handle cr h = Inr () \<and> select_owner_of h db = None \<and> select_handle_of pk db = None \<longrightarrow>
       fst (claim cr t1 t2 pk h (db, [])) = Inr ()) \<and>
    (fst (claim cr t1 t2 pk h (db, xs)) = Inr () \<longrightarrow>
       validate_handle cr h = Inr () \<and>
       fst (resolve cr h (fst (snd (claim cr t1 t2 pk h (db, xs))), [])) = Inr (Some pk))"
proof (intro conjI impI)
  assume "validate_handle cr h \<noteq> Inr ()"
  then show "snd (claim cr t1 t2 pk h (db, xs)) = (db, xs)"
    by (auto simp: claim_def split: sum.split)
next
  let ?db = "fst (snd (upsert_peer cr t1 pk (db, [])))"
  assume "validate_handle cr h = Inr () \<and> select_owner_of h db = None \<and> select_handle_of pk db = None"
  moreover from this have "select_owner_of h ?db = None" "select_handle_of pk ?db = None"
    by (simp_all add: select_owner_of_def select_handle_of_def upsert_peer_effect)
  moreover have "pk \<in> pr_pubkey ` set (db_peers ?db)"
    by (rule upsert_peer_effect(2)) (simp add: upsert_peer_def)
  moreover have "claim_handle cr t2 pk h (?db, []) = (case select_handle_of pk ?db of
       Some h' \<Rightarrow> (if h' = h then Inr () else Inl HandleAlreadyOwned, ?db, [])
     | None \<Rightarrow>
         if select_owner_of h ?db \<noteq> None then (Inl HandleTaken, ?db, [])
         else if pk \<notin> pr_pubkey ` set (db_peers ?db)
         then (Inl (Database (pg_violation cr ''handles_pubkey_fkey'')), ?db, [])
         else (Inr (), claimed t2 pk h ?db, []))"
    by (rule claim_handle_answers) (rule db_inv_upsert_peer(1) [OF assms])
  ultimately show "fst (claim cr t1 t2 pk h (db, [])) = Inr ()"
    unfolding claim_def by (subst upsert_peer_works) simp
next
  assume ok: "fst (claim cr t1 t2 pk h (db, xs)) = Inr ()"
  then show valid: "validate_handle cr h = Inr ()"
    by (auto simp: claim_def split: sum.splits)
  obtain r db1 ys where up: "upsert_peer cr t1 pk (db, xs) = (r, db1, ys)" by (metis prod_cases3)
  with ok valid have "fst (claim_handle cr t2 pk h (db1, ys)) = Inr ()" "claim cr t1 t2 pk h (db, xs) = claim_handle cr t2 pk h (db1, ys)"
    by (auto simp: claim_def qbind_def split: sum.splits)
  moreover have "db_inv db1" using db_inv_upsert_peer(1) [OF assms, of cr t1 pk xs] up by simp
  moreover obtain db' ys' where "claim_handle cr t2 pk h (db1, ys) = (Inr (), db', ys')"
    using calculation(1) by (metis prod.collapse)
  ultimately show "fst (resolve cr h (fst (snd (claim cr t1 t2 pk h (db, xs))), [])) = Inr (Some pk)"
    using claim_owned [of db1 cr t2 pk h ys] by (simp add: resolve_def resolve_handle_def)
qed

theorem claim_service_witness:
  "db_inv demo_db \<and> validate_handle demo_crates ''bob@org'' = Inr () \<and> validate_handle demo_crates ''Bob'' \<noteq> Inr () \<and>
   fst (claim demo_crates 5 5 (demo_key CHR ''3'') ''bob@org'' (demo_db, [])) = Inr () \<and>
   fst (resolve demo_crates ''bob@org'' (fst (snd (claim demo_crates 5 5 (demo_key CHR ''3'') ''bob@org'' (demo_db, []))), []))
     = Inr (Some (demo_key CHR ''3''))"
proof -
  have v: "validate_handle demo_crates ''bob@org'' = Inr ()" "validate_handle demo_crates ''Bob'' \<noteq> Inr ()"
    by (simp_all add: validate_handle_def plain_char_def in_range_def)
  have free: "select_owner_of ''bob@org'' demo_db = None" "select_handle_of (demo_key CHR ''3'') demo_db = None"
    by (simp_all add: demo_db_eq select_owner_of_def select_handle_of_def)
  from claim_service [OF demo_db_inv, of demo_crates "''bob@org''" 5 5 "demo_key CHR ''3''" "[]"] v free demo_db_inv
  show ?thesis by simp
qed

end
