(* ===== verification/Teams.thy ===== *)
theory Teams
  imports Db
begin

text \<open>
  \<open>src/teams.rs\<close>: announcing oneself as a member of a team with the admin's signature, and
  listing the members. Each statement's \<open>NOW()\<close> is an argument, and so is the id that
  Postgres generates for a new team.
\<close>

definition admin_signed_bytes :: "crates \<Rightarrow> uuid \<Rightarrow> string \<Rightarrow> u8 list result" where
  "admin_signed_bytes cr team_id member_pubkey_hex =
     rbind (map_err InvalidPubKey
              (hex_decode cr (unwrap_or member_pubkey_hex (strip_prefix ''ed25519:'' member_pubkey_hex)))) (\<lambda>member_bytes.
     if length member_bytes \<noteq> 32 then Inl (InvalidPubKey ''member pubkey must be 32 bytes'')
     else Inr (uuid_bytes cr team_id @ member_bytes))"

definition announce :: "crates \<Rightarrow> int \<Rightarrow> int \<Rightarrow> int \<Rightarrow> uuid \<Rightarrow> string \<Rightarrow> uuid option \<Rightarrow> string \<Rightarrow> string \<Rightarrow> string
    \<Rightarrow> dbs \<Rightarrow> uuid result \<times> dbs" where
  "announce cr now1 now2 now3 fresh announcing_pubkey team_id team_name admin_pubkey admin_signature s =
     qbind (upsert_team cr now1 fresh team_id team_name admin_pubkey s) (\<lambda>tid s.
     case admin_signed_bytes cr tid announcing_pubkey of
       Inl e \<Rightarrow> (Inl e, s)
     | Inr signed_bytes \<Rightarrow>
    (case verify_detached cr admin_pubkey admin_signature signed_bytes of
       Inl e \<Rightarrow> (Inl e, s)
     | Inr _ \<Rightarrow>
         qbind (upsert_peer cr now2 announcing_pubkey s) (\<lambda>_ s.
         qbind (add_team_member cr now3 tid announcing_pubkey admin_signature s) (\<lambda>_ s.
         (Inr tid, s)))))"

definition members :: "crates \<Rightarrow> uuid \<Rightarrow> dbs \<Rightarrow> team_member_record list result \<times> dbs" where
  "members cr team_id s = team_members cr team_id s"

definition parse_team_id :: "crates \<Rightarrow> string \<Rightarrow> uuid result" where
  "parse_team_id cr s = map_err (\<lambda>e. Malformed (''team_id: '' @ e)) (uuid_parse cr s)"

section \<open>Membership needs a signature\<close>

definition is_member :: "uuid \<Rightarrow> string \<Rightarrow> string \<Rightarrow> database \<Rightarrow> bool" where
  "is_member tid pk sig db \<longleftrightarrow>
     (\<exists>r \<in> set (db_members db). mr_team_id r = tid \<and> mr_member_pubkey r = pk \<and> mr_admin_signature r = sig)"

definition stored_team :: "uuid \<Rightarrow> database \<Rightarrow> team_row option" where
  "stored_team tid db = find (\<lambda>r. tr_team_id r = tid) (db_teams db)"

lemma admin_signed_bytes_ok:
  "admin_signed_bytes cr tid pk = Inr bytes \<longleftrightarrow>
     (\<exists>mb. hex_decode cr (unwrap_or pk (strip_prefix ''ed25519:'' pk)) = Inr mb \<and> length mb = 32 \<and> bytes = uuid_bytes cr tid @ mb)"
  by (auto simp: admin_signed_bytes_def result_simps split: if_splits)

lemma announce_ok:
  "announce cr t1 t2 t3 fresh pk tid name admin sig s = (Inr i, s') \<longleftrightarrow>
     (\<exists>s1 s2 bytes. upsert_team cr t1 fresh tid name admin s = (Inr i, s1) \<and>
        admin_signed_bytes cr i pk = Inr bytes \<and> verify_detached cr admin sig bytes = Inr () \<and>
        upsert_peer cr t2 pk s1 = (Inr (), s2) \<and> add_team_member cr t3 i pk sig s2 = (Inr (), s'))"
proof -
  obtain r s1 where up: "upsert_team cr t1 fresh tid name admin s = (r, s1)" by (metis surj_pair)
  show ?thesis
  proof (cases r)
    case (Inr j)
    show ?thesis
    proof (cases "admin_signed_bytes cr j pk")
      case (Inr bytes)
      then show ?thesis using up \<open>r = Inr j\<close>
        by (cases "verify_detached cr admin sig bytes"; cases s') (auto simp: announce_def qbind_ok)
    qed (use up Inr in \<open>auto simp: announce_def\<close>)
  qed (simp add: announce_def up)
qed

lemma add_member_row: "add_team_member cr now tid pk sig (db, xs) = (Inr (), db', xs') \<Longrightarrow> is_member tid pk sig db'"
proof (cases "\<exists>r \<in> set (db_members db). mr_team_id r = tid \<and> mr_member_pubkey r = pk")
  case True
  assume "add_team_member cr now tid pk sig (db, xs) = (Inr (), db', xs')"
  with True have "db_members db' = map (\<lambda>r. if mr_team_id r = tid \<and> mr_member_pubkey r = pk
      then r\<lparr>mr_admin_signature := sig\<rparr> else r) (db_members db)"
    by (auto simp: add_team_member_def query_ok split: if_splits)
  moreover from True obtain r where r: "r \<in> set (db_members db)" "mr_team_id r = tid" "mr_member_pubkey r = pk" by blast
  ultimately have "r\<lparr>mr_admin_signature := sig\<rparr> \<in> set (db_members db')"
    using image_eqI [of "r\<lparr>mr_admin_signature := sig\<rparr>" "\<lambda>r. if mr_team_id r = tid \<and> mr_member_pubkey r = pk
      then r\<lparr>mr_admin_signature := sig\<rparr> else r" r "set (db_members db)"] by simp
  then show ?thesis unfolding is_member_def by (rule bexI [rotated]) (simp add: r)
next
  case False
  assume "add_team_member cr now tid pk sig (db, xs) = (Inr (), db', xs')"
  with False show ?thesis by (auto simp: add_team_member_def query_ok is_member_def split: if_splits)
qed

text \<open>
  (C31) An accepted announcement was signed: the signature verifies under the claimed admin key
  over the team's id followed by the member's key, the id is the requested one if one was
  given, and the member is recorded with that signature.
\<close>
theorem announce_accepted_signed:
  assumes "announce cr t1 t2 t3 fresh pk tid name admin sig s = (Inr i, s')"
  shows "(\<exists>mb. hex_decode cr (unwrap_or pk (strip_prefix ''ed25519:'' pk)) = Inr mb \<and> length mb = 32 \<and>
      verify_detached cr admin sig (uuid_bytes cr i @ mb) = Inr ()) \<and>
    i = unwrap_or fresh tid \<and> is_member i pk sig (fst s')"
proof -
  from assms obtain s1 s2 bytes where ok: "upsert_team cr t1 fresh tid name admin s = (Inr i, s1)"
    "admin_signed_bytes cr i pk = Inr bytes" "verify_detached cr admin sig bytes = Inr ()"
    "add_team_member cr t3 i pk sig s2 = (Inr (), s')" by (auto simp: announce_ok)
  have "i = unwrap_or fresh tid"
    using ok(1) by (cases s; cases s1; cases tid) (auto simp: upsert_team_def query_ok unwrap_or_def split: option.splits if_splits)
  moreover have "is_member i pk sig (fst s')"
    using ok(4) by (cases s2; cases s') (auto dest: add_member_row)
  ultimately show ?thesis using ok(2,3) by (auto simp: admin_signed_bytes_ok)
qed

section \<open>The admin a team was created with\<close>

lemma stored_team_upsert:
  "stored_team t (fst (snd (upsert_team cr now fresh tid name admin (db, [])))) =
     (case tid of
        Some i \<Rightarrow> if t = i then Some (case stored_team i db of
              Some r \<Rightarrow> r\<lparr>tr_name := name\<rparr>
            | None \<Rightarrow> \<lparr>tr_team_id = i, tr_name = name, tr_admin_pubkey = admin, tr_created_at = now\<rparr>)
          else stored_team t db
      | None \<Rightarrow> if t = fresh \<and> stored_team fresh db = None
          then Some \<lparr>tr_team_id = fresh, tr_name = name, tr_admin_pubkey = admin, tr_created_at = now\<rparr>
          else stored_team t db)"
proof -
  have upd: "find (\<lambda>r. tr_team_id r = t) (map (\<lambda>r. if tr_team_id r = i then r\<lparr>tr_name := name\<rparr> else r) (db_teams db)) =
      map_option (\<lambda>r. if tr_team_id r = i then r\<lparr>tr_name := name\<rparr> else r) (stored_team t db)" for i
    unfolding stored_team_def by (rule find_map) simp
  have mem: "i \<in> tr_team_id ` set (db_teams db) \<longleftrightarrow> stored_team i db \<noteq> None" for i
    by (auto simp: stored_team_def find_None_iff)
  show ?thesis
  proof (cases tid)
    case (Some i)
    show ?thesis
    proof (cases "stored_team i db")
      case None
      with Some mem [of i] show ?thesis
        by (simp add: upsert_team_def) (auto simp: stored_team_def find_append dest: find_SomeD split: option.splits)
    next
      case (Some r)
      with \<open>tid = Some i\<close> mem [of i] upd [of i] show ?thesis
        by (cases "stored_team t db")
          (simp_all add: upsert_team_def stored_team_def [of t], auto simp: stored_team_def dest: find_SomeD split: option.splits)
    qed
  next
    case None
    with mem [of fresh] show ?thesis
      by (cases "stored_team fresh db") (simp_all add: upsert_team_def, auto simp: stored_team_def find_append split: option.splits)
  qed
qed

text \<open>
  (C32) Whose signature it is: the check is made under the admin key the announcement claims,
  not the one the team was created with. Anyone who signs with a key of their own becomes a
  recorded member of any existing team and gives the team a new name, while the stored admin
  stays the same.
\<close>
theorem announce_trusts_claimed_admin:
  assumes "stored_team tid db = Some team"
    and "hex_decode cr (unwrap_or pk (strip_prefix ''ed25519:'' pk)) = Inr mb" and "length mb = 32"
    and "verify_detached cr own_key sig (uuid_bytes cr tid @ mb) = Inr ()"
  shows "let (r, db', _) = announce cr t1 t2 t3 fresh pk (Some tid) name own_key sig (db, []) in
    r = Inr tid \<and> is_member tid pk sig db' \<and> stored_team tid db' = Some (team\<lparr>tr_name := name\<rparr>)"
proof -
  have up: "upsert_team cr t1 fresh (Some tid) name own_key (db, []) =
      (Inr tid, fst (snd (upsert_team cr t1 fresh (Some tid) name own_key (db, []))), [])"
    by (simp add: upsert_team_def)
  let ?db1 = "fst (snd (upsert_team cr t1 fresh (Some tid) name own_key (db, [])))"
  have team: "stored_team tid ?db1 = Some (team\<lparr>tr_name := name\<rparr>)"
    using assms(1) by (simp add: stored_team_upsert)
  let ?db2 = "fst (snd (upsert_peer cr t2 pk (?db1, [])))"
  have up2: "upsert_peer cr t2 pk (?db1, []) = (Inr (), ?db2, [])" "db_teams ?db2 = db_teams ?db1"
    by (simp_all add: upsert_peer_def)
  have team2: "stored_team tid ?db2 = Some (team\<lparr>tr_name := name\<rparr>)"
    using team unfolding stored_team_def up2(2) .
  then have "tid \<in> tr_team_id ` set (db_teams ?db2)"
    unfolding stored_team_def by (auto dest: find_SomeD)
  then have add: "add_team_member cr t3 tid pk sig (?db2, []) =
      (Inr (), fst (snd (add_team_member cr t3 tid pk sig (?db2, []))), [])"
    "db_teams (fst (snd (add_team_member cr t3 tid pk sig (?db2, [])))) = db_teams ?db2"
    by (simp_all add: add_team_member_def)
  have "announce cr t1 t2 t3 fresh pk (Some tid) name own_key sig (db, []) =
      (Inr tid, fst (snd (add_team_member cr t3 tid pk sig (?db2, []))), [])"
    unfolding announce_ok
    using up up2(1) add(1) assms(2-4) by (auto simp: admin_signed_bytes_ok)
  moreover have "stored_team tid (fst (snd (add_team_member cr t3 tid pk sig (?db2, [])))) = Some (team\<lparr>tr_name := name\<rparr>)"
    using team2 add(2) by (simp add: stored_team_def)
  ultimately show ?thesis using add_member_row [OF add(1)] by simp
qed

text \<open>
  (C33) The team is written before the signature is checked: an announcement that is refused
  for its signature adds no member, but the team it names has been created or renamed.
\<close>
theorem refused_announcement_writes_team:
  assumes "admin_signed_bytes cr tid pk = Inr bytes" and "verify_detached cr admin sig bytes = Inl e"
  shows "let (r, db', _) = announce cr t1 t2 t3 fresh pk (Some tid) name admin sig (db, []) in
    r = Inl e \<and> db_members db' = db_members db \<and>
    map_option tr_name (stored_team tid db') = Some name"
proof -
  have "announce cr t1 t2 t3 fresh pk (Some tid) name admin sig (db, []) =
      (Inl e, fst (snd (upsert_team cr t1 fresh (Some tid) name admin (db, []))), [])"
    using assms by (simp add: announce_def upsert_team_def)
  moreover have "db_members (fst (snd (upsert_team cr t1 fresh (Some tid) name admin (db, [])))) = db_members db"
    by (simp add: upsert_team_def)
  ultimately show ?thesis by (simp add: stored_team_upsert split: option.split)
qed

lemma admin_stable_step:
  assumes "map_option tr_admin_pubkey (stored_team tid (fst s)) = Some admin"
  shows "map_option tr_admin_pubkey (stored_team tid (fst (db_step cr s e))) = Some admin"
proof -
  obtain db xs where s: "s = (db, xs)" by fastforce
  let ?P = "\<lambda>db. map_option tr_admin_pubkey (stored_team tid db) = Some admin"
  from assms have P: "?P db" by (simp add: s)
  have same: "db_teams db' = db_teams db \<Longrightarrow> ?P db'" for db' using P by (simp add: stored_team_def)
  have app: "?P (db\<lparr>db_teams := db_teams db @ ts\<rparr>)" for ts
    using P by (auto simp: stored_team_def find_append split: option.splits)
  have upd: "?P (db\<lparr>db_teams := map (\<lambda>r. if tr_team_id r = i then r\<lparr>tr_name := n\<rparr> else r) (db_teams db)\<rparr>)" for i n
  proof -
    let ?g = "\<lambda>r. if tr_team_id r = i then r\<lparr>tr_name := n\<rparr> else r"
    have "stored_team tid (db\<lparr>db_teams := map ?g (db_teams db)\<rparr>) = map_option ?g (stored_team tid db)"
      unfolding stored_team_def by simp (rule find_map, simp)
    moreover obtain z where "stored_team tid db = Some z" "tr_admin_pubkey z = admin" using P by blast
    ultimately show ?thesis by simp
  qed
  show ?thesis
  proof (cases e)
    case (ClaimHandle now p k)
    then show ?thesis using claim_handle_db [of cr now p k db xs] P same by (auto simp: s claimed_def)
  next
    case (UpsertTeam now fresh t name adm)
    have "?P (fst (snd (upsert_team cr now fresh t name adm (db, xs))))"
    proof (cases t)
      case None
      show ?thesis unfolding upsert_team_def None option.case
        by (rule inv_query [of ?P, OF P]) (use app in \<open>auto split: if_splits\<close>)
    next
      case (Some i)
      show ?thesis unfolding upsert_team_def Some option.case
        by (rule inv_query [of ?P, OF P]) (use app upd in \<open>auto split: if_splits\<close>)
    qed
    then show ?thesis by (simp add: UpsertTeam s)
  next
    case (UpsertPeer now p)
    have "?P (fst (snd (upsert_peer cr now p (db, xs))))"
      unfolding upsert_peer_def by (rule inv_query [of ?P, OF P]) (rule same, auto)
    then show ?thesis by (simp add: UpsertPeer s)
  next
    case (UpsertPeerKind now p k)
    have "?P (fst (snd (upsert_peer_with_kind cr now p k (db, xs))))"
      unfolding upsert_peer_with_kind_def by (rule inv_query [of ?P, OF P]) (rule same, auto split: if_splits)
    then show ?thesis by (simp add: UpsertPeerKind s)
  next
    case (AddMember now t p sig)
    have "?P (fst (snd (add_team_member cr now t p sig (db, xs))))"
      unfolding add_team_member_def by (rule inv_query [of ?P, OF P]) (rule same, auto split: if_splits)
    then show ?thesis by (simp add: AddMember s)
  qed
qed

text \<open>
  The stored admin of a team never changes, and the team is never removed: once a team
  exists, every further sequence of database operations, with any failures, keeps the admin it
  was created with.
\<close>
theorem team_admin_stable:
  assumes "map_option tr_admin_pubkey (stored_team tid (fst s)) = Some admin"
  shows "map_option tr_admin_pubkey (stored_team tid (fst (foldl (db_step cr) s ops))) = Some admin"
  using assms
proof (induction ops arbitrary: s)
  case (Cons e ops)
  from Cons.IH [OF admin_stable_step [OF Cons.prems]] show ?case by simp
qed simp

text \<open>
  The member list is the team's members, each once, in the order in which they joined.
\<close>
theorem members_listed:
  assumes "db_inv db"
  shows "\<exists>ms. fst (members cr tid (db, [])) = Inr ms \<and>
    sorted (map rec_m_joined_at ms) \<and> distinct (map rec_m_pubkey ms) \<and>
    set ms = member_into_record ` {r \<in> set (db_members db). mr_team_id r = tid}"
proof -
  let ?rows = "filter (\<lambda>r. mr_team_id r = tid) (db_members db)"
  have "distinct (map (\<lambda>r. (mr_team_id r, mr_member_pubkey r)) (db_members db))"
    using assms by (simp add: db_inv_def schema_inv_def)
  then have "distinct (map mr_member_pubkey ?rows)"
    by (auto simp: distinct_map inj_on_def distinct_filter)
  then have "distinct (map mr_member_pubkey (sort_key mr_joined_at ?rows))"
    by (simp add: distinct_map)
  then show ?thesis
    by (simp add: members_def team_members_def member_into_record_def comp_def sorted_sort_key)
qed

section \<open>An example\<close>

text \<open>A team of peer 1 with id 0, and a signature of peer 3's own key: the sum of the bytes.\<close>

definition demo_team :: team_row where
  "demo_team = \<lparr>tr_team_id = 0, tr_name = ''blue'', tr_admin_pubkey = demo_key CHR ''1'', tr_created_at = 0\<rparr>"

definition demo_team_db :: database where
  "demo_team_db = demo_db\<lparr>db_teams := [demo_team]\<rparr>"

definition demo_own_sig :: string where
  "demo_own_sig = concat (replicate 64 ''c0'')"

lemma demo_parse_key:
  "hex_nibble c = Some y \<Longrightarrow> parse_pubkey demo_crates (demo_key c) = Inr (VerifyingKey (replicate 32 (of_nat y)))"
  by (simp add: parse_pubkey_ok unwrap_or_def)

lemma demo_own_sig_verifies:
  "verify_detached demo_crates (demo_key CHR ''3'') demo_own_sig (uuid_bytes demo_crates 0 @ replicate 32 3) = Inr ()"
proof -
  have "demo_hex demo_own_sig = Inr (replicate 64 192)"
    unfolding demo_own_sig_def by (subst demo_hex_replicate [of _ 12 _ 0]) (simp_all add: hex_nibble_def)
  then have "parse_signature demo_crates demo_own_sig = Inr (replicate 64 192)"
    by (simp add: parse_signature_ok)
  moreover have "sum_list (demo_uuid_bytes 0) = 0"
    by (simp add: demo_uuid_bytes_def sum_list_0 del: upt_Suc)
  ultimately show ?thesis
    by (simp add: verify_detached_def demo_parse_key demo_sign_def sum_list_replicate)
qed

theorem announce_trusts_claimed_admin_witness:
  "tr_admin_pubkey demo_team \<noteq> demo_key CHR ''3'' \<and>
   is_member 0 (demo_key CHR ''3'') demo_own_sig
     (fst (snd (announce demo_crates 9 9 9 1 (demo_key CHR ''3'') (Some 0) ''red'' (demo_key CHR ''3'') demo_own_sig (demo_team_db, []))))"
proof -
  have h: "hex_decode demo_crates (unwrap_or (demo_key CHR ''3'') (strip_prefix ''ed25519:'' (demo_key CHR ''3''))) = Inr (replicate 32 3)"
    by (simp add: unwrap_or_def)
  have t: "stored_team 0 demo_team_db = Some demo_team"
    by (simp add: stored_team_def demo_team_db_def demo_team_def)
  from announce_trusts_claimed_admin [OF t h _ demo_own_sig_verifies, of 9 9 9 1 "''red''"]
  show ?thesis by (simp add: demo_team_def split_beta Let_def)
qed

theorem refused_announcement_writes_team_witness:
  "map_option tr_name (stored_team 0 (fst (snd (announce demo_crates 9 9 9 1 (demo_key CHR ''2'') (Some 0) ''red'' (demo_key CHR ''1'')
     (demo_sig CHR ''1'') (demo_team_db, []))))) = Some ''red'' \<and> tr_name demo_team = ''blue''"
proof -
  have h: "admin_signed_bytes demo_crates 0 (demo_key CHR ''2'') = Inr (demo_uuid_bytes 0 @ replicate 32 2)"
    by (simp add: admin_signed_bytes_ok unwrap_or_def)
  have "sum_list (demo_uuid_bytes 0) = 0"
    by (simp add: demo_uuid_bytes_def sum_list_0 del: upt_Suc)
  moreover have "parse_signature demo_crates (demo_sig CHR ''1'') = Inr (replicate 64 1)"
    by (simp add: parse_signature_ok)
  ultimately have v: "verify_detached demo_crates (demo_key CHR ''1'') (demo_sig CHR ''1'') (demo_uuid_bytes 0 @ replicate 32 2) = Inl SignatureVerifyFailed"
    by (simp add: verify_detached_def demo_parse_key demo_sign_def sum_list_replicate)
  from refused_announcement_writes_team [OF h v, of 9 9 9 1 "''red''" demo_team_db]
  show ?thesis by (simp add: demo_team_def split_beta Let_def)
qed

theorem announce_accepted_signed_witness:
  "\<exists>s'. announce demo_crates 9 9 9 1 (demo_key CHR ''3'') (Some 0) ''red'' (demo_key CHR ''3'') demo_own_sig (demo_team_db, []) = (Inr 0, s') \<and>
     is_member 0 (demo_key CHR ''3'') demo_own_sig (fst s')"
proof -
  have h: "admin_signed_bytes demo_crates 0 (demo_key CHR ''3'') = Inr (demo_uuid_bytes 0 @ replicate 32 3)"
    by (simp add: admin_signed_bytes_ok unwrap_or_def)
  obtain s' where "announce demo_crates 9 9 9 1 (demo_key CHR ''3'') (Some 0) ''red'' (demo_key CHR ''3'') demo_own_sig (demo_team_db, []) = (Inr 0, s')"
    using h demo_own_sig_verifies
    by (simp add: announce_def upsert_team_def upsert_peer_def add_team_member_def demo_team_db_def demo_team_def)
  with announce_accepted_signed [OF this] show ?thesis by blast
qed

theorem team_admin_stable_witness:
  "map_option tr_admin_pubkey (stored_team 0 (fst (foldl (db_step demo_crates) (demo_team_db, [])
     [UpsertTeam 9 1 (Some 0) ''red'' (demo_key CHR ''3'')]))) = Some (demo_key CHR ''1'')"
  by (rule team_admin_stable) (simp add: stored_team_def demo_team_db_def demo_team_def)

theorem members_listed_witness: "\<exists>ms. fst (members demo_crates 0 (demo_db, [])) = Inr ms \<and> sorted (map rec_m_joined_at ms)"
  using members_listed [OF demo_db_inv, of demo_crates 0] by blast

end
