(* ===== verification/Metrics.thy ===== *)
theory Metrics
  imports Prelude
begin

text \<open>
  \<open>src/metrics.rs\<close>: the counters and gauges. A counter is a \<open>u64\<close> and a gauge an \<open>i64\<close>, both
  atomic and wrapping; a labelled counter is a map from the label's value. Of the histogram
  only the number of its observations is kept. The text format of \<open>encode\<close> is the
  \<open>prometheus\<close> crate's and not modelled.
\<close>

record metrics =
  connected_peers :: i64
  registrations_total :: u64
  handle_claims_total :: "(string, u64) dashmap"
  signaling_messages_total :: u64
  signaling_rejected_total :: "(string, u64) dashmap"
  relay_bytes_total :: u64
  relay_sessions_total :: u64
  team_announces_total :: u64
  presence_subscriptions :: i64
  message_handle_count :: u64

definition metrics_new :: metrics where
  "metrics_new = \<lparr>connected_peers = 0, registrations_total = 0, handle_claims_total = dm_empty,
     signaling_messages_total = 0, signaling_rejected_total = dm_empty, relay_bytes_total = 0,
     relay_sessions_total = 0, team_announces_total = 0, presence_subscriptions = 0, message_handle_count = 0\<rparr>"

definition counter_value :: "(string, u64) dashmap \<Rightarrow> string \<Rightarrow> u64" where
  "counter_value v label = (case dm_get v label of Some n \<Rightarrow> n | None \<Rightarrow> 0)"

text \<open>\<open>with_label_values(&[label]).inc()\<close>\<close>

definition vec_inc :: "string \<Rightarrow> (string, u64) dashmap \<Rightarrow> (string, u64) dashmap" where
  "vec_inc label v = dm_insert label (counter_value v label + 1) v"

lemma counter_value_inc: "counter_value (vec_inc l v) m = counter_value v m + (if m = l then 1 else 0)"
  by (simp add: counter_value_def vec_inc_def)

end
