(* ===== verification/Lossy.thy ===== *)
theory Lossy
  imports Prelude
begin

text \<open>
  \<open>String::from_utf8_lossy\<close> of the standard library, which turns a binary frame into text:
  well-formed UTF-8 is kept, and each maximal ill-formed piece becomes U+FFFD.
\<close>

definition cont_byte :: "u8 \<Rightarrow> bool" where
  "cont_byte b = (128 \<le> b \<and> b \<le> 191)"

text \<open>The length a leading byte announces and the range of the byte after it.\<close>

definition lead_byte :: "u8 \<Rightarrow> (nat \<times> u8 \<times> u8) option" where
  "lead_byte b =
     (if 0xC2 \<le> b \<and> b \<le> 0xDF then Some (2, 0x80, 0xBF)
      else if b = 0xE0 then Some (3, 0xA0, 0xBF)
      else if 0xE1 \<le> b \<and> b \<le> 0xEC then Some (3, 0x80, 0xBF)
      else if b = 0xED then Some (3, 0x80, 0x9F)
      else if 0xEE \<le> b \<and> b \<le> 0xEF then Some (3, 0x80, 0xBF)
      else if b = 0xF0 then Some (4, 0x90, 0xBF)
      else if 0xF1 \<le> b \<and> b \<le> 0xF3 then Some (4, 0x80, 0xBF)
      else if b = 0xF4 then Some (4, 0x80, 0x8F)
      else None)"

text \<open>How many of the bytes expected after the second are there.\<close>

fun tail_bytes :: "nat \<Rightarrow> u8 list \<Rightarrow> nat" where
  "tail_bytes 0 bs = 0"
| "tail_bytes (Suc n) [] = 0"
| "tail_bytes (Suc n) (b # bs) = (if cont_byte b then Suc (tail_bytes n bs) else 0)"

text \<open>Whether the text starts with a well-formed character, and the bytes of the piece.\<close>

definition utf8_step :: "u8 \<Rightarrow> u8 list \<Rightarrow> bool \<times> nat" where
  "utf8_step b bs =
     (if b < 128 then (True, 1)
      else case lead_byte b of
             None \<Rightarrow> (False, 1)
           | Some (w, lo, hi) \<Rightarrow>
               (case bs of
                  [] \<Rightarrow> (False, 1)
                | b1 # bs1 \<Rightarrow>
                    if lo \<le> b1 \<and> b1 \<le> hi
                    then (let k = tail_bytes (w - 2) bs1 in (k = w - 2, 2 + k))
                    else (False, 1)))"

lemma utf8_step_pos: "0 < snd (utf8_step b bs)"
  by (simp add: utf8_step_def Let_def split: option.split prod.split list.split)

definition replacement :: string where
  "replacement = map char_of_byte [0xEF, 0xBF, 0xBD]"

function from_utf8_lossy :: "u8 list \<Rightarrow> string" where
  "from_utf8_lossy [] = []"
| "from_utf8_lossy (b # bs) =
     (case utf8_step b bs of (ok, n) \<Rightarrow>
        (if ok then map char_of_byte (take n (b # bs)) else replacement) @ from_utf8_lossy (drop n (b # bs)))"
  by pat_completeness auto
termination
proof (relation "measure length", simp)
  fix b bs ok n
  assume "(ok, n) = utf8_step b bs"
  then have "0 < n" using utf8_step_pos [of b bs] by (metis snd_conv)
  then show "(drop n (b # bs), b # bs) \<in> measure length" by simp
qed

text \<open>Text that is ASCII survives unchanged, whatever frame carried it.\<close>

lemma from_utf8_lossy_ascii: "\<forall>b \<in> set bs. b < 128 \<Longrightarrow> from_utf8_lossy bs = map char_of_byte bs"
  by (induction bs) (auto simp: utf8_step_def)

end
