(* ===== verification/Server.thy ===== *)
theory Server
  imports Presence Relay_Manager Signaling Handles Teams Metrics Lossy
begin

text \<open>
  \<open>src/server.rs\<close>: the state the connections share, the handler of client messages with one
  definition per kind of message, and the life of a connection: registration, the message
  loop and the teardown.

  \<open>broker\<close> is \<open>AppState\<close> with the channels of the connections. The readings of the clocks and
  the fresh ids that the handling of one frame uses are collected in a \<open>tick\<close>. A handler runs
  to its end before the next frame of any connection is handled: the model interleaves
  frames, not the awaits inside a handler.
\<close>

record broker =
  b_db :: "dbs option"
  b_registry :: peer_registry
  b_presence :: presence_manager
  b_relay :: relay_manager
  b_limiter :: signaling_limiter
  b_metrics :: metrics
  b_channels :: channels

definition in_memory :: broker where
  "in_memory = \<lparr>b_db = None, b_registry = reg_new, b_presence = presence_new, b_relay = relay_new,
     b_limiter = limiter_new, b_metrics = metrics_new, b_channels = dm_empty\<rparr>"

record tick =
  tk_now :: i64
  tk_sent :: i64
  tk_limiter :: nat
  tk_relay :: clock3
  tk_session :: uuid
  tk_team :: uuid
  tk_db1 :: int
  tk_db2 :: int
  tk_db3 :: int

section \<open>Replies\<close>

definition error_msg :: "broker_error \<Rightarrow> string option \<Rightarrow> server_message" where
  "error_msg e request_id = ErrorMsg (code e) (error_to_string e) request_id"

text \<open>\<open>let _ = tx.send(m).await\<close>: the result is dropped.\<close>

definition send_tx :: "chan_id \<Rightarrow> server_message \<Rightarrow> broker \<Rightarrow> broker" where
  "send_tx tx m b = b\<lparr>b_channels := snd (chan_send tx m (b_channels b))\<rparr>"

fun json_field :: "json \<Rightarrow> string \<Rightarrow> json option" where
  "json_field (JObj kvs) k = map_of kvs k"
| "json_field _ k = None"

fun as_str :: "json \<Rightarrow> string option" where
  "as_str (JStr s) = Some s"
| "as_str _ = None"

definition parse_request_id :: "crates \<Rightarrow> string \<Rightarrow> string option" where
  "parse_request_id cr text =
     (case json_value cr text of
        Inl _ \<Rightarrow> None
      | Inr v \<Rightarrow> (case json_field v ''request_id'' of None \<Rightarrow> None | Some r \<Rightarrow> as_str r))"

section \<open>Lookups\<close>

definition resolved_kind :: "crates \<Rightarrow> string \<Rightarrow> broker \<Rightarrow> identity_kind option \<times> broker" where
  "resolved_kind cr pk b =
     (case b_db b of
        None \<Rightarrow> (None, b)
      | Some s \<Rightarrow>
          (case peer_kind cr pk s of
             (r, s') \<Rightarrow>
               (case r of Inr (Some k) \<Rightarrow> kind_parse k | _ \<Rightarrow> None, b\<lparr>b_db := Some s'\<rparr>)))"

definition on_register :: "string \<Rightarrow> string option \<Rightarrow> chan_id \<Rightarrow> broker \<Rightarrow> unit result \<times> broker" where
  "on_register session_pubkey request_id tx b =
     (let peer = reg_get (b_registry b) session_pubkey in
      (Inr (), send_tx tx (Registered session_pubkey
         (case peer of None \<Rightarrow> [] | Some p \<Rightarrow> format_reflected (ph_reflected p))
         (case peer of None \<Rightarrow> False | Some p \<Rightarrow> ph_handle p \<noteq> None) request_id) b))"

definition on_lookup_peer :: "crates \<Rightarrow> string \<Rightarrow> string option \<Rightarrow> chan_id \<Rightarrow> broker \<Rightarrow> unit result \<times> broker" where
  "on_lookup_peer cr target_pubkey request_id tx b =
     (let peer = reg_get (b_registry b) target_pubkey;
          (kind, b1) = resolved_kind cr target_pubkey b
      in case peer of
           Some p \<Rightarrow> (Inr (), send_tx tx (PeerInfo (ph_pubkey p) (ph_handle p) (ph_addresses p)
               (Some (format_reflected (ph_reflected p))) True kind request_id) b1)
         | None \<Rightarrow> (Inr (), send_tx tx (error_msg PeerNotFound request_id) b1))"

definition resolve_target :: "crates \<Rightarrow> string \<Rightarrow> broker \<Rightarrow> string option result \<times> broker" where
  "resolve_target cr target_handle b =
     (case b_db b of
        Some s \<Rightarrow> (case resolve cr target_handle s of (r, s') \<Rightarrow> (r, b\<lparr>b_db := Some s'\<rparr>))
      | None \<Rightarrow> (Inr (reg_resolve_handle (b_registry b) target_handle), b))"

definition on_lookup_handle :: "crates \<Rightarrow> string \<Rightarrow> string option \<Rightarrow> chan_id \<Rightarrow> broker \<Rightarrow> unit result \<times> broker" where
  "on_lookup_handle cr target_handle request_id tx b =
     (case resolve_target cr target_handle b of
        (Inl e, b1) \<Rightarrow> (Inl e, b1)
      | (Inr None, b1) \<Rightarrow> (Inr (), send_tx tx (error_msg PeerNotFound request_id) b1)
      | (Inr (Some pk), b1) \<Rightarrow>
          (let online_peer = reg_get (b_registry b1) pk;
               (kind, b2) = resolved_kind cr pk b1
           in (Inr (), send_tx tx (PeerInfo pk (Some target_handle)
                (case online_peer of Some p \<Rightarrow> ph_addresses p | None \<Rightarrow> default_addresses)
                (map_option (\<lambda>p. format_reflected (ph_reflected p)) online_peer)
                (online_peer \<noteq> None) kind request_id) b2)))"

section \<open>Signaling, presence and relay\<close>

definition on_signal :: "crates \<Rightarrow> tick \<Rightarrow> string \<Rightarrow> string \<Rightarrow> string \<Rightarrow> broker \<Rightarrow> unit result \<times> broker" where
  "on_signal cr tk session_pubkey to_pk payload b =
     (case relay_signal cr (b_registry b) (tk_limiter tk) (tk_sent tk) session_pubkey to_pk payload (b_limiter b, b_channels b) of
        (r, lm, cs) \<Rightarrow>
          let b1 = b\<lparr>b_limiter := lm, b_channels := cs\<rparr>; m = b_metrics b1
          in case r of
               Inr _ \<Rightarrow> (Inr (), b1\<lparr>b_metrics := m\<lparr>signaling_messages_total := signaling_messages_total m + 1\<rparr>\<rparr>)
             | Inl e \<Rightarrow> (Inl e, b1\<lparr>b_metrics := m\<lparr>signaling_rejected_total := vec_inc (code e) (signaling_rejected_total m)\<rparr>\<rparr>))"

definition on_subscribe :: "string \<Rightarrow> string list \<Rightarrow> string option \<Rightarrow> chan_id \<Rightarrow> broker \<Rightarrow> unit result \<times> broker" where
  "on_subscribe session_pubkey peers request_id tx b =
     (let b1 = b\<lparr>b_presence := subscribe session_pubkey peers (b_presence b)\<rparr>;
          m = b_metrics b1;
          b2 = b1\<lparr>b_metrics := m\<lparr>presence_subscriptions := presence_subscriptions m + of_nat (length peers)\<rparr>\<rparr>;
          online = reg_online_set (b_registry b2) peers;
          b3 = send_tx tx (SubscribePresenceAck peers request_id) b2
      in (Inr (), fold (\<lambda>(pk, on) b. send_tx tx (PresenceUpdate pk on) b) online b3))"

definition on_unsubscribe :: "string \<Rightarrow> string list \<Rightarrow> broker \<Rightarrow> unit result \<times> broker" where
  "on_unsubscribe session_pubkey peers b =
     (let b1 = b\<lparr>b_presence := unsubscribe session_pubkey peers (b_presence b)\<rparr>; m = b_metrics b1
      in (Inr (), b1\<lparr>b_metrics := m\<lparr>presence_subscriptions := presence_subscriptions m - of_nat (length peers)\<rparr>\<rparr>))"

definition on_request_relay :: "crates \<Rightarrow> tick \<Rightarrow> string \<Rightarrow> string \<Rightarrow> string option \<Rightarrow> chan_id \<Rightarrow> broker \<Rightarrow> unit result \<times> broker" where
  "on_request_relay cr tk session_pubkey peer request_id tx b =
     (case request cr (b_registry b) (tk_session tk) session_pubkey peer (b_relay b, b_channels b) of
        (r, rm, cs) \<Rightarrow>
          let b1 = b\<lparr>b_relay := rm, b_channels := cs\<rparr>; m = b_metrics b1
          in case r of
               Inl e \<Rightarrow> (Inl e, b1)
             | Inr sid \<Rightarrow> (Inr (), send_tx tx (RelaySessionEstablished (uuid_text cr sid) peer request_id)
                 (b1\<lparr>b_metrics := m\<lparr>relay_sessions_total := relay_sessions_total m + 1\<rparr>\<rparr>)))"

definition on_accept_relay :: "crates \<Rightarrow> string \<Rightarrow> string \<Rightarrow> broker \<Rightarrow> unit result \<times> broker" where
  "on_accept_relay cr session_pubkey session_id b =
     (case parse_session_id cr session_id of
        Inl e \<Rightarrow> (Inl e, b)
      | Inr sid \<Rightarrow>
          (case accept cr (b_registry b) session_pubkey sid (b_relay b, b_channels b) of
             (r, rm, cs) \<Rightarrow> (r, b\<lparr>b_relay := rm, b_channels := cs\<rparr>)))"

definition on_relay :: "crates \<Rightarrow> tick \<Rightarrow> string \<Rightarrow> string \<Rightarrow> string \<Rightarrow> broker \<Rightarrow> unit result \<times> broker" where
  "on_relay cr tk session_pubkey session_id data b =
     (case parse_session_id cr session_id of
        Inl e \<Rightarrow> (Inl e, b)
      | Inr sid \<Rightarrow>
          (case forward cr (b_registry b) (tk_relay tk) session_pubkey sid data (b_relay b, b_channels b) of
             (r, rm, cs) \<Rightarrow>
               let b1 = b\<lparr>b_relay := rm, b_channels := cs\<rparr>; m = b_metrics b1
               in case r of
                    Inl e \<Rightarrow> (Inl e, b1)
                  | Inr bytes \<Rightarrow> (Inr (), b1\<lparr>b_metrics := m\<lparr>relay_bytes_total := relay_bytes_total m + bytes\<rparr>\<rparr>)))"

section \<open>Teams\<close>

definition parse_opt_team :: "crates \<Rightarrow> string option \<Rightarrow> uuid option result" where
  "parse_opt_team cr team_id =
     (case team_id of None \<Rightarrow> Inr None | Some t \<Rightarrow> rbind (parse_team_id cr t) (\<lambda>i. Inr (Some i)))"

definition on_team_announce :: "crates \<Rightarrow> tick \<Rightarrow> string \<Rightarrow> string option \<Rightarrow> string \<Rightarrow> string \<Rightarrow> string \<Rightarrow> string option
    \<Rightarrow> chan_id \<Rightarrow> broker \<Rightarrow> unit result \<times> broker" where
  "on_team_announce cr tk session_pubkey team_id team_name admin_pubkey admin_signature request_id tx b =
     (case b_db b of
        None \<Rightarrow> (Inl (Internal ''teams require Postgres''), b)
      | Some s \<Rightarrow>
     (case parse_opt_team cr team_id of
        Inl e \<Rightarrow> (Inl e, b)
      | Inr parsed_id \<Rightarrow>
     (case announce cr (tk_db1 tk) (tk_db2 tk) (tk_db3 tk) (tk_team tk) session_pubkey parsed_id team_name
             admin_pubkey admin_signature s of
        (r, s') \<Rightarrow>
          let b1 = b\<lparr>b_db := Some s'\<rparr>; m = b_metrics b1
          in case r of
               Inl e \<Rightarrow> (Inl e, b1)
             | Inr i \<Rightarrow> (Inr (), send_tx tx (TeamAnnounced (uuid_text cr i) request_id)
                 (b1\<lparr>b_metrics := m\<lparr>team_announces_total := team_announces_total m + 1\<rparr>\<rparr>)))))"

definition on_team_lookup :: "crates \<Rightarrow> string \<Rightarrow> string option \<Rightarrow> chan_id \<Rightarrow> broker \<Rightarrow> unit result \<times> broker" where
  "on_team_lookup cr team_id request_id tx b =
     (case b_db b of
        None \<Rightarrow> (Inl (Internal ''teams require Postgres''), b)
      | Some s \<Rightarrow>
     (case parse_team_id cr team_id of
        Inl e \<Rightarrow> (Inl e, b)
      | Inr i \<Rightarrow>
     (case members cr i s of
        (r, s') \<Rightarrow>
          let b1 = b\<lparr>b_db := Some s'\<rparr>
          in case r of
               Inl e \<Rightarrow> (Inl e, b1)
             | Inr ms \<Rightarrow> (Inr (), send_tx tx (TeamMembers team_id
                 (map (\<lambda>m. \<lparr>tm_pubkey = rec_m_pubkey m, tm_online = reg_is_online (b_registry b1) (rec_m_pubkey m),
                            tm_joined_at = rec_m_joined_at m\<rparr>) ms) request_id) b1))))"

section \<open>The message handler\<close>

fun dispatch :: "crates \<Rightarrow> tick \<Rightarrow> string \<Rightarrow> chan_id \<Rightarrow> client_message \<Rightarrow> broker \<Rightarrow> unit result \<times> broker" where
  "dispatch cr tk spk tx (Register _ _ _ _ _ _ rid) b = on_register spk rid tx b"
| "dispatch cr tk spk tx (LookupPeer _ target _ _ rid) b = on_lookup_peer cr target rid tx b"
| "dispatch cr tk spk tx (LookupHandle _ target _ _ rid) b = on_lookup_handle cr target rid tx b"
| "dispatch cr tk spk tx (Signal _ to_pk payload _ _ _) b = on_signal cr tk spk to_pk payload b"
| "dispatch cr tk spk tx (SubscribePresence _ peers _ _ rid) b = on_subscribe spk peers rid tx b"
| "dispatch cr tk spk tx (UnsubscribePresence _ peers _ _ _) b = on_unsubscribe spk peers b"
| "dispatch cr tk spk tx (RequestRelay _ peer _ _ rid) b = on_request_relay cr tk spk peer rid tx b"
| "dispatch cr tk spk tx (AcceptRelay _ sid _ _ _) b = on_accept_relay cr spk sid b"
| "dispatch cr tk spk tx (Relay _ sid data _ _) b = on_relay cr tk spk sid data b"
| "dispatch cr tk spk tx (TeamAnnounce _ tid name admin asig _ _ rid) b =
     on_team_announce cr tk spk tid name admin asig rid tx b"
| "dispatch cr tk spk tx (TeamLookup _ tid _ _ rid) b = on_team_lookup cr tid rid tx b"
| "dispatch cr tk spk tx (Ping _ ts _) b = (Inr (), send_tx tx (Pong ts) b)"

definition handle_client_message :: "crates \<Rightarrow> tick \<Rightarrow> string \<Rightarrow> string \<Rightarrow> chan_id \<Rightarrow> broker \<Rightarrow> unit result \<times> broker" where
  "handle_client_message cr tk session_pubkey text tx b =
     (case map_err (\<lambda>e. Malformed (''parse: '' @ e)) (json_message cr text) of
        Inl e \<Rightarrow> (Inl e, b)
      | Inr msg \<Rightarrow>
     (case verify_signed_message cr (tk_now tk) msg of
        Inl e \<Rightarrow> (Inl e, b)
      | Inr _ \<Rightarrow>
          if cm_pubkey msg \<noteq> session_pubkey
          then (Inl (Malformed (''message pubkey doesn'' @ [CHR 0x27] @ ''t match session pubkey'')), b)
          else dispatch cr tk session_pubkey tx msg b))"

section \<open>The life of a connection\<close>

datatype ws_message = TextFrame string | BinaryFrame "u8 list" | CloseFrame | PingFrame | PongFrame

text \<open>What \<open>stream.next()\<close> gives: a frame, a stream error, or the end.\<close>

datatype stream_item = Frame ws_message | StreamError | EndOfStream

text \<open>One turn of \<open>pump_messages\<close>: whether the loop goes on, and the new state.\<close>

definition pump_text :: "crates \<Rightarrow> tick \<Rightarrow> string \<Rightarrow> chan_id \<Rightarrow> string \<Rightarrow> broker \<Rightarrow> broker" where
  "pump_text cr tk pubkey tx text b =
     (case handle_client_message cr tk pubkey text tx b of
        (outcome, b1) \<Rightarrow>
          let m = b_metrics b1;
              b2 = b1\<lparr>b_metrics := m\<lparr>message_handle_count := message_handle_count m + 1\<rparr>\<rparr>
          in case outcome of
               Inr _ \<Rightarrow> b2
             | Inl e \<Rightarrow> send_tx tx (error_msg e (parse_request_id cr text)) b2)"

fun pump_item :: "crates \<Rightarrow> tick \<Rightarrow> string \<Rightarrow> chan_id \<Rightarrow> stream_item \<Rightarrow> broker \<Rightarrow> bool \<times> broker" where
  "pump_item cr tk pubkey tx (Frame (TextFrame t)) b = (True, pump_text cr tk pubkey tx t b)"
| "pump_item cr tk pubkey tx (Frame (BinaryFrame bs)) b = (True, pump_text cr tk pubkey tx (from_utf8_lossy bs) b)"
| "pump_item cr tk pubkey tx (Frame CloseFrame) b = (False, b)"
| "pump_item cr tk pubkey tx (Frame PingFrame) b = (True, b)"
| "pump_item cr tk pubkey tx (Frame PongFrame) b = (True, b)"
| "pump_item cr tk pubkey tx StreamError b = (False, b)"
| "pump_item cr tk pubkey tx EndOfStream b = (False, b)"

definition claim_label :: "unit result \<Rightarrow> string" where
  "claim_label r =
     (case r of Inr _ \<Rightarrow> ''ok'' | Inl HandleTaken \<Rightarrow> ''conflict'' | Inl HandleAlreadyOwned \<Rightarrow> ''conflict'' | Inl _ \<Rightarrow> ''error'')"

text \<open>The database part of a registration: whether the handle was claimed.\<close>

definition register_db :: "crates \<Rightarrow> tick \<Rightarrow> string \<Rightarrow> string option \<Rightarrow> identity_kind \<Rightarrow> string option \<Rightarrow> chan_id \<Rightarrow> broker
    \<Rightarrow> bool \<times> broker" where
  "register_db cr tk pubkey requested_handle kind request_id tx b =
     (case b_db b of
        Some s \<Rightarrow>
          (case upsert_peer_with_kind cr (tk_db1 tk) pubkey (kind_as_str kind) s of
             (_, s1) \<Rightarrow>
               (case requested_handle of
                  None \<Rightarrow> (False, b\<lparr>b_db := Some s1\<rparr>)
                | Some h \<Rightarrow>
                    (case claim cr (tk_db2 tk) (tk_db3 tk) pubkey h s1 of
                       (r, s2) \<Rightarrow>
                         let m = b_metrics b
                         in (r = Inr (),
                             b\<lparr>b_db := Some s2,
                               b_metrics := m\<lparr>handle_claims_total := vec_inc (claim_label r) (handle_claims_total m)\<rparr>\<rparr>))))
      | None \<Rightarrow>
          if requested_handle \<noteq> None
          then (False, send_tx tx (error_msg (Internal ''handle claims require Postgres'') request_id) b)
          else (False, b))"

definition register_peer :: "crates \<Rightarrow> tick \<Rightarrow> socket_addr \<Rightarrow> string \<Rightarrow> string option \<Rightarrow> peer_addresses \<Rightarrow> identity_kind
    \<Rightarrow> string option \<Rightarrow> chan_id \<Rightarrow> broker \<Rightarrow> broker" where
  "register_peer cr tk addr pubkey requested_handle addresses kind request_id tx b =
     (let (handle_claimed, b1) = register_db cr tk pubkey requested_handle kind request_id tx b;
          peer = \<lparr>ph_pubkey = pubkey, ph_handle = (if handle_claimed then requested_handle else None),
                  ph_addresses = addresses, ph_reflected = addr, ph_tx = tx\<rparr>;
          m = b_metrics b1;
          b2 = b1\<lparr>b_registry := reg_insert peer (b_registry b1),
                  b_metrics := m\<lparr>connected_peers := connected_peers m + 1,
                                registrations_total := registrations_total m + 1\<rparr>\<rparr>;
          b3 = send_tx tx (Registered pubkey (format_reflected addr) handle_claimed request_id) b2
      in b3\<lparr>b_channels := broadcast (b_presence b3) (b_registry b3) pubkey True (b_channels b3)\<rparr>)"

fun first_text :: "stream_item \<Rightarrow> string option" where
  "first_text (Frame (TextFrame t)) = Some t"
| "first_text (Frame (BinaryFrame bs)) = Some (from_utf8_lossy bs)"
| "first_text _ = None"

text \<open>\<open>serve_socket\<close> up to the message loop: the session's public key, or the error it ends with.\<close>

definition serve_start :: "crates \<Rightarrow> tick \<Rightarrow> socket_addr \<Rightarrow> chan_id \<Rightarrow> stream_item \<Rightarrow> broker \<Rightarrow> string result \<times> broker" where
  "serve_start cr tk addr tx item b =
     (case first_text item of
        None \<Rightarrow> (Inl (Malformed ''no register message''),
                 send_tx tx (error_msg (Malformed ''first message must be JSON text'') None) b)
      | Some t \<Rightarrow>
     (case map_err (\<lambda>e. Malformed (''first message parse: '' @ e)) (json_message cr t) of
        Inl e \<Rightarrow> (Inl e, b)
      | Inr register_msg \<Rightarrow>
     (case register_msg of
        Register pubkey handle addresses kind ts sg request_id \<Rightarrow>
          (case verify_signed_message cr (tk_now tk) register_msg of
             Inl e \<Rightarrow> (Inl SignatureVerifyFailed, send_tx tx (error_msg e request_id) b)
           | Inr _ \<Rightarrow> (Inr pubkey, register_peer cr tk addr pubkey handle addresses (unwrap_or User kind) request_id tx b))
      | _ \<Rightarrow> (Inl (Malformed ''first message must be register''),
              send_tx tx (error_msg (Malformed ''first message must be `register`'') (cm_request_id register_msg)) b))))"

text \<open>\<open>serve_socket\<close> after the message loop.\<close>

definition serve_end :: "string \<Rightarrow> broker \<Rightarrow> broker" where
  "serve_end pubkey b =
     (let m = b_metrics b;
          b1 = b\<lparr>b_registry := snd (reg_remove pubkey (b_registry b)),
                 b_metrics := m\<lparr>connected_peers := connected_peers m - 1\<rparr>,
                 b_presence := clear_subscriber pubkey (b_presence b),
                 b_relay := drop_sessions_for pubkey (b_relay b)\<rparr>
      in b1\<lparr>b_channels := broadcast (b_presence b1) (b_registry b1) pubkey False (b_channels b1)\<rparr>)"

section \<open>All connections\<close>

record server =
  srv_broker :: broker
  srv_conns :: "(chan_id, string) dashmap"

text \<open>A connection is opened with its first item, receives items, or loses its writer task
  (which drops the receiving end of its channel).\<close>

datatype event =
    Connect chan_id socket_addr stream_item tick
  | Receive chan_id stream_item tick
  | WriterGone chan_id

definition open_channel :: "chan_id \<Rightarrow> broker \<Rightarrow> broker" where
  "open_channel tx b = b\<lparr>b_channels := dm_insert tx \<lparr>ch_alive = True, ch_log = []\<rparr> (b_channels b)\<rparr>"

definition close_channel :: "chan_id \<Rightarrow> broker \<Rightarrow> broker" where
  "close_channel tx b =
     (case dm_get (b_channels b) tx of
        None \<Rightarrow> b
      | Some c \<Rightarrow> b\<lparr>b_channels := dm_insert tx (c\<lparr>ch_alive := False\<rparr>) (b_channels b)\<rparr>)"

fun server_step :: "crates \<Rightarrow> server \<Rightarrow> event \<Rightarrow> server" where
  "server_step cr s (Connect tx addr item tk) =
     (case serve_start cr tk addr tx item (open_channel tx (srv_broker s)) of
        (Inl e, b) \<Rightarrow> s\<lparr>srv_broker := close_channel tx b\<rparr>
      | (Inr pk, b) \<Rightarrow> s\<lparr>srv_broker := b, srv_conns := dm_insert tx pk (srv_conns s)\<rparr>)"
| "server_step cr s (Receive tx item tk) =
     (case dm_get (srv_conns s) tx of
        None \<Rightarrow> s
      | Some pk \<Rightarrow>
          (case pump_item cr tk pk tx item (srv_broker s) of
             (True, b) \<Rightarrow> s\<lparr>srv_broker := b\<rparr>
           | (False, b) \<Rightarrow> s\<lparr>srv_broker := close_channel tx (serve_end pk b), srv_conns := dm_remove tx (srv_conns s)\<rparr>))"
| "server_step cr s (WriterGone tx) = s\<lparr>srv_broker := close_channel tx (srv_broker s)\<rparr>"

text \<open>A new connection has a new channel.\<close>

fun server_ok :: "server \<Rightarrow> event \<Rightarrow> bool" where
  "server_ok s (Connect tx addr item tk) = (dm_get (b_channels (srv_broker s)) tx = None)"
| "server_ok s _ = True"

definition server_new :: "dbs option \<Rightarrow> server" where
  "server_new db = \<lparr>srv_broker = in_memory\<lparr>b_db := db\<rparr>, srv_conns = dm_empty\<rparr>"

end
