(* ===== verification/Server_Safety.thy ===== *)
theory Server_Safety
  imports Server
begin

text \<open>
  What the server guarantees over every sequence of connections, frames and disconnections:
  who can act in whose name, who is registered, what a refused message does, and what a
  closing connection leaves behind.
\<close>

section \<open>Growing logs\<close>

text \<open>\<open>extends P cs cs'\<close>: every channel holds what it held and then only messages of kind \<open>P\<close>.\<close>

definition extends :: "(server_message \<Rightarrow> bool) \<Rightarrow> channels \<Rightarrow> channels \<Rightarrow> bool" where
  "extends P cs cs' \<longleftrightarrow> (\<forall>j. \<exists>ms. chan_log cs' j = chan_log cs j @ ms \<and> (\<forall>m \<in> set ms. P m))"

lemma extends_refl [simp, intro]: "extends P cs cs"
  by (simp add: extends_def)

lemma extends_trans: "extends P a b \<Longrightarrow> extends P b c \<Longrightarrow> extends P a c"
  unfolding extends_def by (metis Un_iff append.assoc set_append)

lemma extends_send: "P m \<Longrightarrow> extends P cs (snd (chan_send tx m cs))"
  unfolding extends_def by (auto simp: ch.log_send)

lemma extends_try_send: "P m \<Longrightarrow> extends P cs (snd (try_send tx m cs))"
  unfolding try_send_eq by (simp add: extends_send)

lemma extends_by:
  "(\<And>j. chan_log cs' j = chan_log cs j @ f j) \<Longrightarrow> (\<And>j m. m \<in> set (f j) \<Longrightarrow> P m) \<Longrightarrow> extends P cs cs'"
  unfolding extends_def by blast

lemma extends_send_tx: "P m \<Longrightarrow> extends P (b_channels b) (b_channels (send_tx tx m b))"
  by (simp add: send_tx_def extends_send)

lemma extends_broadcast: "P (PresenceUpdate pk on) \<Longrightarrow> extends P cs (broadcast pm r pk on cs)"
  by (rule extends_by [OF chan_log_broadcast]) (auto split: if_splits)

lemma extends_then_send: "extends P cs (b_channels b) \<Longrightarrow> P m \<Longrightarrow> extends P cs (b_channels (send_tx tx m b))"
  by (rule extends_trans [OF _ extends_send_tx])

lemma extends_then_broadcast:
  "extends P cs cs' \<Longrightarrow> P (PresenceUpdate pk on) \<Longrightarrow> extends P cs (broadcast pm r pk on cs')"
  by (rule extends_trans [OF _ extends_broadcast])

lemma extends_signal:
  "P (SignalMsg f payload ts) \<Longrightarrow> extends P cs (snd (snd (relay_signal cr reg now ts f t payload (lm, cs))))"
  by (simp add: relay_signal_def Let_def split_beta extends_try_send split: sum.split)

lemma extends_request:
  "P (RelayOffer (uuid_text cr sid) i) \<Longrightarrow> extends P cs (snd (snd (request cr reg sid i p (rm, cs))))"
  by (auto simp: request_def Let_def split_beta extends_try_send split: sum.split)

lemma extends_accept:
  assumes "\<And>a b. P (RelaySessionEstablished a b None)"
  shows "extends P cs (snd (snd (accept cr reg p sid (rm, cs))))"
proof -
  have "extends P cs (snd (announce_session cr reg sid i p cs))" for i
    by (auto simp: announce_session_def split_beta assms intro: extends_try_send
        extends_trans [OF extends_try_send extends_try_send] split: sum.split)
  then show ?thesis by (simp add: accept_def split_beta split: sum.split)
qed

lemma extends_forward:
  "P (RelayData (uuid_text cr sid) s data) \<Longrightarrow> extends P cs (snd (snd (forward cr reg ts s sid data (rm, cs))))"
  by (auto simp: forward_simps deliver_def extends_try_send split: sum.split option.split)

section \<open>In whose name\<close>

text \<open>The sender a message names, if it is one that a peer caused.\<close>

fun claims_sender :: "server_message \<Rightarrow> string option" where
  "claims_sender (SignalMsg f _ _) = Some f"
| "claims_sender (RelayOffer _ f) = Some f"
| "claims_sender (RelayData _ f _) = Some f"
| "claims_sender _ = None"

text \<open>The client message that a message to another peer carries on.\<close>

fun authored :: "client_message \<Rightarrow> server_message \<Rightarrow> bool" where
  "authored (Signal pk t payload ts sg rid) (SignalMsg f p _) = (f = pk \<and> p = payload)"
| "authored (RequestRelay pk p ts sg rid) (RelayOffer _ f) = (f = pk)"
| "authored (Relay pk sid d ts sg) (RelayData _ f data) = (f = pk \<and> data = d)"
| "authored _ m = (claims_sender m = None)"

lemma authored_plain [simp]: "claims_sender m = None \<Longrightarrow> authored msg m"
  by (cases msg; cases m) simp_all

lemma extends_fold_updates:
  "(\<And>pk on. P (PresenceUpdate pk on)) \<Longrightarrow>
     extends P (b_channels b) (b_channels (fold (\<lambda>(pk, on) b. send_tx tx (PresenceUpdate pk on) b) us b))"
proof (induction us arbitrary: b)
  case (Cons u us)
  obtain pk on where u: "u = (pk, on)" by fastforce
  have "extends P (b_channels b) (b_channels (send_tx tx (PresenceUpdate pk on) b))"
    by (rule extends_send_tx) (rule Cons.prems)
  from extends_trans [OF this Cons.IH] Cons.prems show ?case by (simp add: u)
qed simp

lemma error_msg_plain [simp]: "claims_sender (error_msg e r) = None"
  by (simp add: error_msg_def)

lemma resolved_kind_channels [simp]: "b_channels (snd (resolved_kind cr pk b)) = b_channels b"
  by (simp add: resolved_kind_def split_beta split: option.split)

lemma resolve_target_channels [simp]: "b_channels (snd (resolve_target cr h b)) = b_channels b"
  by (simp add: resolve_target_def split_beta split: option.split)

lemma dispatch_extends:
  assumes "cm_pubkey msg = spk"
  shows "extends (authored msg) (b_channels b) (b_channels (snd (dispatch cr tk spk tx msg b)))"
proof (cases msg)
  case (Register pk h a k ts sg rid)
  then show ?thesis by (simp add: on_register_def Let_def extends_send_tx)
next
  case (LookupPeer pk target ts sg rid)
  have "extends (authored msg) (b_channels b) (b_channels (send_tx tx m (snd (resolved_kind cr target b))))" if "claims_sender m = None" for m
    using extends_send_tx [of "authored msg" m "snd (resolved_kind cr target b)" tx] that by simp
  then show ?thesis by (simp add: LookupPeer on_lookup_peer_def Let_def split_beta split: option.split)
next
  case (LookupHandle pk target ts sg rid)
  have "extends (authored msg) (b_channels b) (b_channels (send_tx tx m b'))" if "claims_sender m = None" "b_channels b' = b_channels b" for m b'
    using extends_send_tx [of "authored msg" m b' tx] that by simp
  then show ?thesis using resolve_target_channels [of cr target b]
    by (simp add: LookupHandle on_lookup_handle_def Let_def split_beta split: prod.split sum.split option.split)
next
  case (Signal pk t payload ts sg rid)
  then show ?thesis using assms
    by (auto simp: on_signal_def Let_def split_beta intro: extends_signal split: sum.split)
next
  case (SubscribePresence pk peers ts sg rid)
  have "extends (authored msg) (b_channels b1) (b_channels (fold (\<lambda>(pk, on) b. send_tx tx (PresenceUpdate pk on) b) us
      (send_tx tx (SubscribePresenceAck peers rid) b1)))" for us b1
    by (rule extends_trans [OF extends_send_tx extends_fold_updates]) simp_all
  from this [of "b\<lparr>b_presence := p, b_metrics := m\<rparr>" for p m] show ?thesis
    by (simp add: SubscribePresence on_subscribe_def Let_def)
next
  case (RequestRelay pk peer ts sg rid)
  have reply: "extends (authored msg) (b_channels b) (b_channels (send_tx tx (RelaySessionEstablished s peer rid) b'))"
    if "extends (authored msg) (b_channels b) (b_channels b')" for b' s
    by (rule extends_trans [OF that extends_send_tx]) simp
  have "extends (authored msg) (b_channels b)
      (snd (snd (request cr (b_registry b) (tk_session tk) spk peer (b_relay b, b_channels b))))"
    by (rule extends_request) (use assms RequestRelay in simp)
  then show ?thesis unfolding RequestRelay dispatch.simps
    by (auto simp: on_request_relay_def Let_def split_beta intro!: reply [unfolded RequestRelay] split: sum.split)
next
  case (AcceptRelay pk sid ts sg rid)
  then show ?thesis by (auto simp: on_accept_relay_def split_beta intro!: extends_accept split: sum.split)
next
  case (Relay pk sid data ts sg)
  then show ?thesis using assms
    by (auto simp: on_relay_def Let_def split_beta intro!: extends_forward split: sum.split)
next
  case (TeamAnnounce pk tid name admin asig ts sg rid)
  have "extends (authored msg) (b_channels b) (b_channels (send_tx tx m b'))" if "claims_sender m = None" "b_channels b' = b_channels b" for m b'
    using extends_send_tx [of "authored msg" m b' tx] that by simp
  then show ?thesis
    by (simp add: TeamAnnounce on_team_announce_def Let_def split_beta split: sum.split option.split)
next
  case (TeamLookup pk tid ts sg rid)
  have "extends (authored msg) (b_channels b) (b_channels (send_tx tx m b'))" if "claims_sender m = None" "b_channels b' = b_channels b" for m b'
    using extends_send_tx [of "authored msg" m b' tx] that by simp
  then show ?thesis
    by (simp add: TeamLookup on_team_lookup_def Let_def split_beta split: sum.split option.split)
qed (simp_all add: on_unsubscribe_def Let_def extends_send_tx)

text \<open>A client message that was accepted as its sender's: read from the frame and verified.\<close>

definition verified_in :: "crates \<Rightarrow> i64 \<Rightarrow> stream_item \<Rightarrow> client_message \<Rightarrow> bool" where
  "verified_in cr now item msg \<longleftrightarrow>
     (\<exists>text vk. first_text item = Some text \<and> json_message cr text = Inr msg \<and> verify_signed_message cr now msg = Inr vk)"

lemma pump_text_extends:
  "extends (\<lambda>m. claims_sender m = None \<or>
      (\<exists>msg vk. json_message cr text = Inr msg \<and> verify_signed_message cr (tk_now tk) msg = Inr vk \<and>
         cm_pubkey msg = pk \<and> authored msg m))
    (b_channels b) (b_channels (pump_text cr tk pk tx text b))"
  (is "extends ?P _ _")
proof -
  have "extends ?P (b_channels b) (b_channels (snd (handle_client_message cr tk pk text tx b)))"
  proof (cases "json_message cr text")
    case (Inr msg)
    show ?thesis
    proof (cases "verify_signed_message cr (tk_now tk) msg")
      case (Inr vk)
      have "extends ?P (b_channels b) (b_channels (snd (dispatch cr tk pk tx msg b)))" if "cm_pubkey msg = pk"
        using dispatch_extends [OF that, of b cr tk tx] \<open>json_message cr text = Inr msg\<close> Inr that
        unfolding extends_def by blast
      with \<open>json_message cr text = Inr msg\<close> Inr show ?thesis by (simp add: handle_client_message_def)
    qed (simp add: handle_client_message_def Inr)
  qed (simp add: handle_client_message_def)
  then show ?thesis
    by (auto simp: pump_text_def Let_def split_beta split: sum.split intro!: extends_then_send)
qed

lemma register_peer_extends:
  "extends (\<lambda>m. claims_sender m = None) (b_channels b)
     (b_channels (register_peer cr tk addr pk h a k rid tx b))"
proof -
  let ?P = "\<lambda>m. claims_sender m = None"
  have db: "extends ?P (b_channels b) (b_channels (snd (register_db cr tk pk h k rid tx b)))"
    by (auto simp: register_db_def Let_def split_beta intro: extends_send_tx split: option.split)
  then show ?thesis
    unfolding register_peer_def Let_def split_beta by (auto intro!: extends_then_broadcast extends_then_send)
qed

lemma serve_start_extends:
  "extends (\<lambda>m. claims_sender m = None) (b_channels b) (b_channels (snd (serve_start cr tk addr tx item b)))"
  by (auto simp: serve_start_def intro: extends_send_tx register_peer_extends split: option.split sum.split client_message.split)

lemma serve_end_extends: "extends (\<lambda>m. claims_sender m = None) (b_channels b) (b_channels (serve_end pk b))"
  by (auto simp: serve_end_def Let_def intro: extends_broadcast)

lemma close_channel_log [simp]: "chan_log (b_channels (close_channel tx b)) j = chan_log (b_channels b) j"
  by (simp add: close_channel_def chan_log_def split: option.split)

lemma open_channel_log [simp]: "chan_log (b_channels (open_channel tx b)) j = (if j = tx then [] else chan_log (b_channels b) j)"
  by (simp add: open_channel_def chan_log_def)

text \<open>A new message that names a sender comes from a verified message of that sender in the
  frame being handled.\<close>

fun caused :: "crates \<Rightarrow> event \<Rightarrow> server_message \<Rightarrow> bool" where
  "caused cr (Receive tx item tk) m \<longleftrightarrow>
     claims_sender m = None \<or> (\<exists>msg. verified_in cr (tk_now tk) item msg \<and> authored msg m)"
| "caused cr _ m \<longleftrightarrow> claims_sender m = None"

lemma extends_new: "extends P cs cs' \<Longrightarrow> m \<in> set (chan_log cs' j) \<Longrightarrow> m \<in> set (chan_log cs j) \<or> P m"
  unfolding extends_def by (metis Un_iff set_append)

lemma pump_item_new:
  assumes "m \<in> set (chan_log (b_channels (snd (pump_item cr tk pk tx item b))) j)"
  shows "m \<in> set (chan_log (b_channels b) j) \<or> caused cr (Receive tx item tk) m"
  using assms extends_new [OF pump_text_extends, of m cr tk pk tx _ b j]
  by (cases "(cr, tk, pk, tx, item, b)" rule: pump_item.cases) (auto simp: verified_in_def)

lemma server_step_new:
  assumes "m \<in> set (chan_log (b_channels (srv_broker (server_step cr s e))) j)"
  shows "m \<in> set (chan_log (b_channels (srv_broker s)) j) \<or> caused cr e m"
proof (cases e)
  case (Connect tx addr item tk)
  let ?b = "open_channel tx (srv_broker s)"
  from assms have "m \<in> set (chan_log (b_channels (snd (serve_start cr tk addr tx item ?b))) j)"
    by (auto simp: Connect split: prod.splits sum.splits)
  from extends_new [OF serve_start_extends this] show ?thesis by (auto simp: Connect split: if_splits)
next
  case (Receive tx item tk)
  show ?thesis
  proof (cases "dm_get (srv_conns s) tx")
    case (Some pk)
    obtain go b where p: "pump_item cr tk pk tx item (srv_broker s) = (go, b)" by fastforce
    from assms have "m \<in> set (chan_log (b_channels b) j) \<or> claims_sender m = None"
      using extends_new [OF serve_end_extends, of m pk b j] by (cases go) (auto simp: Receive Some p)
    then show ?thesis using pump_item_new [of m cr tk pk tx item "srv_broker s" j] by (auto simp: Receive p)
  qed (use assms Receive in simp)
qed (use assms in simp)

text \<open>
  (C1) No one speaks for another: in every history of the server, whatever frames the peers
  send, a signal, a relayed frame or a relay offer that lies in any connection's channel was
  caused by a client message that carries the named sender's key and a signature that verified
  under it, received in some frame, and the forwarded content is the one that was signed.
\<close>
theorem delivered_messages_authenticated:
  assumes "m \<in> set (chan_log (b_channels (srv_broker (foldl (server_step cr) (server_new db) es))) j)"
    and "claims_sender m = Some f"
  shows "\<exists>tx item tk msg. Receive tx item tk \<in> set es \<and> verified_in cr (tk_now tk) item msg \<and>
    cm_pubkey msg = f \<and> authored msg m"
proof -
  have "\<exists>e \<in> set es. caused cr e m" if "claims_sender m \<noteq> None"
    using assms(1)
  proof (induction es rule: rev_induct)
    case Nil
    then show ?case by (simp add: server_new_def in_memory_def chan_log_def)
  next
    case (snoc e es)
    then show ?case using server_step_new [of m cr _ e j] by auto
  qed
  with assms(2) obtain e where "e \<in> set es" "caused cr e m" by auto
  moreover from this(2) assms(2) obtain tx item tk msg where
    "e = Receive tx item tk" "verified_in cr (tk_now tk) item msg" "authored msg m"
    by (cases e) auto
  moreover have "cm_pubkey msg = f"
    using \<open>authored msg m\<close> assms(2) by (cases msg; cases m) auto
  ultimately show ?thesis by blast
qed

end
