(* ===== verification/Server_Invariant.thy ===== *)
theory Server_Invariant
  imports Server_Safety
begin

text \<open>
  The invariant of the whole server, kept by every event: the components' invariants hold in
  the shared state, the registry lists only open sessions under their own keys and channels,
  and the gauge of connected peers counts the open sessions.
\<close>

section \<open>The shared state\<close>

fun pool_inv :: "dbs option \<Rightarrow> bool" where
  "pool_inv None = True"
| "pool_inv (Some s) = db_inv (fst s)"

definition broker_inv :: "broker \<Rightarrow> bool" where
  "broker_inv b \<longleftrightarrow> presence_inv (b_presence b) \<and> relay_inv (b_relay b, []) \<and> limiter_inv (b_limiter b) \<and>
     pool_inv (b_db b)"

lemma send_tx_simps [simp]:
  "b_db (send_tx tx m b) = b_db b" "b_registry (send_tx tx m b) = b_registry b"
  "b_presence (send_tx tx m b) = b_presence b" "b_relay (send_tx tx m b) = b_relay b"
  "b_limiter (send_tx tx m b) = b_limiter b" "b_metrics (send_tx tx m b) = b_metrics b"
  by (simp_all add: send_tx_def)

lemma fold_send_tx:
  assumes "\<And>tx m b. F (send_tx tx m b) = F b"
  shows "F (fold (\<lambda>(pk, on) b. send_tx tx (PresenceUpdate pk on) b) us b) = F b"
  by (induction us arbitrary: b) (auto simp: assms)

lemmas fold_send_simps [simp] =
  fold_send_tx [of b_db, OF send_tx_simps(1)] fold_send_tx [of b_registry, OF send_tx_simps(2)]
  fold_send_tx [of b_presence, OF send_tx_simps(3)] fold_send_tx [of b_relay, OF send_tx_simps(4)]
  fold_send_tx [of b_limiter, OF send_tx_simps(5)] fold_send_tx [of b_metrics, OF send_tx_simps(6)]

lemma send_tx_log:
  "chan_log (b_channels (send_tx tx m b)) j =
     chan_log (b_channels b) j @ (if j = tx \<and> chan_alive (b_channels b) tx then [m] else [])"
  "chan_alive (b_channels (send_tx tx m b)) j = chan_alive (b_channels b) j"
  by (auto simp: send_tx_def)

lemma fold_send_log:
  "chan_log (b_channels (fold (\<lambda>(q, on) b. send_tx tx (PresenceUpdate q on) b) us b)) j =
     chan_log (b_channels b) j @
     (if j = tx \<and> chan_alive (b_channels b) tx then map (\<lambda>(q, on). PresenceUpdate q on) us else [])"
  by (induction us arbitrary: b) (auto simp: send_tx_log)

lemma broker_inv_send [simp]: "broker_inv (send_tx tx m b) = broker_inv b"
  by (simp add: broker_inv_def)

lemma broker_inv_fold [simp]:
  "broker_inv (fold (\<lambda>(pk, on) b. send_tx tx (PresenceUpdate pk on) b) us b) = broker_inv b"
  by (rule fold_send_tx) simp

lemma qbind_inv:
  assumes "I (snd m)" and "\<And>a s. I s \<Longrightarrow> I (snd (f a s))"
  shows "I (snd (qbind m f))"
proof -
  obtain r s where "m = (r, s)" by (metis surj_pair)
  with assms show ?thesis by (cases r) simp_all
qed

text \<open>The operations of the database keep its invariant, from any state of the pool.\<close>

lemma db_inv_ops:
  assumes "db_inv (fst s)"
  shows "db_inv (fst (snd (upsert_peer cr now pk s)))" "db_inv (fst (snd (upsert_peer_with_kind cr now pk kind s)))"
    "db_inv (fst (snd (upsert_team cr now fresh tid name admin s)))"
    "db_inv (fst (snd (add_team_member cr now i pk sig s)))" "db_inv (fst (snd (claim_handle cr now pk h s)))"
  using tables.step_inv [where s = s and e = "UpsertPeer now pk" and cr = cr]
    tables.step_inv [where s = s and e = "UpsertPeerKind now pk kind" and cr = cr]
    tables.step_inv [where s = s and e = "UpsertTeam now fresh tid name admin" and cr = cr]
    tables.step_inv [where s = s and e = "AddMember now i pk sig" and cr = cr]
    tables.step_inv [where s = s and e = "ClaimHandle now pk h" and cr = cr] assms by simp_all

lemma db_inv_read:
  assumes "db_inv (fst s)"
  shows "db_inv (fst (snd (peer_kind cr pk s)))" "db_inv (fst (snd (resolve cr h s)))" "db_inv (fst (snd (members cr i s)))"
  using assms unfolding peer_kind_def resolve_def resolve_handle_def members_def team_members_def
  by (cases s, simp add: query_read)+

lemma db_inv_claim: "db_inv (fst s) \<Longrightarrow> db_inv (fst (snd (claim cr t1 t2 pk h s)))"
  by (auto simp: claim_def db_inv_ops intro: qbind_inv [of "\<lambda>s. db_inv (fst s)"] split: sum.split)

lemma db_inv_announce: "db_inv (fst s) \<Longrightarrow> db_inv (fst (snd (announce cr t1 t2 t3 fresh pk tid name admin sig s)))"
  unfolding announce_def
  by (rule qbind_inv [of "\<lambda>s. db_inv (fst s)"])
    (auto simp: db_inv_ops intro!: qbind_inv [of "\<lambda>s. db_inv (fst s)"] split: sum.split)

lemma relay_inv_ops:
  assumes "relay_inv (rm, [])"
  shows "relay_inv (fst (snd (request cr reg sid i p (rm, cs))), [])" "relay_inv (fst (snd (accept cr reg p sid (rm, cs))), [])"
    "relay_inv (fst (snd (forward cr reg ts p sid data (rm, cs))), [])" "relay_inv (drop_sessions_for p rm, [])"
proof -
  have "relay_inv (rm, cs)" using assms by (simp add: relay_inv_def)
  note step = relay.step_inv [where s = "(rm, cs)" and cr = cr, OF this TrueI]
  have fst_inv: "relay_inv st \<Longrightarrow> relay_inv (fst st, [])" for st by (simp add: relay_inv_def)
  show "relay_inv (fst (snd (request cr reg sid i p (rm, cs))), [])"
    using fst_inv [OF step [of "Request reg sid i p"]] by simp
  show "relay_inv (fst (snd (accept cr reg p sid (rm, cs))), [])"
    using fst_inv [OF step [of "Accept reg p sid"]] by simp
  show "relay_inv (fst (snd (forward cr reg ts p sid data (rm, cs))), [])"
    using fst_inv [OF step [of "Forward reg ts p sid data"]] by simp
  show "relay_inv (drop_sessions_for p rm, [])"
    using fst_inv [OF step [of "DropFor p"]] by simp
qed

lemma broker_inv_resolved: "broker_inv b \<Longrightarrow> broker_inv (snd (resolved_kind cr pk b))"
  by (auto simp: broker_inv_def resolved_kind_def split_beta db_inv_read split: option.split)

lemma broker_inv_target: "broker_inv b \<Longrightarrow> broker_inv (snd (resolve_target cr h b))"
  by (auto simp: broker_inv_def resolve_target_def split_beta db_inv_read split: option.split)

lemma broker_inv_dispatch:
  assumes "broker_inv b"
  shows "broker_inv (snd (dispatch cr tk spk tx msg b))"
proof (cases msg)
  case (LookupPeer pk target ts sg rid)
  then show ?thesis using broker_inv_resolved [OF assms, of cr target]
    by (simp add: on_lookup_peer_def Let_def split_beta split: option.split)
next
  case (LookupHandle pk target ts sg rid)
  obtain r b1 where t: "resolve_target cr target b = (r, b1)" by fastforce
  have "broker_inv b1" using broker_inv_target [OF assms, of cr target] t by simp
  with broker_inv_resolved [OF this] show ?thesis
    by (simp add: LookupHandle on_lookup_handle_def t Let_def split_beta split: sum.split option.split)
next
  case (Signal pk t payload ts sg rid)
  have "limiter_inv (fst (snd (relay_signal cr (b_registry b) now ts' spk t payload (b_limiter b, b_channels b))))" for now ts'
    using assms limiter_check_inv by (simp add: signal_limiter broker_inv_def)
  with assms show ?thesis by (simp add: Signal on_signal_def broker_inv_def Let_def split_beta split: sum.split)
next
  case (TeamAnnounce pk tid name admin asig ts sg rid)
  with assms show ?thesis
    by (auto simp: on_team_announce_def broker_inv_def Let_def split_beta db_inv_announce split: sum.split option.split)
next
  case (TeamLookup pk tid ts sg rid)
  with assms show ?thesis
    by (auto simp: on_team_lookup_def broker_inv_def Let_def split_beta db_inv_read split: sum.split option.split)
qed (use assms in \<open>simp_all add: on_register_def on_subscribe_def on_unsubscribe_def on_request_relay_def on_accept_relay_def
       on_relay_def broker_inv_def Let_def split_beta presence_inv_subscribe presence_inv_unsubscribe relay_inv_ops split: sum.split\<close>)

section \<open>What a message handler leaves alone\<close>

lemma resolved_kind_frame [simp]:
  "b_registry (snd (resolved_kind cr pk b)) = b_registry b" "b_metrics (snd (resolved_kind cr pk b)) = b_metrics b"
  by (simp_all add: resolved_kind_def split_beta split: option.split)

lemma resolve_target_frame [simp]:
  "b_registry (snd (resolve_target cr h b)) = b_registry b" "b_metrics (snd (resolve_target cr h b)) = b_metrics b"
  by (simp_all add: resolve_target_def split_beta split: option.split)

lemma dispatch_registry [simp]: "b_registry (snd (dispatch cr tk spk tx msg b)) = b_registry b"
proof (cases msg)
  case (LookupHandle pk target ts sg rid)
  obtain r b1 where t: "resolve_target cr target b = (r, b1)" by fastforce
  have "b_registry b1 = b_registry b" using resolve_target_frame(1) [of cr target b] t by simp
  then show ?thesis by (simp add: LookupHandle on_lookup_handle_def t Let_def split_beta split: sum.split option.split)
qed (simp_all add: on_register_def on_lookup_peer_def on_signal_def on_subscribe_def on_unsubscribe_def on_request_relay_def
      on_accept_relay_def on_relay_def on_team_announce_def on_team_lookup_def Let_def split_beta split: sum.split option.split)

lemma dispatch_gauge [simp]:
  "connected_peers (b_metrics (snd (dispatch cr tk spk tx msg b))) = connected_peers (b_metrics b)"
proof (cases msg)
  case (LookupHandle pk target ts sg rid)
  obtain r b1 where t: "resolve_target cr target b = (r, b1)" by fastforce
  have "b_metrics b1 = b_metrics b" using resolve_target_frame(2) [of cr target b] t by simp
  then show ?thesis by (simp add: LookupHandle on_lookup_handle_def t Let_def split_beta split: sum.split option.split)
qed (simp_all add: on_register_def on_lookup_peer_def on_signal_def on_subscribe_def on_unsubscribe_def on_request_relay_def
      on_accept_relay_def on_relay_def on_team_announce_def on_team_lookup_def Let_def split_beta split: sum.split option.split)

lemma handle_frame:
  "b_registry (snd (handle_client_message cr tk pk text tx b)) = b_registry b"
  "connected_peers (b_metrics (snd (handle_client_message cr tk pk text tx b))) = connected_peers (b_metrics b)"
  "broker_inv b \<Longrightarrow> broker_inv (snd (handle_client_message cr tk pk text tx b))"
  by (auto simp: handle_client_message_def broker_inv_dispatch split: sum.split)

lemma broker_inv_metrics [simp]: "broker_inv (b\<lparr>b_metrics := m\<rparr>) = broker_inv b"
  by (simp add: broker_inv_def)

lemma pump_text_frame:
  "b_registry (pump_text cr tk pk tx text b) = b_registry b"
  "connected_peers (b_metrics (pump_text cr tk pk tx text b)) = connected_peers (b_metrics b)"
  "broker_inv b \<Longrightarrow> broker_inv (pump_text cr tk pk tx text b)"
  by (simp_all add: pump_text_def Let_def split_beta handle_frame split: sum.split)

lemma pump_item_frame:
  "b_registry (snd (pump_item cr tk pk tx item b)) = b_registry b"
  "connected_peers (b_metrics (snd (pump_item cr tk pk tx item b))) = connected_peers (b_metrics b)"
  "broker_inv b \<Longrightarrow> broker_inv (snd (pump_item cr tk pk tx item b))"
  by (cases "(cr, tk, pk, tx, item, b)" rule: pump_item.cases; simp add: pump_text_frame)+

section \<open>Opened channels stay in the table\<close>

definition knows :: "channels \<Rightarrow> channels \<Rightarrow> bool" where
  "knows cs cs' \<longleftrightarrow> (\<forall>j. dm_get cs j \<noteq> None \<longrightarrow> dm_get cs' j \<noteq> None)"

lemma knows_refl [simp]: "knows cs cs"
  by (simp add: knows_def)

lemma knows_trans: "knows a b \<Longrightarrow> knows b c \<Longrightarrow> knows a c"
  by (simp add: knows_def)

lemma knows_send: "knows cs (snd (chan_send tx m cs))"
  by (auto simp: knows_def chan_send_def split: option.split)

lemma knows_try_send: "knows cs (snd (try_send tx m cs))"
  by (simp add: try_send_eq knows_send)

lemma knows_then_send: "knows cs (b_channels b) \<Longrightarrow> knows cs (b_channels (send_tx tx m b))"
  unfolding send_tx_def by (auto intro: knows_trans knows_send)

lemma knows_fold_updates:
  "knows cs (b_channels b) \<Longrightarrow> knows cs (b_channels (fold (\<lambda>(pk, on) b. send_tx tx (PresenceUpdate pk on) b) us b))"
  by (induction us arbitrary: b) (auto intro: knows_then_send)

lemma knows_broadcast: "knows cs cs' \<Longrightarrow> knows cs (broadcast pm r pk on cs')"
proof -
  have "knows cs cs' \<Longrightarrow> knows cs (broadcast_loop r m ws cs')" for m ws
    by (induction ws arbitrary: cs') (auto intro: knows_trans [OF _ knows_try_send] split: option.split)
  then show "knows cs cs' \<Longrightarrow> ?thesis" by (simp add: broadcast_def split: option.split)
qed

lemma knows_ops:
  "knows cs (snd (snd (relay_signal cr reg now ts f t payload (lm, cs))))"
  "knows cs (snd (snd (request cr reg sid i p (rm, cs))))"
  "knows cs (snd (snd (forward cr reg clk s sid data (rm, cs))))"
  "knows cs (snd (snd (accept cr reg p sid (rm, cs))))"
proof -
  have "knows cs (snd (announce_session cr reg sid i p cs))" for i
    by (auto simp: announce_session_def split_beta knows_try_send intro: knows_trans [OF knows_try_send knows_try_send] split: sum.split)
  then show "knows cs (snd (snd (accept cr reg p sid (rm, cs))))"
    by (simp add: accept_def split_beta split: sum.split)
qed (auto simp: relay_signal_def request_def forward_simps deliver_def Let_def split_beta knows_try_send split: sum.split option.split)

lemma knows_dispatch: "knows (b_channels b) (b_channels (snd (dispatch cr tk spk tx msg b)))"
proof (cases msg)
  case (LookupHandle pk target ts sg rid)
  obtain r b1 where t: "resolve_target cr target b = (r, b1)" by fastforce
  have "b_channels b1 = b_channels b" using resolve_target_channels [of cr target b] t by simp
  then show ?thesis
    by (auto simp: LookupHandle on_lookup_handle_def t Let_def split_beta intro!: knows_then_send split: sum.split option.split)
qed (auto simp: on_register_def on_lookup_peer_def on_signal_def on_subscribe_def on_unsubscribe_def on_request_relay_def
      on_accept_relay_def on_relay_def on_team_announce_def on_team_lookup_def Let_def split_beta knows_ops
      intro!: knows_then_send knows_fold_updates split: sum.split option.split)

lemma knows_pump_item: "knows (b_channels b) (b_channels (snd (pump_item cr tk pk tx item b)))"
proof -
  have "knows (b_channels b) (b_channels (snd (handle_client_message cr tk pk t tx b)))" for t
    by (auto simp: handle_client_message_def knows_dispatch split: sum.split)
  then have "knows (b_channels b) (b_channels (pump_text cr tk pk tx t b))" for t
    by (auto simp: pump_text_def Let_def split_beta intro!: knows_then_send split: sum.split)
  then show ?thesis
    by (cases "(cr, tk, pk, tx, item, b)" rule: pump_item.cases) simp_all
qed

section \<open>Registration and teardown\<close>

definition reg_wf :: "peer_registry \<Rightarrow> bool" where
  "reg_wf r \<longleftrightarrow> dm_wf (by_pubkey r) \<and> dm_wf (handle_to_pubkey r)"

lemma register_db_frame:
  "b_registry (snd (register_db cr tk pk h k rid tx b)) = b_registry b"
  "connected_peers (b_metrics (snd (register_db cr tk pk h k rid tx b))) = connected_peers (b_metrics b)"
  "knows (b_channels b) (b_channels (snd (register_db cr tk pk h k rid tx b)))"
  "broker_inv b \<Longrightarrow> broker_inv (snd (register_db cr tk pk h k rid tx b))"
  by (auto simp: register_db_def Let_def split_beta knows_then_send broker_inv_def db_inv_ops db_inv_claim split: option.split)

lemma register_peer_frame:
  fixes cr tk addr pk h a k rid tx b
  defines "b' \<equiv> register_peer cr tk addr pk h a k rid tx b"
  shows "\<exists>p. ph_pubkey p = pk \<and> ph_tx p = tx \<and> b_registry b' = reg_insert p (b_registry b)"
    and "connected_peers (b_metrics b') = connected_peers (b_metrics b) + 1"
    and "knows (b_channels b) (b_channels b')"
    and "broker_inv b \<Longrightarrow> broker_inv b'"
proof -
  show "\<exists>p. ph_pubkey p = pk \<and> ph_tx p = tx \<and> b_registry b' = reg_insert p (b_registry b)"
    unfolding b'_def register_peer_def Let_def split_beta
    by (rule exI [of _ "\<lparr>ph_pubkey = pk, ph_handle = (if fst (register_db cr tk pk h k rid tx b) then h else None),
        ph_addresses = a, ph_reflected = addr, ph_tx = tx\<rparr>"]) (simp add: register_db_frame)
  show "connected_peers (b_metrics b') = connected_peers (b_metrics b) + 1" "knows (b_channels b) (b_channels b')"
    unfolding b'_def register_peer_def Let_def split_beta by (simp_all add: register_db_frame knows_broadcast knows_then_send)
  assume "broker_inv b"
  from register_db_frame(4) [OF this] show "broker_inv b'"
    unfolding b'_def register_peer_def Let_def split_beta by (simp add: broker_inv_def)
qed

text \<open>A connection that is refused changes nothing but its own channel.\<close>

lemma serve_start_refused:
  assumes "serve_start cr tk addr tx item b = (Inl e, b')"
  shows "b' = b \<or> (\<exists>m. b' = send_tx tx m b)"
  using assms by (auto simp: serve_start_def split: option.splits sum.splits client_message.splits)

lemma serve_start_accepted:
  assumes "serve_start cr tk addr tx item b = (Inr pk, b')"
  shows "\<exists>h a k ts sg rid. verified_in cr (tk_now tk) item (Register pk h a k ts sg rid) \<and>
    b' = register_peer cr tk addr pk h a (unwrap_or User k) rid tx b"
proof -
  from assms obtain t where t: "first_text item = Some t" by (auto simp: serve_start_def split: option.splits)
  with assms obtain msg where m: "json_message cr t = Inr msg"
    by (cases "json_message cr t") (auto simp: serve_start_def)
  with t assms obtain h a k ts sg rid where r: "msg = Register pk h a k ts sg rid"
    by (cases msg) (auto simp: serve_start_def split: sum.splits)
  with t m assms show ?thesis
    by (cases "verify_signed_message cr (tk_now tk) msg") (auto simp: serve_start_def verified_in_def)
qed

lemma serve_end_frame:
  "b_registry (serve_end pk b) = snd (reg_remove pk (b_registry b))"
  "connected_peers (b_metrics (serve_end pk b)) = connected_peers (b_metrics b) - 1"
  "b_presence (serve_end pk b) = clear_subscriber pk (b_presence b)"
  "b_relay (serve_end pk b) = drop_sessions_for pk (b_relay b)"
  "knows (b_channels b) (b_channels (serve_end pk b))"
  "broker_inv b \<Longrightarrow> broker_inv (serve_end pk b)"
  by (simp_all add: serve_end_def Let_def knows_broadcast broker_inv_def presence_inv_clear relay_inv_ops)

lemma close_channel_frame [simp]:
  "b_registry (close_channel tx b) = b_registry b" "b_metrics (close_channel tx b) = b_metrics b"
  "b_presence (close_channel tx b) = b_presence b" "b_relay (close_channel tx b) = b_relay b"
  "b_db (close_channel tx b) = b_db b" "b_limiter (close_channel tx b) = b_limiter b"
  "broker_inv (close_channel tx b) = broker_inv b"
  by (simp_all add: close_channel_def broker_inv_def split: option.split)

lemma chan_insert:
  "chan_alive (dm_insert i c cs) j = (if j = i then ch_alive c else chan_alive cs j)"
  "chan_log (dm_insert i c cs) j = (if j = i then ch_log c else chan_log cs j)"
  by (simp_all add: chan_alive_def chan_log_def)

lemma knows_close: "knows cs (b_channels b) \<Longrightarrow> knows cs (b_channels (close_channel tx b))"
  by (auto simp: close_channel_def knows_def split: option.split)

lemma open_channel_frame [simp]:
  "b_registry (open_channel tx b) = b_registry b" "b_metrics (open_channel tx b) = b_metrics b"
  "b_db (open_channel tx b) = b_db b" "broker_inv (open_channel tx b) = broker_inv b"
  "dm_get (b_channels (open_channel tx b)) j = (if j = tx then Some \<lparr>ch_alive = True, ch_log = []\<rparr> else dm_get (b_channels b) j)"
  by (simp_all add: open_channel_def broker_inv_def)

section \<open>The invariant of the server\<close>

definition server_inv :: "server \<Rightarrow> bool" where
  "server_inv s \<longleftrightarrow> broker_inv (srv_broker s) \<and> reg_wf (b_registry (srv_broker s)) \<and> dm_wf (srv_conns s) \<and>
     (\<forall>tx. dm_get (srv_conns s) tx \<noteq> None \<longrightarrow> dm_get (b_channels (srv_broker s)) tx \<noteq> None) \<and>
     (\<forall>pk p. reg_get (b_registry (srv_broker s)) pk = Some p \<longrightarrow> ph_pubkey p = pk \<and> dm_get (srv_conns s) (ph_tx p) = Some pk) \<and>
     connected_peers (b_metrics (srv_broker s)) = of_nat (dm_len (srv_conns s))"

lemma server_inv_connect:
  assumes "server_inv s" and "dm_get (b_channels (srv_broker s)) tx = None"
  shows "server_inv (server_step cr s (Connect tx addr item tk))"
proof -
  let ?b = "open_channel tx (srv_broker s)"
  have fresh: "dm_get (srv_conns s) tx = None" using assms by (auto simp: server_inv_def)
  obtain r b' where r: "serve_start cr tk addr tx item ?b = (r, b')" by fastforce
  show ?thesis
  proof (cases r)
    case (Inl e)
    have "knows (b_channels ?b) (b_channels b')" "broker_inv b' = broker_inv ?b" "b_registry b' = b_registry ?b" "b_metrics b' = b_metrics ?b"
      using serve_start_refused [OF r [unfolded Inl]] by (auto intro: knows_then_send)
    then show ?thesis using assms(1) r Inl knows_close [of "b_channels ?b" b' tx]
      by (auto simp: server_inv_def knows_def)
  next
    case (Inr pk)
    from serve_start_accepted [OF r [unfolded Inr]] obtain h a k rid where
      b': "b' = register_peer cr tk addr pk h a k rid tx ?b" by blast
    note frame = register_peer_frame [where cr = cr and tk = tk and addr = addr and pk = pk and h = h and a = a and k = k
      and rid = rid and tx = tx and b = ?b, folded b']
    from frame(1) obtain p where p: "ph_pubkey p = pk" "ph_tx p = tx" "b_registry b' = reg_insert p (b_registry (srv_broker s))"
      by auto
    have "reg_get (b_registry (srv_broker s)) q = Some p' \<Longrightarrow> ph_tx p' \<noteq> tx" for q p'
      using assms fresh by (auto simp: server_inv_def)
    moreover have "reg_wf (b_registry b')" using assms(1) p(3) by (simp add: server_inv_def reg_wf_def reg_wf_insert)
    ultimately show ?thesis using assms(1) r Inr fresh p frame(2-4)
      by (auto simp: server_inv_def knows_def dm_len_insert split: if_splits)
  qed
qed

lemma server_inv_receive:
  assumes "server_inv s"
  shows "server_inv (server_step cr s (Receive tx item tk))"
proof (cases "dm_get (srv_conns s) tx")
  case (Some pk)
  obtain go b where p: "pump_item cr tk pk tx item (srv_broker s) = (go, b)" by fastforce
  note frame = pump_item_frame [where cr = cr and tk = tk and pk = pk and tx = tx and item = item and b = "srv_broker s", unfolded p snd_conv]
    and known = knows_pump_item [of "srv_broker s" cr tk pk tx item, unfolded p snd_conv]
  show ?thesis
  proof (cases go)
    case True
    with assms Some p frame known show ?thesis by (auto simp: server_inv_def knows_def)
  next
    case False
    let ?b = "close_channel tx (serve_end pk b)"
    have known2: "knows (b_channels (srv_broker s)) (b_channels ?b)"
      by (rule knows_close, rule knows_trans [OF known serve_end_frame(5)])
    have "reg_get (b_registry ?b) q = Some p' \<Longrightarrow> ph_tx p' \<noteq> tx" for q p'
      using assms Some frame(1) by (auto simp: server_inv_def serve_end_frame split: if_splits)
    moreover have "reg_wf (b_registry ?b)"
      using assms frame(1) by (simp add: server_inv_def reg_wf_def reg_wf_remove serve_end_frame)
    moreover have "of_nat (dm_len (srv_conns s)) = (of_nat (dm_len (dm_remove tx (srv_conns s))) + 1 :: i64)"
      using dm_len_remove [of "srv_conns s" tx] assms Some by (metis add.commute of_nat_Suc option.distinct(1) server_inv_def)
    ultimately show ?thesis
      using assms Some p False frame known2 by (auto simp: server_inv_def knows_def serve_end_frame split: if_splits)
  qed
qed (use assms in simp)

interpretation server: event_machine "server_step cr" server_ok server_inv for cr
proof
  fix s e
  assume inv: "server_inv s" and ok: "server_ok s e"
  show "server_inv (server_step cr s e)"
  proof (cases e)
    case (Connect tx addr item tk)
    with inv ok show ?thesis by (simp only: server_inv_connect server_ok.simps)
  next
    case (Receive tx item tk)
    with inv show ?thesis by (simp only: server_inv_receive)
  next
    case (WriterGone tx)
    with inv knows_close [OF knows_refl, of "srv_broker s" tx] show ?thesis
      by (auto simp: server_inv_def knows_def)
  qed
qed

lemma dm_len_empty [simp]: "dm_len dm_empty = 0"
  by (simp add: dm_len_def dm_empty_def)

lemma server_new_inv: "pool_inv db \<Longrightarrow> server_inv (server_new db)"
  by (simp add: server_inv_def server_new_def in_memory_def broker_inv_def presence_inv_new relay_inv_def relay_new_def
      limiter_inv_def limiter_new_def reg_wf_def reg_new_def reg_get_def metrics_new_def)

section \<open>Sessions and their registration\<close>

text \<open>The first message of a connection that made it a session of a public key.\<close>

definition registered_by :: "crates \<Rightarrow> event list \<Rightarrow> chan_id \<Rightarrow> string \<Rightarrow> bool" where
  "registered_by cr es tx pk \<longleftrightarrow>
     (\<exists>addr item tk h a k ts sg rid. Connect tx addr item tk \<in> set es \<and>
        verified_in cr (tk_now tk) item (Register pk h a k ts sg rid))"

lemma registered_by_snoc: "registered_by cr es tx pk \<Longrightarrow> registered_by cr (es @ [e]) tx pk"
  unfolding registered_by_def by (metis Un_iff set_append)

lemma sessions_registered:
  fixes cr db es
  defines "s \<equiv> foldl (server_step cr) (server_new db) es"
  shows "(dm_get (srv_conns s) tx = Some pk \<longrightarrow> registered_by cr es tx pk) \<and>
    (reg_get (b_registry (srv_broker s)) pk = Some p \<longrightarrow> registered_by cr es (ph_tx p) pk)"
  unfolding s_def
proof (induction es arbitrary: tx pk p rule: rev_induct)
  case Nil
  then show ?case by (simp add: server_new_def in_memory_def)
next
  case (snoc e es)
  let ?s = "foldl (server_step cr) (server_new db) es"
  note old = snoc.IH [THEN conjunct1, rule_format, THEN registered_by_snoc]
    snoc.IH [THEN conjunct2, rule_format, THEN registered_by_snoc]
  show ?case
  proof (cases e)
    case (Connect t addr item tk)
    obtain r b where r: "serve_start cr tk addr t item (open_channel t (srv_broker ?s)) = (r, b)" by fastforce
    show ?thesis
    proof (cases r)
      case (Inl err)
      with serve_start_refused [OF r [unfolded Inl]] r old show ?thesis by (auto simp: Connect)
    next
      case (Inr pk')
      from serve_start_accepted [OF r [unfolded Inr]] obtain h a k ts sg rid where
        v: "verified_in cr (tk_now tk) item (Register pk' h a k ts sg rid)"
        and b: "b = register_peer cr tk addr pk' h a (unwrap_or User k) rid t (open_channel t (srv_broker ?s))" by blast
      have now: "registered_by cr (es @ [e]) t pk'" using v unfolding registered_by_def Connect by (meson in_set_conv_decomp)
      obtain p' where "ph_pubkey p' = pk'" "ph_tx p' = t" "b_registry b = reg_insert p' (b_registry (srv_broker ?s))"
        using register_peer_frame(1) [where b = "open_channel t (srv_broker ?s)"] b by (metis open_channel_frame(1))
      with r Inr old now show ?thesis by (auto simp: Connect split: if_splits)
    qed
  next
    case (Receive t item tk)
    show ?thesis
    proof (cases "dm_get (srv_conns ?s) t")
      case (Some pk')
      obtain go b where g: "pump_item cr tk pk' t item (srv_broker ?s) = (go, b)" by fastforce
      have "b_registry b = b_registry (srv_broker ?s)"
        using pump_item_frame(1) [of cr tk pk' t item "srv_broker ?s"] g by simp
      with old Some g show ?thesis by (cases go) (auto simp: Receive serve_end_frame split: if_splits)
    qed (use old Receive in auto)
  qed (use old in auto)
qed

text \<open>Without a database no handle is ever recorded.\<close>

definition no_handles :: "broker \<Rightarrow> bool" where
  "no_handles b \<longleftrightarrow> b_db b = None \<and> (\<forall>h. reg_resolve_handle (b_registry b) h = None)"

lemma dispatch_no_db: "b_db b = None \<Longrightarrow> b_db (snd (dispatch cr tk spk tx msg b)) = None"
  by (cases msg)
    (simp_all add: on_register_def on_lookup_peer_def on_lookup_handle_def resolve_target_def resolved_kind_def on_signal_def
      on_subscribe_def on_unsubscribe_def on_request_relay_def on_accept_relay_def on_relay_def on_team_announce_def
      on_team_lookup_def Let_def split_beta split: sum.split option.split)

lemma pump_no_handles: "no_handles b \<Longrightarrow> no_handles (snd (pump_item cr tk pk tx item b))"
proof -
  assume b: "no_handles b"
  have "b_db (snd (handle_client_message cr tk pk t tx b)) = None" for t
    using b dispatch_no_db by (auto simp: handle_client_message_def no_handles_def split: sum.split)
  then have "b_db (pump_text cr tk pk tx t b) = None" for t
    by (simp add: pump_text_def Let_def split_beta split: sum.split)
  then have "b_db (snd (pump_item cr tk pk tx item b)) = None"
    using b by (cases "(cr, tk, pk, tx, item, b)" rule: pump_item.cases) (simp_all add: no_handles_def)
  then show ?thesis using b by (simp add: no_handles_def pump_item_frame)
qed

lemma register_no_handles:
  assumes "no_handles b"
  shows "no_handles (register_peer cr tk addr pk h a k rid tx b)"
  using assms unfolding register_peer_def Let_def split_beta
  by (simp add: no_handles_def register_db_def split: if_splits)

lemma no_handles_step: "no_handles (srv_broker s) \<Longrightarrow> no_handles (srv_broker (server_step cr s e))"
proof (cases e)
  case (Connect t addr item tk)
  assume s: "no_handles (srv_broker s)"
  obtain r b where r: "serve_start cr tk addr t item (open_channel t (srv_broker s)) = (r, b)" by fastforce
  have o: "no_handles (open_channel t (srv_broker s))" using s by (simp add: no_handles_def)
  have "no_handles b"
  proof (cases r)
    case (Inl err)
    with serve_start_refused [OF r [unfolded Inl]] o show ?thesis by (auto simp: no_handles_def)
  next
    case (Inr pk)
    with serve_start_accepted [OF r [unfolded Inr]] o register_no_handles show ?thesis by blast
  qed
  then show ?thesis using r by (cases r) (simp_all add: Connect no_handles_def)
next
  case (Receive t item tk)
  assume s: "no_handles (srv_broker s)"
  have e: "no_handles (serve_end pk b)" if "no_handles b" for pk b
    using that by (auto simp: no_handles_def serve_end_def Let_def reg_resolve_remove split: option.split)
  show ?thesis
  proof (cases "dm_get (srv_conns s) t")
    case (Some pk)
    obtain go b where g: "pump_item cr tk pk t item (srv_broker s) = (go, b)" by fastforce
    have "no_handles b" using pump_no_handles [OF s, of cr tk pk t item] g by simp
    with Some g e [of b pk] show ?thesis by (cases go) (simp_all add: Receive no_handles_def)
  qed (use s Receive in simp)
qed (simp add: no_handles_def)

lemma no_handles_run: "no_handles (srv_broker (foldl (server_step cr) (server_new None) es))"
proof (induction es rule: rev_induct)
  case Nil
  then show ?case by (simp add: no_handles_def server_new_def in_memory_def)
next
  case (snoc e es)
  then show ?case by (simp add: no_handles_step)
qed

end
