(* ===== verification/Demo_Server.thy ===== *)
theory Demo_Server
  imports Server_Invariant
begin

text \<open>
  A short concrete history of the server for the closed examples: two peers register on
  channels 1 and 2, the second watches the first, and the first sends the second a signal.
  The crates are those of the examples with a reader for the five texts that occur and a
  signature check that accepts.
\<close>

definition demo_read :: "string \<Rightarrow> string + client_message" where
  "demo_read t =
     (if t = ''r1'' then Inr (Register (demo_key CHR ''1'') None default_addresses None 1000 (demo_sig CHR ''1'') None)
      else if t = ''r2'' then Inr (Register (demo_key CHR ''2'') None default_addresses None 1000 (demo_sig CHR ''2'') None)
      else if t = ''w'' then Inr (SubscribePresence (demo_key CHR ''2'') [demo_key CHR ''1''] 1000 (demo_sig CHR ''2'') None)
      else if t = ''s'' then Inr (Signal (demo_key CHR ''1'') (demo_key CHR ''2'') ''offer'' 1000 (demo_sig CHR ''1'') None)
      else if t = ''p'' then Inr (Ping (demo_key CHR ''1'') 1000 (demo_sig CHR ''1''))
      else Inl ''bad'')"

definition demo_wire :: crates where
  "demo_wire = demo_crates\<lparr>vk_verify := \<lambda>_ _ _. True, json_message := demo_read\<rparr>"

lemma demo_wire_simps [simp]:
  "hex_decode demo_wire = demo_hex" "b64_decode demo_wire s = Inr (map byte_of s)"
  "vk_from_bytes demo_wire bs = Inr (VerifyingKey bs)" "vk_verify demo_wire vk bytes sig"
  "json_message demo_wire = demo_read" "uuid_text demo_wire u = show_hex (unat u)"
  "json_value demo_wire t = Inl ''no value''"
  "gov_check demo_wire n hist now \<longleftrightarrow> fst (gcra n (gcra_state n hist) now)"
  by (simp_all add: demo_wire_def demo_crates_def)

definition demo_tick :: tick where
  "demo_tick = \<lparr>tk_now = 1000, tk_sent = 1000, tk_limiter = 0, tk_relay = (0, 0, 0), tk_session = 7, tk_team = 8,
     tk_db1 = 0, tk_db2 = 0, tk_db3 = 0\<rparr>"

lemma demo_tick_simps [simp]:
  "tk_now demo_tick = 1000" "tk_sent demo_tick = 1000" "tk_limiter demo_tick = 0"
  by (simp_all add: demo_tick_def)

abbreviation demo_text :: "string \<Rightarrow> stream_item" where
  "demo_text t \<equiv> Frame (TextFrame t)"

definition demo_events :: "event list" where
  "demo_events =
     [Connect 1 (V4 10 0 0 1 4000) (demo_text ''r1'') demo_tick,
      Connect 2 (V4 10 0 0 2 4000) (demo_text ''r2'') demo_tick,
      Receive 2 (demo_text ''w'') demo_tick,
      Receive 1 (demo_text ''s'') demo_tick]"

lemma demo_verifies:
  "hex_nibble c = Some y \<Longrightarrow> cm_pubkey msg = demo_key c \<Longrightarrow> cm_timestamp msg = 1000 \<Longrightarrow> cm_signature msg = demo_sig c \<Longrightarrow>
   verify_signed_message demo_wire 1000 msg = Inr (VerifyingKey (replicate 32 (of_nat y)))"
  using check_timestamp_ok [of 1000 1000]
  by (simp add: verify_ok parse_pubkey_ok parse_signature_ok unwrap_or_def)

definition demo_server :: server where
  "demo_server = foldl (server_step demo_wire) (server_new None) demo_events"

lemma demo_starts:
  "serve_start demo_wire demo_tick addr tx (demo_text ''r1'') b =
     (Inr (demo_key CHR ''1''), register_peer demo_wire demo_tick addr (demo_key CHR ''1'') None default_addresses User None tx b)"
  "serve_start demo_wire demo_tick addr tx (demo_text ''r2'') b =
     (Inr (demo_key CHR ''2''), register_peer demo_wire demo_tick addr (demo_key CHR ''2'') None default_addresses User None tx b)"
  by (simp_all add: serve_start_def demo_read_def demo_verifies [of "CHR ''1''" 1] demo_verifies [of "CHR ''2''" 2] unwrap_or_def)

lemma demo_handles:
  "handle_client_message demo_wire demo_tick (demo_key CHR ''2'') ''w'' tx b = on_subscribe (demo_key CHR ''2'') [demo_key CHR ''1''] None tx b"
  "handle_client_message demo_wire demo_tick (demo_key CHR ''1'') ''s'' tx b =
     on_signal demo_wire demo_tick (demo_key CHR ''1'') (demo_key CHR ''2'') ''offer'' b"
  "handle_client_message demo_wire demo_tick (demo_key CHR ''1'') ''p'' tx b = (Inr (), send_tx tx (Pong 1000) b)"
  by (simp_all add: handle_client_message_def demo_read_def demo_verifies [of "CHR ''1''" 1] demo_verifies [of "CHR ''2''" 2])

lemma demo_server_eval:
  "chan_log (b_channels (srv_broker demo_server)) 2 =
     [Registered (demo_key CHR ''2'') ''10.0.0.2:4000'' False None,
      SubscribePresenceAck [demo_key CHR ''1''] None, PresenceUpdate (demo_key CHR ''1'') True,
      SignalMsg (demo_key CHR ''1'') ''offer'' 1000]"
  by (simp add: demo_server_def demo_events_def demo_starts server_new_def in_memory_def register_peer_def register_db_def
    open_channel_def send_tx_def Let_def broadcast_def presence_new_def pump_text_def demo_handles on_subscribe_def on_signal_def
    subscribe_def or_default_def reg_online_set_def relay_signal_def limiter_check_def limiter_for_def limiter_new_def gcra_def gcra_state_def
    base64_decoded_len_def SIGNALING_MAX_PAYLOAD_def try_send_eq
    chan_insert ipv4_text_def show_word_def reg_get_def [symmetric])
    (simp add: show_nat.simps digit_char_def char_of_def bit_0)

end
