(* ===== verification/Wire.thy ===== *)
theory Wire
  imports Demo_Crates
begin

text \<open>
  What leaves the broker: the JSON of a \<open>ServerMessage\<close> (\<open>src/protocol.rs\<close>) as its serde
  attributes give it, and the writer task of a connection (\<open>src/server.rs\<close>), which drains the
  connection's channel to the websocket.

  Printed directly, a message keeps its fields in the order of their declaration, so its object
  is the list of its fields. Each attempt to send a frame has an outcome the task does not
  control; a list of outcomes says what happens to the attempts to come, and past its end they
  all succeed.
\<close>

section \<open>The JSON of a server message\<close>

definition opt_value :: "string option \<Rightarrow> json" where
  "opt_value x = (case x of None \<Rightarrow> JNull | Some s \<Rightarrow> JStr s)"

definition member_value :: "crates \<Rightarrow> team_member \<Rightarrow> json" where
  "member_value cr m = JObj
     [(''pubkey'', JStr (tm_pubkey m)), (''online'', JBool (tm_online m)),
      (''joined_at'', JStr (datetime_text cr (tm_joined_at m)))]"

fun server_type :: "server_message \<Rightarrow> string" where
  "server_type (Registered _ _ _ _) = ''registered''"
| "server_type (PeerInfo _ _ _ _ _ _ _) = ''peer_info''"
| "server_type (SignalMsg _ _ _) = ''signal''"
| "server_type (PresenceUpdate _ _) = ''presence_update''"
| "server_type (SubscribePresenceAck _ _) = ''subscribe_presence_ack''"
| "server_type (RelayOffer _ _) = ''relay_offer''"
| "server_type (RelaySessionEstablished _ _ _) = ''relay_session_established''"
| "server_type (RelayData _ _ _) = ''relay_data''"
| "server_type (TeamAnnounced _ _) = ''team_announced''"
| "server_type (TeamMembers _ _ _) = ''team_members''"
| "server_type (Pong _) = ''pong''"
| "server_type (ErrorMsg _ _ _) = ''error''"

fun server_fields :: "crates \<Rightarrow> server_message \<Rightarrow> (string \<times> json) list" where
  "server_fields cr (Registered peer reflected claimed rid) =
     [(''peer_id'', JStr peer), (''reflected_address'', JStr reflected), (''handle_claimed'', JBool claimed),
      (''request_id'', opt_value rid)]"
| "server_fields cr (PeerInfo peer h a reflected online kd rid) =
     [(''peer_id'', JStr peer), (''handle'', opt_value h), (''addresses'', addresses_value a),
      (''reflected_address'', opt_value reflected), (''online'', JBool online)] @
     opt_field ''kind'' (map_option kind_as_str kd) @ [(''request_id'', opt_value rid)]"
| "server_fields cr (SignalMsg sender payload ts) =
     [(''from'', JStr sender), (''payload'', JStr payload), (''timestamp'', JNumber (sint ts))]"
| "server_fields cr (PresenceUpdate peer online) = [(''peer_id'', JStr peer), (''online'', JBool online)]"
| "server_fields cr (SubscribePresenceAck peers rid) =
     [(''peers'', JArr (map JStr peers)), (''request_id'', opt_value rid)]"
| "server_fields cr (RelayOffer sid sender) = [(''session_id'', JStr sid), (''from'', JStr sender)]"
| "server_fields cr (RelaySessionEstablished sid peer rid) =
     [(''session_id'', JStr sid), (''peer'', JStr peer), (''request_id'', opt_value rid)]"
| "server_fields cr (RelayData sid sender data) =
     [(''session_id'', JStr sid), (''from'', JStr sender), (''data'', JStr data)]"
| "server_fields cr (TeamAnnounced tid rid) = [(''team_id'', JStr tid), (''request_id'', opt_value rid)]"
| "server_fields cr (TeamMembers tid ms rid) =
     [(''team_id'', JStr tid), (''members'', JArr (map (member_value cr) ms)), (''request_id'', opt_value rid)]"
| "server_fields cr (Pong ts) = [(''timestamp'', JNumber (sint ts))]"
| "server_fields cr (ErrorMsg cd msg rid) =
     [(''code'', JStr cd), (''message'', JStr msg), (''request_id'', opt_value rid)]"

definition server_value :: "crates \<Rightarrow> server_message \<Rightarrow> json" where
  "server_value cr m = JObj ((''type'', JStr (server_type m)) # server_fields cr m)"

section \<open>The writer task\<close>

datatype out_frame = OutText string | OutClose

fun next_ok :: "bool list \<Rightarrow> bool \<times> bool list" where
  "next_ok [] = (True, [])"
| "next_ok (ok # oks) = (ok, oks)"

text \<open>The loop, on the messages the channel gives before it is closed: the frames that were sent
  and the outcomes left.\<close>

fun writer_loop :: "crates \<Rightarrow> server_message list \<Rightarrow> bool list \<Rightarrow> out_frame list \<times> bool list" where
  "writer_loop cr [] oks = ([], oks)"
| "writer_loop cr (m # ms) oks =
     (case json_text cr (server_value cr m) of
        Inl e \<Rightarrow> writer_loop cr ms oks
      | Inr t \<Rightarrow>
          (case next_ok oks of
             (False, oks') \<Rightarrow> ([], oks')
           | (True, oks') \<Rightarrow> (case writer_loop cr ms oks' of (out, rest) \<Rightarrow> (OutText t # out, rest))))"

definition writer :: "crates \<Rightarrow> server_message list \<Rightarrow> bool list \<Rightarrow> out_frame list" where
  "writer cr ms oks =
     (case writer_loop cr ms oks of
        (out, rest) \<Rightarrow> out @ (if fst (next_ok rest) then [OutClose] else []))"

section \<open>Messages are told apart\<close>

lemma opt_value_inject [simp]: "opt_value x = opt_value y \<longleftrightarrow> x = y"
  by (simp add: opt_value_def split: option.splits)

lemma addresses_value_inject [simp]: "addresses_value a = addresses_value b \<longleftrightarrow> a = b"
  using addresses_roundtrip [of a] addresses_roundtrip [of b] by metis

lemma kind_as_str_inject [simp]: "kind_as_str k = kind_as_str k' \<longleftrightarrow> k = k'"
  by (cases k; cases k') simp_all

lemma kind_field_inject [simp]:
  "opt_field ''kind'' (map_option kind_as_str k) = opt_field ''kind'' (map_option kind_as_str k') \<longleftrightarrow> k = k'"
  by (auto simp: opt_field_def split: option.splits)

lemma map_JStr_inject [simp]: "map JStr xs = map JStr ys \<longleftrightarrow> xs = ys"
  by (simp add: inj_map_eq_map inj_def)

lemma members_inject:
  "inj (datetime_text cr) \<Longrightarrow> map (member_value cr) ms = map (member_value cr) ms' \<longleftrightarrow> ms = ms'"
  by (intro inj_map_eq_map injI) (simp add: member_value_def inj_eq)

lemma sint_eq_i64 [simp]: "sint (a :: i64) = sint b \<longleftrightarrow> a = b"
  by (rule word_eq_iff_signed [symmetric])

text \<open>
  A client can tell any two server messages apart: distinct messages have distinct JSON, given
  that the times of distinct instants are printed differently.
\<close>
theorem server_value_exact:
  assumes "inj (datetime_text cr)"
  shows "server_value cr m = server_value cr m' \<longleftrightarrow> m = m'"
proof
  assume "server_value cr m = server_value cr m'"
  then show "m = m'"
    by (cases m; cases m'; simp add: server_value_def members_inject [OF assms])
qed simp

theorem server_value_exact_witness:
  "inj (datetime_text demo_crates) \<and>
   server_value demo_crates (PresenceUpdate ''a'' True) \<noteq> server_value demo_crates (PresenceUpdate ''a'' False)"
proof -
  have i: "inj (datetime_text demo_crates)" by (simp add: inj_def)
  then show ?thesis using server_value_exact [OF i] by simp
qed

section \<open>The writer keeps the order\<close>

definition texts :: "crates \<Rightarrow> server_message list \<Rightarrow> out_frame list" where
  "texts cr ms = concat (map (\<lambda>m. case json_text cr (server_value cr m) of Inl e \<Rightarrow> [] | Inr t \<Rightarrow> [OutText t]) ms)"

lemma writer_loop_all: "writer_loop cr ms [] = (texts cr ms, [])"
  by (induction ms) (simp_all add: texts_def split: sum.split)

lemma writer_loop_prefix: "\<exists>n. fst (writer_loop cr ms oks) = take n (texts cr ms)"
proof (induction cr ms oks rule: writer_loop.induct)
  case (2 cr m ms oks)
  show ?case
  proof (cases "json_text cr (server_value cr m)")
    case (Inl e)
    with 2 show ?thesis by (simp add: texts_def)
  next
    case (Inr t)
    obtain ok rest where ok: "next_ok oks = (ok, rest)" by fastforce
    show ?thesis
    proof (cases ok)
      case True
      with 2(2) [OF Inr ok [symmetric]] obtain n where "fst (writer_loop cr ms rest) = take n (texts cr ms)" by auto
      with Inr ok True show ?thesis by (intro exI [of _ "Suc n"]) (simp add: texts_def split_beta)
    qed (use Inr ok in \<open>auto intro: exI [of _ 0]\<close>)
  qed
qed simp

text \<open>
  The writer neither reorders nor repeats nor loses: whatever happens to the socket, the
  frames that reach it are the texts of the queued messages from the first one on, in order,
  with at most a close frame after them; and when no send fails all of them arrive and the
  close frame follows.
\<close>
theorem writer_in_order:
  "(\<exists>n. writer cr ms oks \<in> {take n (texts cr ms), take n (texts cr ms) @ [OutClose]}) \<and>
   writer cr ms [] = texts cr ms @ [OutClose]"
  using writer_loop_prefix [of cr ms oks] by (auto simp: writer_def writer_loop_all split_beta)

end
