(* ===== verification/Startup.thy ===== *)
theory Startup
  imports Server_Invariant Wire
begin

text \<open>
  The start of the process (\<open>src/main.rs\<close>, with \<open>connect\<close> and \<open>run_migrations\<close> of \<open>src/db.rs\<close>) and
  the two plain pages of \<open>src/server.rs\<close>. Connecting a pool and running migrations is \<open>sqlx\<close>, the
  text of the metrics is \<open>prometheus\<close>: they are arguments. The command line, logging, signals and
  the listening socket are not modelled.
\<close>

definition connect :: "(string \<Rightarrow> string + dbs) \<Rightarrow> string \<Rightarrow> dbs result" where
  "connect sqlx_connect database_url = map_err Database (sqlx_connect database_url)"

definition run_migrations :: "(dbs \<Rightarrow> string + dbs) \<Rightarrow> dbs \<Rightarrow> dbs result" where
  "run_migrations sqlx_migrate pool = map_err (\<lambda>e. Internal (''migration: '' @ e)) (sqlx_migrate pool)"

definition start :: "(string \<Rightarrow> string + dbs) \<Rightarrow> (dbs \<Rightarrow> string + dbs) \<Rightarrow> string \<Rightarrow> server result" where
  "start sqlx_connect sqlx_migrate database_url =
     rbind (if database_url = [] then Inr None
            else rbind (connect sqlx_connect database_url) (\<lambda>pool.
                 rbind (run_migrations sqlx_migrate pool) (\<lambda>pool'. Inr (Some pool'))))
       (\<lambda>db. Inr (server_new db))"

definition health :: "broker \<Rightarrow> nat \<times> string" where
  "health b = (200, ''ok'' @ [CHR 0x0A] @ ''peers_online: '' @ show_nat (reg_len (b_registry b)) @ [CHR 0x0A])"

definition metrics_handler :: "(metrics \<Rightarrow> u8 list) \<Rightarrow> broker \<Rightarrow> nat \<times> (string \<times> string) list \<times> u8 list" where
  "metrics_handler encode b = (200, [(''content-type'', ''text/plain; version=0.0.4'')], encode (b_metrics b))"

lemma start_cases:
  assumes "start c mig url = Inr s"
  shows "\<exists>db. s = server_new db \<and> (db = None \<longleftrightarrow> url = []) \<and>
    (\<forall>pool. db = Some pool \<longrightarrow> (\<exists>pool0. mig pool0 = Inr pool))"
  using assms
  by (auto simp: start_def connect_def run_migrations_def map_err_def split: if_splits sum.splits)

lemma online_le_connections:
  assumes "server_inv s"
  shows "reg_len (b_registry (srv_broker s)) = card {pk. reg_is_online (b_registry (srv_broker s)) pk}"
    and "card {pk. reg_is_online (b_registry (srv_broker s)) pk} \<le> card {tx. dm_get (srv_conns s) tx \<noteq> None}"
proof -
  let ?r = "b_registry (srv_broker s)"
  have wf: "dm_wf (by_pubkey ?r)" "dm_wf (srv_conns s)" using assms by (simp_all add: server_inv_def reg_wf_def)
  show "reg_len ?r = card {pk. reg_is_online ?r pk}"
    using dm_len_eq [OF wf(1)] by (simp add: reg_len_def reg_is_online_def)
  let ?tx = "\<lambda>pk. ph_tx (the (reg_get ?r pk))"
  have "inj_on ?tx {pk. reg_is_online ?r pk}" "?tx ` {pk. reg_is_online ?r pk} \<subseteq> {tx. dm_get (srv_conns s) tx \<noteq> None}"
    using assms by (auto simp: inj_on_def reg_is_online_iff server_inv_def) (metis option.inject)
  then show "card {pk. reg_is_online ?r pk} \<le> card {tx. dm_get (srv_conns s) tx \<noteq> None}"
    by (rule card_inj_on_le) (rule dm_finite)
qed

text \<open>
  What the health page says is true: from a start with or without a database, in every
  history, it gives the number of public keys that are online, which is at most the number of
  open sessions; and the broker runs without a database only if none was configured.
\<close>
theorem health_counts_online:
  assumes "start c mig url = Inr s0" and "\<And>pool0 pool. mig pool0 = Inr pool \<Longrightarrow> db_inv (fst pool)"
    and "server.legal_run cr s0 es s"
  shows "health (srv_broker s) = (200, ''ok'' @ [CHR 0x0A] @ ''peers_online: '' @
      show_nat (card {pk. reg_is_online (b_registry (srv_broker s)) pk}) @ [CHR 0x0A]) \<and>
    card {pk. reg_is_online (b_registry (srv_broker s)) pk} \<le> card {tx. dm_get (srv_conns s) tx \<noteq> None} \<and>
    (b_db (srv_broker s0) = None \<longleftrightarrow> url = [])"
proof -
  from start_cases [OF assms(1)] obtain db where db: "s0 = server_new db" "db = None \<longleftrightarrow> url = []"
    "\<And>pool. db = Some pool \<Longrightarrow> \<exists>pool0. mig pool0 = Inr pool" by blast
  then have "pool_inv db" using assms(2) by (cases db) auto
  then have "server_inv s0" using db(1) by (simp add: server_new_inv)
  then have "server_inv s" using assms(3) by (rule server.legal_run_inv [rotated])
  from online_le_connections [OF this] db(1,2) show ?thesis by (simp add: health_def server_new_def)
qed

theorem health_counts_online_witness:
  "health (srv_broker (server_new None)) = (200, ''ok'' @ [CHR 0x0A] @ ''peers_online: '' @
     show_nat (card {pk. reg_is_online (b_registry (srv_broker (server_new None))) pk}) @ [CHR 0x0A])"
proof -
  let ?mig = "\<lambda>pool :: dbs. Inr (empty_db, []) :: string + dbs"
  have s: "start (\<lambda>_. Inl ''down'') ?mig [] = Inr (server_new None)" by (simp add: start_def)
  have m: "db_inv (fst pool)" if "?mig pool0 = Inr pool" for pool0 pool using that db_inv_empty by auto
  show ?thesis using health_counts_online [OF s m server.legal_nil] by blast
qed

end
