(* ===== verification/Demo_Json.thy ===== *)
theory Demo_Json
  imports Demo_Crates
begin

text \<open>
  A reader for the encoding of JSON values of the examples, so that they have crates whose
  texts of client messages read back.
\<close>

fun dec_nat :: "u8 list \<Rightarrow> nat \<times> u8 list" where
  "dec_nat [] = (0, [])"
| "dec_nat (b # bs) = (if b = 0 then (0, bs) else (case dec_nat bs of (n, r) \<Rightarrow> (Suc n, r)))"

definition dec_str :: "u8 list \<Rightarrow> string \<times> u8 list" where
  "dec_str bs = (case dec_nat bs of (n, r) \<Rightarrow> (map char_of_byte (take n r), drop n r))"

fun read_int :: "string \<Rightarrow> int" where
  "read_int (c # s) = (if c = CHR ''-'' then - int (read_base 10 s) else int (read_base 10 (c # s)))"
| "read_int [] = 0"

primrec dec_many :: "(u8 list \<Rightarrow> 'a \<times> u8 list) \<Rightarrow> nat \<Rightarrow> u8 list \<Rightarrow> 'a list \<times> u8 list" where
  "dec_many f 0 bs = ([], bs)"
| "dec_many f (Suc n) bs = (case f bs of (v, r) \<Rightarrow> (case dec_many f n r of (vs, r') \<Rightarrow> (v # vs, r')))"

text \<open>The first argument bounds the nesting.\<close>

primrec dec :: "nat \<Rightarrow> u8 list \<Rightarrow> json \<times> u8 list" where
  "dec 0 = (\<lambda>bs. (JNull, bs))"
| "dec (Suc k) = (\<lambda>bs. case bs of
     [] \<Rightarrow> (JNull, [])
   | b # r \<Rightarrow>
       if b = 1 then (JBool (hd r = 1), tl r)
       else if b = 2 then apfst (\<lambda>s. JNumber (read_int s)) (dec_str r)
       else if b = 3 then apfst (\<lambda>s. JFloat (of_nat (read_base 10 s))) (dec_str r)
       else if b = 4 then apfst JStr (dec_str r)
       else if b = 5 then (case dec_nat r of (n, r') \<Rightarrow> apfst JArr (dec_many (dec k) n r'))
       else if b = 6 then (case dec_nat r of (n, r') \<Rightarrow>
         apfst JObj (dec_many (\<lambda>bs. case dec_str bs of (key, q) \<Rightarrow> apfst (Pair key) (dec k q)) n r'))
       else (JNull, r))"

lemma dec_nat_enc [simp]: "dec_nat (enc_nat n @ xs) = (n, xs)"
  by (induction n) (simp_all add: enc_nat_def)

lemma dec_str_enc [simp]: "dec_str (enc_str s @ xs) = (s, xs)"
  by (simp add: dec_str_def enc_str_def comp_def)

lemma read_int_show [simp]: "read_int (show_int i) = i"
proof -
  have "show_nat n \<noteq> []" for n by (subst show_nat.simps) simp
  moreover have "CHR ''-'' \<notin> decimal_digits"
    by (auto simp: decimal_digits_def digit_char_def dest: arg_cong [where f = "of_char :: char \<Rightarrow> nat"])
  then have "CHR ''-'' \<notin> set (show_nat n)" for n using show_nat_digits [of n] by blast
  ultimately have "read_int (show_nat n) = int n" for n
    using read_show_nat [of n] by (metis list.set_intros(1) neq_Nil_conv read_int.simps(1))
  then show ?thesis by (simp add: show_int_def)
qed

lemma dec_many_enc:
  "(\<And>v xs. v \<in> set vs \<Longrightarrow> f (g v @ xs) = (v, xs)) \<Longrightarrow> dec_many f (length vs) (concat (map g vs) @ xs) = (vs, xs)"
  by (induction vs) simp_all

lemma dec_enc: "length (enc v) \<le> k \<Longrightarrow> dec k (enc v @ xs) = (v, xs)"
proof (induction v arbitrary: k xs)
  case (JArr js)
  then obtain k' where k: "k = Suc k'" by (cases k) auto
  have "length (enc j) \<le> length (concat (map enc js))" if "j \<in> set js" for j
    using that by (induction js) auto
  also have "length (concat (map enc js)) \<le> k'" using JArr.prems by (simp add: k)
  finally have "dec k' (enc j @ xs) = (j, xs)" if "j \<in> set js" for j xs
    using JArr.IH that by blast
  then show ?case by (simp add: k dec_many_enc)
next
  case (JObj kvs)
  then obtain k' where k: "k = Suc k'" by (cases k) auto
  let ?g = "\<lambda>p. enc_str (fst p) @ enc (snd p)"
  have eq: "map (\<lambda>p. enc_str (fst p) @ snd p) (map (map_prod (\<lambda>k. k) enc) kvs) = map ?g kvs" by simp
  have "length (enc (snd p)) \<le> length (concat (map ?g kvs))" if "p \<in> set kvs" for p
    using that by (induction kvs) auto
  also have "length (concat (map ?g kvs)) \<le> k'" using JObj.prems unfolding enc.simps eq by (simp add: k)
  finally have "dec k' (enc (snd p) @ xs) = (snd p, xs)" if "p \<in> set kvs" for p xs
    using JObj.IH [OF that, of "snd p" k' xs] that by (cases p) fastforce
  then have "dec_many (\<lambda>bs. case dec_str bs of (key, q) \<Rightarrow> apfst (Pair key) (dec k' q)) (length kvs) (concat (map ?g kvs) @ xs) = (kvs, xs)" for xs
    by (intro dec_many_enc) simp
  then show ?case unfolding enc.simps eq by (simp add: k)
qed (auto dest!: Suc_le_D)

definition demo_reader :: "string \<Rightarrow> string + client_message" where
  "demo_reader t = (let bs = map byte_of t in Inr (read_message (fst (dec (length bs) bs))))"

definition demo_serde :: crates where
  "demo_serde = demo_crates\<lparr>json_message := demo_reader\<rparr>"

lemma demo_serde_roundtrip: "serde_roundtrip demo_serde"
  using dec_enc [OF order.refl, of _ "[]"]
  by (simp add: serde_roundtrip_def demo_serde_def demo_reader_def Let_def comp_def read_to_value)

end
