(* ===== verification/Smoke_Client.thy ===== *)
theory Smoke_Client
  imports Startup Demo_Json "HOL-Library.Monad_Syntax"
begin

text \<open>
  \<open>src/bin/smoke_client.rs\<close>: a peer that signs its messages, and the scripted session of two
  peers, run against the model of the broker.

  \<open>sign_body\<close> is \<open>Peer::sign\<close> up to the printing of the text. A peer of the script has a channel
  of the broker and counts the messages it has taken from it.
\<close>

section \<open>Signing\<close>

definition peer_pubkey :: "crates \<Rightarrow> signing_key \<Rightarrow> string" where
  "peer_pubkey cr sk = hex_encode cr (vk_to_bytes cr (sk_public cr sk))"

fun sign_body :: "crates \<Rightarrow> i64 \<Rightarrow> signing_key \<Rightarrow> json \<Rightarrow> json option" where
  "sign_body cr now sk (JObj obj) =
     (let obj1 = btree_insert ''signature'' (JStr [])
            (btree_insert ''timestamp'' (JNumber (sint now)) (btree_insert ''pubkey'' (JStr (peer_pubkey cr sk)) obj));
          canonical = json_to_vec cr (JObj obj1);
          sig = sk_sign cr sk canonical
      in Some (JObj (btree_insert ''signature'' (JStr (hex_encode cr sig)) obj1)))"
| "sign_body cr now sk _ = None"

text \<open>The bodies of the script, as \<open>json!\<close> builds them.\<close>

definition register_body :: "string \<Rightarrow> string \<Rightarrow> json" where
  "register_body addr rid = JObj (object_of
     [(''type'', JStr ''register''),
      (''addresses'', JObj (object_of [(''lan'', JArr [JStr addr]), (''public'', JNull)])), (''request_id'', JStr rid)])"

definition signal_body :: "string \<Rightarrow> string \<Rightarrow> string \<Rightarrow> json" where
  "signal_body dest payload rid = JObj (object_of
     [(''type'', JStr ''signal''), (''to'', JStr dest), (''payload'', JStr payload), (''request_id'', JStr rid)])"

definition request_relay_body :: "string \<Rightarrow> string \<Rightarrow> json" where
  "request_relay_body peer rid = JObj (object_of
     [(''type'', JStr ''request_relay''), (''peer'', JStr peer), (''request_id'', JStr rid)])"

definition accept_relay_body :: "string \<Rightarrow> string \<Rightarrow> json" where
  "accept_relay_body sid rid = JObj (object_of
     [(''type'', JStr ''accept_relay''), (''session_id'', JStr sid), (''request_id'', JStr rid)])"

definition relay_body :: "string \<Rightarrow> string \<Rightarrow> json" where
  "relay_body sid data = JObj (object_of
     [(''type'', JStr ''relay''), (''session_id'', JStr sid), (''data'', JStr data)])"

section \<open>What is signed is what the broker checks\<close>

text \<open>A body is that of a message when it has the message's entries apart from the three that
  signing adds.\<close>

definition body_of :: "crates \<Rightarrow> i64 \<Rightarrow> signing_key \<Rightarrow> json \<Rightarrow> client_message \<Rightarrow> bool" where
  "body_of cr now sk body m \<longleftrightarrow> (\<exists>obj. body = JObj obj \<and> strictly_sorted obj \<and>
     map_of (rev (message_fields m)) =
       (map_of obj)(''pubkey'' \<mapsto> JStr (peer_pubkey cr sk), ''timestamp'' \<mapsto> JNumber (sint now), ''signature'' \<mapsto> JStr []))"

definition signed_by :: "crates \<Rightarrow> signing_key \<Rightarrow> client_message \<Rightarrow> client_message" where
  "signed_by cr sk m = with_signature (hex_encode cr (sk_sign cr sk (canonical_bytes (json_to_vec cr) m))) m"

lemma sign_body_value:
  assumes "body_of cr now sk body m"
  shows "sign_body cr now sk body = Some (to_value (signed_by cr sk m))"
proof -
  from assms obtain obj where body: "body = JObj obj" and sorted: "strictly_sorted obj" and
    fields: "map_of (rev (message_fields m)) =
      (map_of obj)(''pubkey'' \<mapsto> JStr (peer_pubkey cr sk), ''timestamp'' \<mapsto> JNumber (sint now), ''signature'' \<mapsto> JStr [])"
    unfolding body_of_def by blast
  let ?obj1 = "btree_insert ''signature'' (JStr [])
    (btree_insert ''timestamp'' (JNumber (sint now)) (btree_insert ''pubkey'' (JStr (peer_pubkey cr sk)) obj))"
  have 1: "strictly_sorted ?obj1" using sorted by blast
  have "JObj ?obj1 = canonical_value m"
    unfolding canonical_value_eq
    by (rule arg_cong [where f = JObj], rule strictly_sorted_ext [OF 1])
      (auto simp: map_of_object_of fields fun_eq_iff)
  moreover have "to_value (with_signature sg m) = JObj (btree_insert ''signature'' (JStr sg) ?obj1)" for sg
  proof -
    have "map_of (rev (message_fields (with_signature sg m))) ''signature'' = Some (JStr sg)"
      by (cases m) (auto simp: opt_field_def split: option.splits)
    then have "map_of (rev (message_fields (with_signature sg m))) =
        (map_of (rev (message_fields (with_signature sg m))))(''signature'' \<mapsto> JStr sg)" by (simp add: fun_upd_idem)
    also have "\<dots> = (map_of (rev (message_fields m)))(''signature'' \<mapsto> JStr sg)" by (rule map_of_rev_fields)
    finally show ?thesis unfolding to_value_def
      by (intro arg_cong [where f = JObj] strictly_sorted_ext strictly_sorted_object_of sorted_btree_insert 1)
        (simp add: map_of_object_of fields)
  qed
  ultimately show ?thesis by (simp add: body signed_by_def canonical_bytes_def Let_def)
qed

lemma peer_pubkey_parses:
  assumes "hex_faithful cr" and "ed25519_correct cr"
  shows "parse_pubkey cr (peer_pubkey cr sk) = Inr (sk_public cr sk)"
  using assms hex_encode_no_prefix [OF assms(1)]
  by (simp add: parse_pubkey_ok peer_pubkey_def hex_faithful_def ed25519_correct_def)

lemma signed_by_verifies:
  assumes "hex_faithful cr" and "ed25519_correct cr" and "cm_pubkey m = peer_pubkey cr sk"
    and "check_timestamp now (cm_timestamp m) = Inr ()"
  shows "verify_signed_message cr now (signed_by cr sk m) = Inr (sk_public cr sk)"
  using assms peer_pubkey_parses [OF assms(1,2)]
  by (simp add: verify_ok signed_by_def parse_signature_ok canonical_bytes_def canonical_value_signature
      hex_faithful_def ed25519_correct_def)

text \<open>
  (C36) A client that signs as the smoke client does is accepted: the object it signs is the
  canonical value that the broker recomputes from the message, so what it sends is the JSON of a
  message that verifies under its key, as long as the clocks agree within the replay window.
\<close>
theorem signed_body_verifies:
  assumes "hex_faithful cr" and "ed25519_correct cr" and "body_of cr now sk body m"
    and "cm_pubkey m = peer_pubkey cr sk" and "check_timestamp now' (cm_timestamp m) = Inr ()"
  shows "\<exists>sg. sign_body cr now sk body = Some (to_value (with_signature sg m)) \<and>
    verify_signed_message cr now' (with_signature sg m) = Inr (sk_public cr sk)"
  using sign_body_value [OF assms(3)] signed_by_verifies [OF assms(1,2,4,5)] unfolding signed_by_def by blast

text \<open>The bodies of the script are those of the messages they are meant to be.\<close>

lemma addresses_value_lan: "JObj (object_of [(''lan'', JArr [JStr a]), (''public'', JNull)]) = addresses_value \<lparr>lan = [a], public_addr = None\<rparr>"
  by (simp add: addresses_value_def)

lemma bodies:
  fixes cr now sk
  defines "pk \<equiv> peer_pubkey cr sk"
  shows "body_of cr now sk (register_body a rid) (Register pk None \<lparr>lan = [a], public_addr = None\<rparr> None now [] (Some rid))"
    and "body_of cr now sk (signal_body dest payload rid) (Signal pk dest payload now [] (Some rid))"
    and "body_of cr now sk (request_relay_body peer rid) (RequestRelay pk peer now [] (Some rid))"
    and "body_of cr now sk (accept_relay_body sid rid) (AcceptRelay pk sid now [] (Some rid))"
    and "body_of cr now sk (relay_body sid data) (Relay pk sid data now [])"
  unfolding pk_def body_of_def register_body_def signal_body_def request_relay_body_def accept_relay_body_def relay_body_def
    addresses_value_lan
  by (auto simp: opt_field_def map_of_object_of fun_eq_iff)

section \<open>The script\<close>

record smoke_env =
  env_now :: "nat \<Rightarrow> i64"
  env_tick :: "nat \<Rightarrow> tick"
  env_alice :: signing_key
  env_bob :: signing_key
  env_alice_addr :: socket_addr
  env_bob_addr :: socket_addr

text \<open>Alice has channel 1 and Bob channel 2. \<open>Peer::connect\<close> comes with the first message, since
  an open connection has no effect before it. The \<open>n\<close>-th message is signed at \<open>env_now n\<close> and
  handled at \<open>env_tick n\<close>.\<close>

definition sign :: "crates \<Rightarrow> i64 \<Rightarrow> signing_key \<Rightarrow> json \<Rightarrow> string option" where
  "sign cr now sk body =
     (case sign_body cr now sk body of
        None \<Rightarrow> None
      | Some v \<Rightarrow> (case json_text cr v of Inl _ \<Rightarrow> None | Inr t \<Rightarrow> Some t))"

definition open_alice :: "crates \<Rightarrow> smoke_env \<Rightarrow> nat \<Rightarrow> json \<Rightarrow> server \<Rightarrow> server option" where
  "open_alice cr env n body s =
     do { t \<leftarrow> sign cr (env_now env n) (env_alice env) body;
          Some (server_step cr s (Connect 1 (env_alice_addr env) (Frame (TextFrame t)) (env_tick env n))) }"

definition open_bob :: "crates \<Rightarrow> smoke_env \<Rightarrow> nat \<Rightarrow> json \<Rightarrow> server \<Rightarrow> server option" where
  "open_bob cr env n body s =
     do { t \<leftarrow> sign cr (env_now env n) (env_bob env) body;
          Some (server_step cr s (Connect 2 (env_bob_addr env) (Frame (TextFrame t)) (env_tick env n))) }"

definition alice_send :: "crates \<Rightarrow> smoke_env \<Rightarrow> nat \<Rightarrow> json \<Rightarrow> server \<Rightarrow> server option" where
  "alice_send cr env n body s =
     do { t \<leftarrow> sign cr (env_now env n) (env_alice env) body;
          Some (server_step cr s (Receive 1 (Frame (TextFrame t)) (env_tick env n))) }"

definition bob_send :: "crates \<Rightarrow> smoke_env \<Rightarrow> nat \<Rightarrow> json \<Rightarrow> server \<Rightarrow> server option" where
  "bob_send cr env n body s =
     do { t \<leftarrow> sign cr (env_now env n) (env_bob env) body;
          Some (server_step cr s (Receive 2 (Frame (TextFrame t)) (env_tick env n))) }"

text \<open>The \<open>k\<close>-th message a peer takes from its connection; none if the broker has not sent it.\<close>

definition recv :: "crates \<Rightarrow> server \<Rightarrow> chan_id \<Rightarrow> nat \<Rightarrow> json option" where
  "recv cr s tx k =
     (let log = chan_log (b_channels (srv_broker s)) tx
      in if k < length log then Some (server_value cr (log ! k)) else None)"

definition str_field :: "json \<Rightarrow> string \<Rightarrow> string option" where
  "str_field v k = Option.bind (json_field v k) as_str"

definition expect_type :: "crates \<Rightarrow> server \<Rightarrow> chan_id \<Rightarrow> nat \<Rightarrow> string \<Rightarrow> json option" where
  "expect_type cr s tx k ty =
     do { v \<leftarrow> recv cr s tx k;
          if unwrap_or ''(none)'' (str_field v ''type'') = ty then Some v else None }"

definition guard :: "bool \<Rightarrow> unit option" where
  "guard c = (if c then Some () else None)"

definition smoke_main :: "crates \<Rightarrow> smoke_env \<Rightarrow> server \<Rightarrow> server option" where
  "smoke_main cr env s0 =
     do { let alice = peer_pubkey cr (env_alice env);
          let bob = peer_pubkey cr (env_bob env);
          s1 \<leftarrow> open_alice cr env 0 (register_body ''192.168.1.10:51820'' ''reg-alice'') s0;
          _ \<leftarrow> expect_type cr s1 1 0 ''registered'';
          s2 \<leftarrow> open_bob cr env 1 (register_body ''192.168.1.20:51820'' ''reg-bob'') s1;
          _ \<leftarrow> expect_type cr s2 2 0 ''registered'';
          let signal_payload = b64_encode cr (map byte_of ''hello bob from alice'');
          s3 \<leftarrow> alice_send cr env 2 (signal_body bob signal_payload ''sig-1'') s2;
          got \<leftarrow> expect_type cr s3 2 1 ''signal'';
          guard (unwrap_or [] (str_field got ''from'') = alice);
          s4 \<leftarrow> alice_send cr env 3 (request_relay_body bob ''relay-1'') s3;
          session_msg \<leftarrow> expect_type cr s4 1 1 ''relay_session_established'';
          session_id \<leftarrow> str_field session_msg ''session_id'';
          offer \<leftarrow> expect_type cr s4 2 2 ''relay_offer'';
          offered_id \<leftarrow> str_field offer ''session_id'';
          guard (offered_id = session_id);
          s5 \<leftarrow> bob_send cr env 4 (accept_relay_body session_id ''accept-1'') s4;
          _ \<leftarrow> expect_type cr s5 2 3 ''relay_session_established'';
          _ \<leftarrow> expect_type cr s5 1 2 ''relay_session_established'';
          let payload_a = b64_encode cr (map byte_of ''relay frame A'');
          s6 \<leftarrow> alice_send cr env 5 (relay_body session_id payload_a) s5;
          recv_b \<leftarrow> expect_type cr s6 2 4 ''relay_data'';
          guard (str_field recv_b ''data'' = Some payload_a);
          let payload_b = b64_encode cr (map byte_of ''relay frame B'');
          s7 \<leftarrow> bob_send cr env 6 (relay_body session_id payload_b) s6;
          recv_a \<leftarrow> expect_type cr s7 1 3 ''relay_data'';
          guard (str_field recv_a ''data'' = Some payload_b);
          Some s7 }"

section \<open>The broker's side of the script\<close>

declare One_nat_def [simp del]

lemma sign_text:
  assumes "body_of cr now sk body m" and "serde_roundtrip cr"
  obtains t where "sign cr now sk body = Some t" and "json_message cr t = Inr (signed_by cr sk m)"
proof -
  from assms(2) obtain t where "json_text cr (to_value (signed_by cr sk m)) = Inr t" "json_message cr t = Inr (signed_by cr sk m)"
    unfolding serde_roundtrip_def by blast
  with that sign_body_value [OF assms(1)] show ?thesis by (simp add: sign_def)
qed

lemma receive_signed:
  assumes "dm_get (srv_conns s) tx = Some pk" and "json_message cr t = Inr m"
    and "verify_signed_message cr (tk_now tk) m = Inr vk" and "cm_pubkey m = pk"
    and "dispatch cr tk pk tx m (srv_broker s) = (Inr (), b)"
  shows "server_step cr s (Receive tx (Frame (TextFrame t)) tk) =
    s\<lparr>srv_broker := b\<lparr>b_metrics := (b_metrics b)\<lparr>message_handle_count := message_handle_count (b_metrics b) + 1\<rparr>\<rparr>\<rparr>"
  using assms by (simp add: pump_text_def handle_client_message_def Let_def)

text \<open>Both peers are registered with live channels, and what each has been sent.\<close>

definition talking :: "string \<Rightarrow> string \<Rightarrow> server_message list \<Rightarrow> server_message list \<Rightarrow> broker \<Rightarrow> bool" where
  "talking A B la lb b \<longleftrightarrow>
     (\<exists>p. reg_get (b_registry b) A = Some p \<and> ph_tx p = 1) \<and> (\<exists>q. reg_get (b_registry b) B = Some q \<and> ph_tx q = 2) \<and>
     chan_alive (b_channels b) 1 \<and> chan_alive (b_channels b) 2 \<and>
     chan_log (b_channels b) 1 = la \<and> chan_log (b_channels b) 2 = lb"

lemma dispatch_signal:
  assumes "talking A B la lb b" and "dm_get (b_limiter b) A = None" and "gov_check cr 100 [] (tk_limiter tk)"
    and "b64_decode cr payload = Inr bytes" and "length bytes \<le> 4096"
  shows "\<exists>b'. dispatch cr tk A 1 (Signal A B payload ts sg rid) b = (Inr (), b') \<and>
    talking A B la (lb @ [SignalMsg A payload (tk_sent tk)]) b' \<and> b_relay b' = b_relay b"
  using assms
  by (auto simp: talking_def on_signal_def relay_signal_def limiter_check_def limiter_for_def base64_decoded_len_def
      SIGNALING_MAX_PAYLOAD_def Let_def try_send_eq)

lemma dispatch_request:
  assumes "talking A B la lb b"
  shows "\<exists>b'. dispatch cr tk A 1 (RequestRelay A B ts sg rid) b = (Inr (), b') \<and>
    talking A B (la @ [RelaySessionEstablished (uuid_text cr (tk_session tk)) B rid])
      (lb @ [RelayOffer (uuid_text cr (tk_session tk)) A]) b' \<and>
    dm_get (sessions (b_relay b')) (tk_session tk) = Some \<lparr>initiator = A, responder = B, sess_state = Pending\<rparr> \<and>
    quotas (b_relay b') = quotas (b_relay b)"
  using assms
  by (auto simp: talking_def on_request_relay_def request_def Let_def try_send_eq send_tx_log)

lemma dispatch_accept:
  assumes "talking A B la lb b" and "parse_session_id cr sid_text = Inr sid"
    and "dm_get (sessions (b_relay b)) sid = Some \<lparr>initiator = A, responder = B, sess_state = Pending\<rparr>"
  shows "\<exists>b'. dispatch cr tk B 2 (AcceptRelay B sid_text ts sg rid) b = (Inr (), b') \<and>
    talking A B (la @ [RelaySessionEstablished (uuid_text cr sid) B None])
      (lb @ [RelaySessionEstablished (uuid_text cr sid) A None]) b' \<and>
    dm_get (sessions (b_relay b')) sid = Some \<lparr>initiator = A, responder = B, sess_state = Active\<rparr> \<and>
    quotas (b_relay b') = quotas (b_relay b)"
  using assms
  by (auto simp: talking_def on_accept_relay_def accept_def announce_session_def Let_def try_send_eq)

text \<open>A new quota covers any frame, whatever the clocks say.\<close>

lemma fresh_quota_grants:
  assumes "dm_get (quotas rm) pk = None" and "n \<le> 2 ^ 16"
  shows "fst (consume_quota clk pk (of_nat n) rm) = Inr ()"
proof -
  obtain t1 t2 now where clk: "clk = (t1, t2, now)" by (cases clk) auto
  let ?q = "reset_day now (refill now (quota_new t1 t2))"
  have n: "unat (of_nat n :: u64) = n" using assms(2) by (simp add: unsigned_of_nat take_bit_nat_eq_self)
  define y where "y = f64_round (as_secs_f64 (now - t1) * 2 ^ 20)"
  have "0 \<le> y" by (simp add: y_def f64_round_nonneg)
  then have "2 ^ 20 * (1 - 1 / 2 ^ 53) \<le> (2 ^ 20 + y) * (1 - 1 / 2 ^ 53)" by (intro mult_right_mono) simp_all
  also have "\<dots> \<le> f64_round (2 ^ 20 + y)" using \<open>0 \<le> y\<close> by (intro f64_round_rel(2)) simp
  finally have "2 ^ 16 \<le> tokens ?q"
    by (simp add: refill_def quota_new_def duration_since_def Let_def y_def)
  moreover have "u64_as_f64 (of_nat n) \<le> 2 ^ 16"
  proof -
    have "(of_nat n :: rat) \<le> of_nat (2 ^ 16)" using assms(2) by (simp only: of_nat_le_iff)
    moreover have "u64_as_f64 (of_nat n) = of_nat n" using assms(2) u64_as_f64_small [of "of_nat n"] by (simp add: n)
    ultimately show ?thesis by simp
  qed
  moreover have "day_used ?q = 0" by (simp add: quota_new_def)
  moreover have "\<not> BYTES_PER_DAY < (of_nat n :: u64)" using assms(2) n by (simp add: word_less_nat_alt)
  ultimately show ?thesis using assms(1) by (simp add: clk consume_quota_def try_consume_def Let_def)
qed

lemma dispatch_relay:
  assumes "talking A B la lb b" and "parse_session_id cr sid_text = Inr sid"
    and "dm_get (sessions (b_relay b)) sid = Some \<lparr>initiator = A, responder = B, sess_state = Active\<rparr>"
    and "b64_decode cr data = Inr bytes" and "length bytes \<le> 65536" and "A \<noteq> B"
  shows "dm_get (quotas (b_relay b)) A = None \<Longrightarrow>
    \<exists>b'. dispatch cr tk A 1 (Relay A sid_text data ts sg) b = (Inr (), b') \<and>
      talking A B la (lb @ [RelayData (uuid_text cr sid) A data]) b' \<and>
      sessions (b_relay b') = sessions (b_relay b) \<and> (\<forall>pk. pk \<noteq> A \<longrightarrow> dm_get (quotas (b_relay b')) pk = dm_get (quotas (b_relay b)) pk)"
    and "dm_get (quotas (b_relay b)) B = None \<Longrightarrow>
    \<exists>b'. dispatch cr tk B 2 (Relay B sid_text data ts sg) b = (Inr (), b') \<and>
      talking A B (la @ [RelayData (uuid_text cr sid) B data]) lb b'"
proof -
  have small: "length bytes \<le> 2 ^ 16" using assms(5) by simp
  have quota: "\<exists>rm'. consume_quota clk pk (of_nat (length bytes)) (b_relay b) = (Inr (), rm') \<and> sessions rm' = sessions (b_relay b) \<and>
      (\<forall>pk'. pk' \<noteq> pk \<longrightarrow> dm_get (quotas rm') pk' = dm_get (quotas (b_relay b)) pk')"
    if "dm_get (quotas (b_relay b)) pk = None" for clk pk
    using fresh_quota_grants [OF that small, of clk] by (auto simp: consume_quota_def Let_def split_beta)
  {
    assume "dm_get (quotas (b_relay b)) A = None"
    from quota [OF this, of "tk_relay tk"] assms show "\<exists>b'. dispatch cr tk A 1 (Relay A sid_text data ts sg) b = (Inr (), b') \<and>
      talking A B la (lb @ [RelayData (uuid_text cr sid) A data]) b' \<and>
      sessions (b_relay b') = sessions (b_relay b) \<and> (\<forall>pk. pk \<noteq> A \<longrightarrow> dm_get (quotas (b_relay b')) pk = dm_get (quotas (b_relay b)) pk)"
      by (auto simp: talking_def on_relay_def forward_def other_party_def RELAY_MAX_FRAME_def Let_def try_send_eq)
  next
    assume "dm_get (quotas (b_relay b)) B = None"
    from quota [OF this, of "tk_relay tk"] assms show "\<exists>b'. dispatch cr tk B 2 (Relay B sid_text data ts sg) b = (Inr (), b') \<and>
      talking A B (la @ [RelayData (uuid_text cr sid) B data]) lb b'"
      by (auto simp: talking_def on_relay_def forward_def other_party_def RELAY_MAX_FRAME_def Let_def try_send_eq)
  }
qed

lemma connect_signed:
  assumes "json_message cr t = Inr (Register pk None a None ts sg rid)"
    and "verify_signed_message cr (tk_now tk) (Register pk None a None ts sg rid) = Inr vk"
  shows "server_step cr s (Connect tx addr (Frame (TextFrame t)) tk) =
    s\<lparr>srv_broker := register_peer cr tk addr pk None a User rid tx (open_channel tx (srv_broker s)),
      srv_conns := dm_insert tx pk (srv_conns s)\<rparr>"
  using assms by (simp add: serve_start_def)

lemma both_registered:
  fixes cr tk1 tk2 addr1 addr2 A B a1 a2 rid1 rid2
  assumes "A \<noteq> B"
  defines "b1 \<equiv> register_peer cr tk1 addr1 A None a1 User rid1 1 (open_channel 1 in_memory)"
  defines "b2 \<equiv> register_peer cr tk2 addr2 B None a2 User rid2 2 (open_channel 2 b1)"
  shows "chan_log (b_channels b1) 1 = [Registered A (format_reflected addr1) False rid1]"
    and "talking A B [Registered A (format_reflected addr1) False rid1] [Registered B (format_reflected addr2) False rid2] b2"
    and "b_limiter b2 = limiter_new" and "b_relay b2 = relay_new" and "b_presence b2 = presence_new"
  using assms(1)
  by (simp_all add: b1_def b2_def talking_def in_memory_def register_peer_def register_db_def open_channel_def send_tx_def
      broadcast_def presence_new_def chan_insert Let_def reg_new_def)

lemma smoke_send:
  assumes "serde_roundtrip cr" and "hex_faithful cr" and "ed25519_correct cr" and "body_of cr now sk body m"
    and "cm_pubkey m = peer_pubkey cr sk" and "check_timestamp (tk_now tk) (cm_timestamp m) = Inr ()"
  obtains t where "sign cr now sk body = Some t" and "json_message cr t = Inr (signed_by cr sk m)"
    and "verify_signed_message cr (tk_now tk) (signed_by cr sk m) = Inr (sk_public cr sk)"
  using sign_text [OF assms(4,1)] signed_by_verifies [OF assms(2,3,5,6)] by metis

text \<open>One message of a connected peer, signed and handled.\<close>

lemma smoke_step:
  assumes crates: "serde_roundtrip cr" "hex_faithful cr" "ed25519_correct cr"
    and body: "body_of cr now sk body m" "cm_pubkey m = peer_pubkey cr sk" "check_timestamp (tk_now tk) (cm_timestamp m) = Inr ()"
    and conn: "dm_get (srv_conns s) tx = Some (peer_pubkey cr sk)"
    and handled: "\<exists>b'. dispatch cr tk (peer_pubkey cr sk) tx (signed_by cr sk m) (srv_broker s) = (Inr (), b') \<and>
      talking A B la lb b' \<and> P (b_presence b') (b_relay b')"
  obtains s' where "Option.bind (sign cr now sk body) (\<lambda>t. Some (server_step cr s (Receive tx (Frame (TextFrame t)) tk))) = Some s'"
    and "srv_conns s' = srv_conns s" and "talking A B la lb (srv_broker s')" and "P (b_presence (srv_broker s')) (b_relay (srv_broker s'))"
proof -
  from handled obtain b' where b': "dispatch cr tk (peer_pubkey cr sk) tx (signed_by cr sk m) (srv_broker s) = (Inr (), b')"
    "talking A B la lb b'" "P (b_presence b') (b_relay b')" by blast
  obtain t where t: "sign cr now sk body = Some t" "json_message cr t = Inr (signed_by cr sk m)"
    "verify_signed_message cr (tk_now tk) (signed_by cr sk m) = Inr (sk_public cr sk)"
    by (rule smoke_send [OF crates body])
  have pk: "cm_pubkey (signed_by cr sk m) = peer_pubkey cr sk" using body(2) by (simp add: signed_by_def)
  show ?thesis
    by (rule that [of "server_step cr s (Receive tx (Frame (TextFrame t)) tk)"])
      (use receive_signed [OF conn t(2,3) pk b'(1)] b'(2,3) t(1) in \<open>simp_all add: talking_def del: server_step.simps\<close>)
qed

text \<open>Opening a connection with a registration, whatever its addresses and its request id.\<close>

lemma smoke_open:
  assumes crates: "serde_roundtrip cr" "hex_faithful cr" "ed25519_correct cr"
    and body: "body_of cr now sk body (Register (peer_pubkey cr sk) None a None now [] rid)"
    and fresh: "check_timestamp (tk_now tk) now = Inr ()"
  obtains t where "sign cr now sk body = Some t"
    and "\<And>s tx addr. server_step cr s (Connect tx addr (Frame (TextFrame t)) tk) =
      s\<lparr>srv_broker := register_peer cr tk addr (peer_pubkey cr sk) None a User rid tx
          (open_channel tx (srv_broker s)), srv_conns := dm_insert tx (peer_pubkey cr sk) (srv_conns s)\<rparr>"
proof -
  let ?m = "Register (peer_pubkey cr sk) None a None now [] rid"
  have m: "cm_pubkey ?m = peer_pubkey cr sk" "check_timestamp (tk_now tk) (cm_timestamp ?m) = Inr ()" using fresh by simp_all
  obtain t where t: "sign cr now sk body = Some t" "json_message cr t = Inr (signed_by cr sk ?m)"
    "verify_signed_message cr (tk_now tk) (signed_by cr sk ?m) = Inr (sk_public cr sk)"
    by (rule smoke_send [OF crates body m])
  from connect_signed [OF t(2,3) [unfolded signed_by_def with_signature.simps]] t(1) show ?thesis
    by (rule that [rotated])
qed

lemma smoke_registered:
  fixes cr env
  assumes crates: "serde_roundtrip cr" "hex_faithful cr" "ed25519_correct cr"
    and fresh: "\<And>n. n < 7 \<Longrightarrow> check_timestamp (tk_now (env_tick env n)) (env_now env n) = Inr ()"
    and distinct: "peer_pubkey cr (env_alice env) \<noteq> peer_pubkey cr (env_bob env)"
  defines "A \<equiv> peer_pubkey cr (env_alice env)" and "B \<equiv> peer_pubkey cr (env_bob env)"
  assumes body: "body_of cr (env_now env 0) (env_alice env) body1 (Register A None a1 None (env_now env 0) [] rid1)"
      "body_of cr (env_now env 1) (env_bob env) body2 (Register B None a2 None (env_now env 1) [] rid2)"
  defines "ra \<equiv> Registered A (format_reflected (env_alice_addr env)) False rid1"
    and "rb \<equiv> Registered B (format_reflected (env_bob_addr env)) False rid2"
  obtains s1 s2 where "open_alice cr env 0 body1 (server_new None) = Some s1"
    and "open_bob cr env 1 body2 s1 = Some s2"
    and "chan_log (b_channels (srv_broker s1)) 1 = [ra]" and "talking A B [ra] [rb] (srv_broker s2)"
    and "dm_get (srv_conns s2) 1 = Some A" and "dm_get (srv_conns s2) 2 = Some B"
    and "b_limiter (srv_broker s2) = limiter_new" and "b_relay (srv_broker s2) = relay_new"
    and "b_presence (srv_broker s2) = presence_new"
proof -
  have clocks: "check_timestamp (tk_now (env_tick env 0)) (env_now env 0) = Inr ()"
    "check_timestamp (tk_now (env_tick env 1)) (env_now env 1) = Inr ()" using fresh by simp_all
  obtain t1 where t1: "sign cr (env_now env 0) (env_alice env) body1 = Some t1"
    and c1: "\<And>s tx addr. server_step cr s (Connect tx addr (Frame (TextFrame t1)) (env_tick env 0)) =
      s\<lparr>srv_broker := register_peer cr (env_tick env 0) addr A None a1 User rid1 tx (open_channel tx (srv_broker s)),
        srv_conns := dm_insert tx A (srv_conns s)\<rparr>"
    using smoke_open [OF crates body(1) [unfolded A_def] clocks(1)] unfolding A_def by blast
  obtain t2 where t2: "sign cr (env_now env 1) (env_bob env) body2 = Some t2"
    and c2: "\<And>s tx addr. server_step cr s (Connect tx addr (Frame (TextFrame t2)) (env_tick env 1)) =
      s\<lparr>srv_broker := register_peer cr (env_tick env 1) addr B None a2 User rid2 tx (open_channel tx (srv_broker s)),
        srv_conns := dm_insert tx B (srv_conns s)\<rparr>"
    using smoke_open [OF crates body(2) [unfolded B_def] clocks(2)] unfolding B_def by blast
  let ?s1 = "server_step cr (server_new None) (Connect 1 (env_alice_addr env) (Frame (TextFrame t1)) (env_tick env 0))"
  let ?s2 = "server_step cr ?s1 (Connect 2 (env_bob_addr env) (Frame (TextFrame t2)) (env_tick env 1))"
  have new: "srv_broker (server_new None) = in_memory" by (simp add: server_new_def in_memory_def)
  note reg = both_registered [OF distinct [folded A_def B_def]]
  show ?thesis
    by (rule that [of ?s1 ?s2])
      (simp_all add: open_alice_def open_bob_def t1 t2 c1 c2 new reg ra_def rb_def del: server_step.simps)
qed

text \<open>The five messages of the conversation.\<close>

definition in_session :: "crates \<Rightarrow> smoke_env \<Rightarrow> server_message list \<Rightarrow> server_message list \<Rightarrow> server \<Rightarrow> bool" where
  "in_session cr env la lb s \<longleftrightarrow>
     dm_get (srv_conns s) 1 = Some (peer_pubkey cr (env_alice env)) \<and>
     dm_get (srv_conns s) 2 = Some (peer_pubkey cr (env_bob env)) \<and>
     talking (peer_pubkey cr (env_alice env)) (peer_pubkey cr (env_bob env)) la lb (srv_broker s)"

definition smoke_crates :: "crates \<Rightarrow> smoke_env \<Rightarrow> bool" where
  "smoke_crates cr env \<longleftrightarrow> serde_roundtrip cr \<and> hex_faithful cr \<and> ed25519_correct cr \<and>
     (\<forall>n < 7. check_timestamp (tk_now (env_tick env n)) (env_now env n) = Inr ())"

lemma alice_sends:
  assumes "smoke_crates cr env" and "n < 7" and "in_session cr env la lb s"
    and "body_of cr (env_now env n) (env_alice env) body m" and "cm_pubkey m = peer_pubkey cr (env_alice env)"
    and "cm_timestamp m = env_now env n"
    and "\<exists>b'. dispatch cr (env_tick env n) (peer_pubkey cr (env_alice env)) 1 (signed_by cr (env_alice env) m) (srv_broker s) = (Inr (), b') \<and>
      talking (peer_pubkey cr (env_alice env)) (peer_pubkey cr (env_bob env)) la' lb' b' \<and> P (b_presence b') (b_relay b')"
  obtains s' where "alice_send cr env n body s = Some s'" and "in_session cr env la' lb' s'" and "P (b_presence (srv_broker s')) (b_relay (srv_broker s'))"
proof -
  have c: "serde_roundtrip cr" "hex_faithful cr" "ed25519_correct cr"
    and t: "check_timestamp (tk_now (env_tick env n)) (cm_timestamp m) = Inr ()"
    using assms(1,2,6) by (auto simp: smoke_crates_def)
  have conn: "dm_get (srv_conns s) 1 = Some (peer_pubkey cr (env_alice env))" using assms(3) by (simp add: in_session_def)
  show ?thesis
    by (rule smoke_step [OF c assms(4,5) t conn assms(7)], rule that)
      (use assms(3) in \<open>simp_all add: alice_send_def in_session_def del: server_step.simps\<close>)
qed

lemma bob_sends:
  assumes "smoke_crates cr env" and "n < 7" and "in_session cr env la lb s"
    and "body_of cr (env_now env n) (env_bob env) body m" and "cm_pubkey m = peer_pubkey cr (env_bob env)"
    and "cm_timestamp m = env_now env n"
    and "\<exists>b'. dispatch cr (env_tick env n) (peer_pubkey cr (env_bob env)) 2 (signed_by cr (env_bob env) m) (srv_broker s) = (Inr (), b') \<and>
      talking (peer_pubkey cr (env_alice env)) (peer_pubkey cr (env_bob env)) la' lb' b' \<and> P (b_presence b') (b_relay b')"
  obtains s' where "bob_send cr env n body s = Some s'" and "in_session cr env la' lb' s'" and "P (b_presence (srv_broker s')) (b_relay (srv_broker s'))"
proof -
  have c: "serde_roundtrip cr" "hex_faithful cr" "ed25519_correct cr"
    and t: "check_timestamp (tk_now (env_tick env n)) (cm_timestamp m) = Inr ()"
    using assms(1,2,6) by (auto simp: smoke_crates_def)
  have conn: "dm_get (srv_conns s) 2 = Some (peer_pubkey cr (env_bob env))" using assms(3) by (simp add: in_session_def)
  show ?thesis
    by (rule smoke_step [OF c assms(4,5) t conn assms(7)], rule that)
      (use assms(3) in \<open>simp_all add: bob_send_def in_session_def del: server_step.simps\<close>)
qed

lemma alice_signals:
  fixes cr env
  defines "A \<equiv> peer_pubkey cr (env_alice env)" and "B \<equiv> peer_pubkey cr (env_bob env)"
  assumes ok: "smoke_crates cr env" "b64_faithful cr" and n: "n < 7" and gov: "gov_check cr 100 [] (tk_limiter (env_tick env n))"
    and body: "body_of cr (env_now env n) (env_alice env) body (Signal A B (b64_encode cr bytes) (env_now env n) [] rid)"
    and len: "length bytes \<le> 4096" and s: "in_session cr env la lb s" "b_limiter (srv_broker s) = limiter_new"
  obtains s' where "alice_send cr env n body s = Some s'"
    and "in_session cr env la (lb @ [SignalMsg A (b64_encode cr bytes) (tk_sent (env_tick env n))]) s'"
    and "b_relay (srv_broker s') = b_relay (srv_broker s)"
proof -
  have t: "talking A B la lb (srv_broker s)" and l: "dm_get (b_limiter (srv_broker s)) A = None"
    and p: "b64_decode cr (b64_encode cr bytes) = Inr bytes"
    using s ok(2) by (simp_all add: A_def B_def in_session_def limiter_new_def b64_faithful_def)
  show ?thesis
    by (rule alice_sends [OF ok(1) n s(1) body, where P = "\<lambda>pm r. r = b_relay (srv_broker s)"])
      (use dispatch_signal [OF t l gov p len] that in \<open>simp_all add: signed_by_def flip: A_def B_def\<close>)
qed

lemma alice_requests:
  fixes cr env n
  defines "A \<equiv> peer_pubkey cr (env_alice env)" and "B \<equiv> peer_pubkey cr (env_bob env)" and "sid \<equiv> tk_session (env_tick env n)"
  assumes ok: "smoke_crates cr env" and n: "n < 7" and s: "in_session cr env la lb s" "b_relay (srv_broker s) = relay_new"
  obtains s' where "alice_send cr env n (request_relay_body B rid) s = Some s'"
    and "in_session cr env (la @ [RelaySessionEstablished (uuid_text cr sid) B (Some rid)]) (lb @ [RelayOffer (uuid_text cr sid) A]) s'"
    and "dm_get (sessions (b_relay (srv_broker s'))) sid = Some \<lparr>initiator = A, responder = B, sess_state = Pending\<rparr> \<and>
      quotas (b_relay (srv_broker s')) = dm_empty"
proof -
  have t: "talking A B la lb (srv_broker s)" using s(1) by (simp add: A_def B_def in_session_def)
  show ?thesis
    by (rule alice_sends [OF ok n s(1) bodies(3), where P = "\<lambda>pm r. dm_get (sessions r) sid =
        Some \<lparr>initiator = A, responder = B, sess_state = Pending\<rparr> \<and> quotas r = dm_empty"])
      (use dispatch_request [OF t] s(2) that in \<open>simp_all add: signed_by_def sid_def relay_new_def flip: A_def B_def\<close>)
qed

lemma smoke_accept_relay:
  fixes cr env rid and fa fb :: "u8 list"
  defines "A \<equiv> peer_pubkey cr (env_alice env)" and "B \<equiv> peer_pubkey cr (env_bob env)"
    and "pa \<equiv> b64_encode cr fa" and "pb \<equiv> b64_encode cr fb"
  assumes ok: "smoke_crates cr env" "b64_faithful cr" "uuid_faithful cr" and distinct: "A \<noteq> B"
    and n: "n1 < 7" "n2 < 7" "n3 < 7" and len: "length fa \<le> 65536" "length fb \<le> 65536"
    and s: "in_session cr env la lb s" "dm_get (sessions (b_relay (srv_broker s))) sid =
      Some \<lparr>initiator = A, responder = B, sess_state = Pending\<rparr> \<and> quotas (b_relay (srv_broker s)) = dm_empty"
  obtains s5 s6 s7 where "bob_send cr env n1 (accept_relay_body (uuid_text cr sid) rid) s = Some s5"
    and "in_session cr env (la @ [RelaySessionEstablished (uuid_text cr sid) B None])
      (lb @ [RelaySessionEstablished (uuid_text cr sid) A None]) s5"
    and "alice_send cr env n2 (relay_body (uuid_text cr sid) pa) s5 = Some s6"
    and "in_session cr env (la @ [RelaySessionEstablished (uuid_text cr sid) B None])
      (lb @ [RelaySessionEstablished (uuid_text cr sid) A None, RelayData (uuid_text cr sid) A pa]) s6"
    and "bob_send cr env n3 (relay_body (uuid_text cr sid) pb) s6 = Some s7"
    and "in_session cr env (la @ [RelaySessionEstablished (uuid_text cr sid) B None, RelayData (uuid_text cr sid) B pb])
      (lb @ [RelaySessionEstablished (uuid_text cr sid) A None, RelayData (uuid_text cr sid) A pa]) s7"
proof -
  let ?sid = "uuid_text cr sid" and ?act = "\<lparr>initiator = A, responder = B, sess_state = Active\<rparr>"
  let ?la = "la @ [RelaySessionEstablished ?sid B None]" and ?lb = "lb @ [RelaySessionEstablished ?sid A None]"
  have id: "parse_session_id cr ?sid = Inr sid" using ok(3) by (simp add: parse_session_id_def uuid_faithful_def)
  have dec: "b64_decode cr pa = Inr fa" "b64_decode cr pb = Inr fb"
    using ok(2) by (simp_all add: pa_def pb_def b64_faithful_def)
  have talk: "talking A B x y (srv_broker st)" if "in_session cr env x y st" for x y st
    using that by (simp add: A_def B_def in_session_def)
  obtain s5 where s5: "bob_send cr env n1 (accept_relay_body ?sid rid) s = Some s5" "in_session cr env ?la ?lb s5"
    "dm_get (sessions (b_relay (srv_broker s5))) sid = Some ?act \<and> quotas (b_relay (srv_broker s5)) = dm_empty"
    by (rule bob_sends [OF ok(1) n(1) s(1) bodies(4), where
        P = "\<lambda>pm r. dm_get (sessions r) sid = Some ?act \<and> quotas r = dm_empty"])
      (use dispatch_accept [OF talk [OF s(1)] id] s(2) in \<open>simp_all add: signed_by_def flip: A_def B_def\<close>)
  have r5: "\<exists>b'. dispatch cr (env_tick env n2) A 1 (Relay A ?sid pa ts sg) (srv_broker s5) = (Inr (), b') \<and>
      talking A B ?la (?lb @ [RelayData ?sid A pa]) b' \<and>
      dm_get (sessions (b_relay b')) sid = Some ?act \<and> dm_get (quotas (b_relay b')) B = None" for ts sg
    using dispatch_relay(1) [OF talk [OF s5(2)] id _ dec(1) len(1) distinct, of "env_tick env n2" ts sg] s5(3) distinct by fastforce
  obtain s6 where s6: "alice_send cr env n2 (relay_body ?sid pa) s5 = Some s6"
    "in_session cr env ?la (?lb @ [RelayData ?sid A pa]) s6"
    "dm_get (sessions (b_relay (srv_broker s6))) sid = Some ?act \<and> dm_get (quotas (b_relay (srv_broker s6))) B = None"
    by (rule alice_sends [OF ok(1) n(2) s5(2) bodies(5), where
        P = "\<lambda>pm r. dm_get (sessions r) sid = Some ?act \<and> dm_get (quotas r) B = None"])
      (use r5 in \<open>simp_all add: signed_by_def flip: A_def B_def\<close>)
  obtain s7 where s7: "bob_send cr env n3 (relay_body ?sid pb) s6 = Some s7"
    "in_session cr env (?la @ [RelayData ?sid B pb]) (?lb @ [RelayData ?sid A pa]) s7"
    by (rule bob_sends [OF ok(1) n(3) s6(2) bodies(5), where P = "\<lambda>pm r. True"])
      (use dispatch_relay(2) [OF talk [OF s6(2)] id _ dec(2) len(2) distinct] s6(3)
       in \<open>simp_all add: signed_by_def flip: A_def B_def\<close>)
  from s5 s6 s7 show ?thesis by (intro that [of s5 s6 s7]) simp_all
qed

section \<open>The script succeeds\<close>

text \<open>
  (C7) The smoke test passes against the model: with crates that do what they document and clocks
  that agree within the replay window, two peers with different keys register with a fresh
  broker, the signal arrives, the relay session is offered, accepted and carries a frame each
  way; every expectation of the script is met, and each peer was sent exactly these messages.
\<close>
theorem smoke_main_passes:
  assumes "serde_roundtrip cr" and "hex_faithful cr" and "ed25519_correct cr" and "b64_faithful cr" and "uuid_faithful cr"
    and "gov_check cr 100 [] (tk_limiter (env_tick env 2))"
    and "\<And>n. n < 7 \<Longrightarrow> check_timestamp (tk_now (env_tick env n)) (env_now env n) = Inr ()"
    and "peer_pubkey cr (env_alice env) \<noteq> peer_pubkey cr (env_bob env)"
  shows "let A = peer_pubkey cr (env_alice env); B = peer_pubkey cr (env_bob env); sid = uuid_text cr (tk_session (env_tick env 3)) in
    \<exists>s. smoke_main cr env (server_new None) = Some s \<and>
    chan_log (b_channels (srv_broker s)) 1 =
      [Registered A (format_reflected (env_alice_addr env)) False (Some ''reg-alice''),
       RelaySessionEstablished sid B (Some ''relay-1''), RelaySessionEstablished sid B None,
       RelayData sid B (b64_encode cr (map byte_of ''relay frame B''))] \<and>
    chan_log (b_channels (srv_broker s)) 2 =
      [Registered B (format_reflected (env_bob_addr env)) False (Some ''reg-bob''),
       SignalMsg A (b64_encode cr (map byte_of ''hello bob from alice'')) (tk_sent (env_tick env 2)),
       RelayOffer sid A, RelaySessionEstablished sid A None,
       RelayData sid A (b64_encode cr (map byte_of ''relay frame A''))]"
proof -
  let ?A = "peer_pubkey cr (env_alice env)" and ?B = "peer_pubkey cr (env_bob env)"
  have ok: "smoke_crates cr env" using assms(1-3,7) by (simp add: smoke_crates_def)
  let ?ra = "Registered ?A (format_reflected (env_alice_addr env)) False (Some ''reg-alice'')"
  let ?rb = "Registered ?B (format_reflected (env_bob_addr env)) False (Some ''reg-bob'')"
  let ?hello = "b64_encode cr (map byte_of ''hello bob from alice'')" and ?sid = "tk_session (env_tick env 3)"
  let ?sig = "SignalMsg ?A ?hello (tk_sent (env_tick env 2))"
  obtain s1 s2 where r: "open_alice cr env 0 (register_body ''192.168.1.10:51820'' ''reg-alice'') (server_new None) = Some s1"
    "open_bob cr env 1 (register_body ''192.168.1.20:51820'' ''reg-bob'') s1 = Some s2"
    "chan_log (b_channels (srv_broker s1)) 1 = [?ra]" "in_session cr env [?ra] [?rb] s2"
    "b_limiter (srv_broker s2) = limiter_new" "b_relay (srv_broker s2) = relay_new"
    using smoke_registered [OF assms(1-3,7,8) bodies(1) bodies(1)] unfolding in_session_def by metis
  have len: "length (map byte_of ''hello bob from alice'') \<le> 4096" and n: "2 < (7 :: nat)" "3 < (7 :: nat)" by simp_all
  obtain s3 where q3: "alice_send cr env 2 (signal_body ?B ?hello ''sig-1'') s2 = Some s3"
    "in_session cr env [?ra] ([?rb] @ [?sig]) s3" "b_relay (srv_broker s3) = relay_new"
    by (rule alice_signals [OF ok assms(4) n(1) assms(6) bodies(2) len r(4,5)]) (simp add: r(6))
  obtain s4 where q4: "alice_send cr env 3 (request_relay_body ?B ''relay-1'') s3 = Some s4"
    "in_session cr env ([?ra] @ [RelaySessionEstablished (uuid_text cr ?sid) ?B (Some ''relay-1'')])
      (([?rb] @ [?sig]) @ [RelayOffer (uuid_text cr ?sid) ?A]) s4"
    "dm_get (sessions (b_relay (srv_broker s4))) ?sid =
      Some \<lparr>initiator = ?A, responder = ?B, sess_state = Pending\<rparr> \<and> quotas (b_relay (srv_broker s4)) = dm_empty"
    by (rule alice_requests [OF ok n(2) q3(2,3)])
  show ?thesis
    by (rule smoke_accept_relay [OF ok assms(4,5,8) _ _ _ _ _ q4(2,3), where ?n1.0 = 4 and ?n2.0 = 5 and ?n3.0 = 6 and rid = "''accept-1''"
        and fa = "map byte_of ''relay frame A''" and fb = "map byte_of ''relay frame B''"])
      (use r q3 q4 in \<open>simp_all add: smoke_main_def Let_def in_session_def talking_def expect_type_def recv_def str_field_def
         server_value_def guard_def\<close>)
qed

definition demo_env :: smoke_env where
  "demo_env = \<lparr>env_now = (\<lambda>_. 1000),
     env_tick = (\<lambda>_. \<lparr>tk_now = 1000, tk_sent = 1000, tk_limiter = 0, tk_relay = (0, 0, 0), tk_session = 7, tk_team = 8,
       tk_db1 = 0, tk_db2 = 0, tk_db3 = 0\<rparr>),
     env_alice = SigningKey [1], env_bob = SigningKey [2], env_alice_addr = V4 10 0 0 1 4000, env_bob_addr = V4 10 0 0 2 4000\<rparr>"

lemma demo_serde_crates:
  "hex_faithful demo_serde" "ed25519_correct demo_serde" "b64_faithful demo_serde" "uuid_faithful demo_serde"
  using demo_hex_faithful demo_ed25519_correct demo_uuid_faithful
  by (simp_all add: hex_faithful_def ed25519_correct_def b64_faithful_def uuid_faithful_def demo_serde_def comp_def)

lemma demo_keys_differ: "peer_pubkey demo_serde (SigningKey [1]) \<noteq> peer_pubkey demo_serde (SigningKey [2])"
proof
  let ?k = "\<lambda>sk. vk_to_bytes demo_serde (sk_public demo_serde sk)"
  assume "peer_pubkey demo_serde (SigningKey [1]) = peer_pubkey demo_serde (SigningKey [2])"
  then have "hex_decode demo_serde (hex_encode demo_serde (?k (SigningKey [1]))) = hex_decode demo_serde (hex_encode demo_serde (?k (SigningKey [2])))"
    by (simp add: peer_pubkey_def)
  then have "?k (SigningKey [1]) = ?k (SigningKey [2])" using demo_serde_crates(1) by (simp add: hex_faithful_def)
  then show False by (simp add: demo_serde_def)
qed

theorem signed_body_verifies_witness:
  "\<exists>sg. sign_body demo_serde 1000 (SigningKey [1]) (relay_body ''s'' ''d'') =
       Some (to_value (Relay (peer_pubkey demo_serde (SigningKey [1])) ''s'' ''d'' 1000 sg)) \<and>
     verify_signed_message demo_serde 1010 (Relay (peer_pubkey demo_serde (SigningKey [1])) ''s'' ''d'' 1000 sg) =
       Inr (sk_public demo_serde (SigningKey [1]))"
proof -
  have "check_timestamp 1010 (cm_timestamp (Relay pk x y 1000 sg)) = Inr ()" for pk x y sg by (simp add: check_timestamp_ok)
  from signed_body_verifies [OF demo_serde_crates(1,2) bodies(5) _ this] show ?thesis by simp
qed

theorem smoke_main_passes_witness: "\<exists>s. smoke_main demo_serde demo_env (server_new None) = Some s"
proof -
  have c: "check_timestamp (tk_now (env_tick demo_env n)) (env_now demo_env n) = Inr ()" for n
    by (simp add: demo_env_def check_timestamp_ok)
  have g: "gov_check demo_serde 100 [] (tk_limiter (env_tick demo_env 2))"
    by (simp add: demo_serde_def gcra_def gcra_state_def)
  have d: "peer_pubkey demo_serde (env_alice demo_env) \<noteq> peer_pubkey demo_serde (env_bob demo_env)"
    using demo_keys_differ by (simp add: demo_env_def)
  show ?thesis using smoke_main_passes [OF demo_serde_roundtrip demo_serde_crates g c d] unfolding Let_def by blast
qed

end
