(* ===== verification/Claim_Race.thy ===== *)
theory Claim_Race
  imports Handles
begin

text \<open>
  Handle claims that run at the same time (\<open>claim_handle\<close> of \<open>src/db.rs\<close>). Each claim is a
  transaction of five statements, at the isolation level Postgres has by default: a statement sees
  what is committed when it starts, the transaction's own writes become visible at its commit, an
  insertion waits for an uncommitted row with the same primary key, and an update waits for the
  uncommitted update of the same row. The steps of the claims interleave in any order; any of them
  may be cut off, also between its commit and the acknowledgement, and the other operations
  of the broker touch the tables in between.
\<close>

section \<open>The steps of a claim\<close>

datatype claim_pc = CBegin | CNoHandle | CFree | CInserted | CUpdated | CDone "unit result"

record claiming =
  cl_pubkey :: string
  cl_handle :: string
  cl_now :: int
  cl_pc :: claim_pc

definition commit_claim :: "claiming \<Rightarrow> database \<Rightarrow> database" where
  "commit_claim c db =
     (case insert_handle (cl_now c) (cl_handle c) (cl_pubkey c) db of
        Inl _ \<Rightarrow> db
      | Inr (_, d) \<Rightarrow> (case set_peer_handle (cl_handle c) (cl_pubkey c) d of Inl _ \<Rightarrow> db | Inr (_, d') \<Rightarrow> d'))"

text \<open>The next statement of a claim against the committed tables.\<close>

definition claim_next :: "crates \<Rightarrow> claiming \<Rightarrow> database \<Rightarrow> claim_pc \<times> database" where
  "claim_next cr c db =
     (case cl_pc c of
        CBegin \<Rightarrow>
          (case select_handle_of (cl_pubkey c) db of
             Some existing_handle \<Rightarrow> (CDone (if existing_handle = cl_handle c then Inr () else Inl HandleAlreadyOwned), db)
           | None \<Rightarrow> (CNoHandle, db))
      | CNoHandle \<Rightarrow> (if select_owner_of (cl_handle c) db \<noteq> None then CDone (Inl HandleTaken) else CFree, db)
      | CFree \<Rightarrow>
          (case insert_handle (cl_now c) (cl_handle c) (cl_pubkey c) db of
             Inl v \<Rightarrow> CDone (Inl (Database (pg_violation cr v))) | Inr _ \<Rightarrow> CInserted, db)
      | CInserted \<Rightarrow>
          (case set_peer_handle (cl_handle c) (cl_pubkey c) db of
             Inl v \<Rightarrow> CDone (Inl (Database (pg_violation cr v))) | Inr _ \<Rightarrow> CUpdated, db)
      | CUpdated \<Rightarrow> (CDone (Inr ()), commit_claim c db)
      | CDone r \<Rightarrow> (CDone r, db))"

text \<open>
  The locks: whether the next statement of a claim has to wait for another one. An insertion waits
  for an uncommitted row of the same key, and, its foreign key locking the peer's row against changes
  of its keys, for an uncommitted update of that row; the update, \<open>handle\<close> being \<open>UNIQUE\<close>,
  waits for every claim that has the row locked either way. Two claims of one key that have both
  inserted wait for each other, until the database aborts one of them.
\<close>

definition wrote :: "claiming \<Rightarrow> bool" where
  "wrote c \<longleftrightarrow> cl_pc c \<in> {CInserted, CUpdated}"

definition holds_up :: "claiming \<Rightarrow> claiming \<Rightarrow> bool" where
  "holds_up d c =
     (case cl_pc c of
        CFree \<Rightarrow> wrote d \<and> cl_handle d = cl_handle c \<or> cl_pc d = CUpdated \<and> cl_pubkey d = cl_pubkey c
      | CInserted \<Rightarrow> wrote d \<and> cl_pubkey d = cl_pubkey c
      | _ \<Rightarrow> False)"

definition blocked :: "nat \<Rightarrow> claiming list \<Rightarrow> bool" where
  "blocked i cs \<longleftrightarrow> list_ex (\<lambda>j. j \<noteq> i \<and> holds_up (cs ! j) (cs ! i)) [0..<length cs]"

text \<open>What the other operations of \<open>db.rs\<close> can do to these tables.\<close>

definition handles_kept :: "database \<Rightarrow> database \<Rightarrow> bool" where
  "handles_kept db db' \<longleftrightarrow> db_handles db' = db_handles db \<and>
     pr_pubkey ` set (db_peers db) \<subseteq> pr_pubkey ` set (db_peers db') \<and>
     (\<forall>r \<in> set (db_peers db'). pr_handle r = None \<or>
        (\<exists>r0 \<in> set (db_peers db). pr_pubkey r0 = pr_pubkey r \<and> pr_handle r0 = pr_handle r))"

definition set_pc :: "claim_pc \<Rightarrow> nat \<Rightarrow> claiming list \<Rightarrow> claiming list" where
  "set_pc pc i cs = cs[i := (cs ! i)\<lparr>cl_pc := pc\<rparr>]"

inductive claim_step :: "crates \<Rightarrow> database \<times> claiming list \<Rightarrow> database \<times> claiming list \<Rightarrow> bool" for cr where
  run: "i < length cs \<Longrightarrow> \<not> blocked i cs \<Longrightarrow> claim_next cr (cs ! i) db = (pc, db') \<Longrightarrow>
    claim_step cr (db, cs) (db', set_pc pc i cs)"
| lost: "i < length cs \<Longrightarrow> (\<And>r. cl_pc (cs ! i) \<noteq> CDone r) \<Longrightarrow>
    claim_step cr (db, cs) (db, set_pc (CDone (Inl (Database e))) i cs)"
| unacked: "i < length cs \<Longrightarrow> cl_pc (cs ! i) = CUpdated \<Longrightarrow>
    claim_step cr (db, cs) (commit_claim (cs ! i) db, set_pc (CDone (Inl (Database e))) i cs)"
| others: "handles_kept db db' \<Longrightarrow> claim_step cr (db, cs) (db', cs)"

section \<open>Ownership under any interleaving\<close>

definition race_inv :: "database \<times> claiming list \<Rightarrow> bool" where
  "race_inv st \<longleftrightarrow> (case st of (db, cs) \<Rightarrow>
     distinct (map hr_handle (db_handles db)) \<and>
     (\<forall>r \<in> set (db_peers db). \<forall>h. pr_handle r = Some h \<longrightarrow> select_owner_of h db = Some (pr_pubkey r)) \<and>
     (\<forall>i < length cs. wrote (cs ! i) \<longrightarrow>
        cl_handle (cs ! i) \<notin> hr_handle ` set (db_handles db) \<and> cl_pubkey (cs ! i) \<in> pr_pubkey ` set (db_peers db)) \<and>
     (\<forall>i < length cs. \<forall>j < length cs. i \<noteq> j \<longrightarrow> wrote (cs ! i) \<longrightarrow> wrote (cs ! j) \<longrightarrow> cl_handle (cs ! i) \<noteq> cl_handle (cs ! j)) \<and>
     (\<forall>i < length cs. cl_pc (cs ! i) = CDone (Inr ()) \<longrightarrow> select_owner_of (cl_handle (cs ! i)) db = Some (cl_pubkey (cs ! i))))"

lemma race_inv_fresh:
  assumes "race_inv (db, cs)" and "i < length cs" and "wrote (cs ! i)"
  shows "cl_handle (cs ! i) \<notin> hr_handle ` set (db_handles db)" and "cl_pubkey (cs ! i) \<in> pr_pubkey ` set (db_peers db)"
  using assms by (auto simp: race_inv_def)

text \<open>A commit goes through, adds the row and keeps every other owner.\<close>

lemma commit_claim_effect:
  assumes "race_inv (db, cs)" and "i < length cs" and "wrote (cs ! i)"
  shows "commit_claim (cs ! i) db = claimed (cl_now (cs ! i)) (cl_pubkey (cs ! i)) (cl_handle (cs ! i)) db"
proof -
  note fresh = race_inv_fresh [OF assms]
  have "pr_handle r \<noteq> Some (cl_handle (cs ! i))" if "r \<in> set (db_peers db)" for r
    using assms(1) that fresh(1) by (auto simp: race_inv_def simp flip: select_none(2))
  with fresh show ?thesis
    by (auto simp: commit_claim_def insert_handle_def set_peer_handle_def claimed_def)
qed

lemma claimed_owner:
  assumes "h \<notin> hr_handle ` set (db_handles db)"
  shows "select_owner_of g (claimed now pk h db) = (if g = h then Some pk else select_owner_of g db)"
proof -
  have "find (\<lambda>r. hr_handle r = h) (db_handles db) = None" using assms by (auto simp: find_None_iff)
  then show ?thesis by (auto simp: select_owner_of_def claimed_def find_append split: option.split)
qed

lemma nth_set_pc [simp]:
  "length (set_pc pc i cs) = length cs"
  "j < length cs \<Longrightarrow> set_pc pc i cs ! j = (if j = i then (cs ! i)\<lparr>cl_pc := pc\<rparr> else cs ! j)"
  by (simp_all add: set_pc_def nth_list_update)

lemma race_inv_pc:
  assumes inv: "race_inv (db, cs)" and i: "i < length cs"
    and w: "pc \<in> {CInserted, CUpdated} \<Longrightarrow> wrote (cs ! i) \<or>
      (cl_handle (cs ! i) \<notin> hr_handle ` set (db_handles db) \<and> cl_pubkey (cs ! i) \<in> pr_pubkey ` set (db_peers db) \<and>
       (\<forall>j < length cs. j \<noteq> i \<longrightarrow> wrote (cs ! j) \<longrightarrow> cl_handle (cs ! j) \<noteq> cl_handle (cs ! i)))"
    and d: "pc = CDone (Inr ()) \<Longrightarrow> select_owner_of (cl_handle (cs ! i)) db = Some (cl_pubkey (cs ! i))"
  shows "race_inv (db, set_pc pc i cs)"
proof -
  have "wrote ((cs ! i)\<lparr>cl_pc := pc\<rparr>) \<Longrightarrow> cl_handle (cs ! i) \<notin> hr_handle ` set (db_handles db) \<and>
      cl_pubkey (cs ! i) \<in> pr_pubkey ` set (db_peers db) \<and>
      (\<forall>j < length cs. j \<noteq> i \<longrightarrow> wrote (cs ! j) \<longrightarrow> cl_handle (cs ! j) \<noteq> cl_handle (cs ! i))"
    using w inv i unfolding race_inv_def by (simp add: wrote_def [of "(cs ! i)\<lparr>cl_pc := pc\<rparr>"]) metis
  with inv i d show ?thesis unfolding race_inv_def by (simp add: eq_commute [of "cl_handle (cs ! i)"])
qed

lemma claimed_peer_handle:
  assumes inv: "race_inv (db, cs)" and new: "h \<notin> hr_handle ` set (db_handles db)"
    and q: "q \<in> set (db_peers (claimed now pk h db))" and g: "pr_handle q = Some g"
  shows "select_owner_of g (claimed now pk h db) = Some (pr_pubkey q)"
proof -
  from q obtain r where r: "r \<in> set (db_peers db)" "q = (if pr_pubkey r = pk then r\<lparr>pr_handle := Some h\<rparr> else r)"
    by (auto simp: claimed_def)
  show ?thesis
  proof (cases "pr_pubkey r = pk")
    case False
    with r g have "select_owner_of g db = Some (pr_pubkey q)" using inv by (auto simp: race_inv_def)
    moreover from this new have "g \<noteq> h" by (auto simp flip: select_none(2))
    ultimately show ?thesis by (simp add: claimed_owner [OF new])
  qed (use r g new in \<open>auto simp: claimed_owner\<close>)
qed

lemma claimed_keys:
  "hr_handle ` set (db_handles (claimed now pk h db)) = insert h (hr_handle ` set (db_handles db))"
  "pr_pubkey ` set (db_peers (claimed now pk h db)) = pr_pubkey ` set (db_peers db)"
proof -
  have "map pr_pubkey (db_peers (claimed now pk h db)) = map pr_pubkey (db_peers db)" by (simp add: claimed_def)
  then show "pr_pubkey ` set (db_peers (claimed now pk h db)) = pr_pubkey ` set (db_peers db)" by (metis set_map)
qed (simp add: claimed_def)

lemma race_inv_commit:
  assumes inv: "race_inv (db, cs)" and i: "i < length cs" and w: "wrote (cs ! i)"
  shows "race_inv (commit_claim (cs ! i) db, set_pc (CDone r) i cs)"
proof -
  let ?c = "cs ! i" and ?db = "claimed (cl_now (cs ! i)) (cl_pubkey (cs ! i)) (cl_handle (cs ! i)) db"
  note new = race_inv_fresh(1) [OF assms]
  note own = claimed_owner [OF new]
  have "distinct (map hr_handle (db_handles ?db))" using inv new by (auto simp: claimed_def race_inv_def)
  moreover have "\<forall>q \<in> set (db_peers ?db). \<forall>h. pr_handle q = Some h \<longrightarrow> select_owner_of h ?db = Some (pr_pubkey q)"
    using claimed_peer_handle [OF inv new] by blast
  moreover have "cl_handle (cs ! j) \<notin> hr_handle ` set (db_handles ?db)" "cl_pubkey (cs ! j) \<in> pr_pubkey ` set (db_peers ?db)"
    if j: "j < length cs" "j \<noteq> i" "wrote (cs ! j)" for j
  proof -
    have "cl_handle (cs ! j) \<noteq> cl_handle ?c" using inv i w j by (simp add: race_inv_def)
    then show "cl_handle (cs ! j) \<notin> hr_handle ` set (db_handles ?db)" "cl_pubkey (cs ! j) \<in> pr_pubkey ` set (db_peers ?db)"
      using race_inv_fresh [OF inv j(1) j(3)] by (simp_all add: claimed_keys)
  qed
  moreover have "select_owner_of (cl_handle (cs ! j)) ?db = Some (cl_pubkey (cs ! j))"
    if "j < length cs" "j \<noteq> i" "cl_pc (cs ! j) = CDone (Inr ())" for j
    using inv that new by (auto simp: own race_inv_def simp flip: select_none(2))
  moreover have "select_owner_of (cl_handle ?c) ?db = Some (cl_pubkey ?c)" by (simp add: own)
  ultimately show ?thesis using inv
    unfolding commit_claim_effect [OF assms] race_inv_def by (simp add: wrote_def [of "?c\<lparr>cl_pc := CDone r\<rparr>"])
qed

lemma race_inv_others:
  assumes "race_inv (db, cs)" and "handles_kept db db'"
  shows "race_inv (db', cs)"
  using assms unfolding race_inv_def handles_kept_def select_owner_of_def by (auto 0 3)

lemma owner_of_handle:
  "distinct (map hr_handle (db_handles db)) \<Longrightarrow> select_handle_of pk db = Some h \<Longrightarrow> select_owner_of h db = Some pk"
  using find_key [of hr_handle "db_handles db"] by (auto simp: select_handle_of_def select_owner_of_def dest!: find_SomeD)

lemma claim_next_inv:
  assumes inv: "race_inv (db, cs)" and i: "i < length cs" and free: "\<not> blocked i cs" and step: "claim_next cr (cs ! i) db = (pc, db')"
  shows "race_inv (db', set_pc pc i cs)"
proof (cases "cl_pc (cs ! i)")
  case CBegin
  have "distinct (map hr_handle (db_handles db))" using inv by (simp add: race_inv_def)
  with step CBegin inv i show ?thesis
    by (auto simp: claim_next_def owner_of_handle split: option.splits if_splits intro!: race_inv_pc)
next
  case CFree
  then have "cl_handle (cs ! j) \<noteq> cl_handle (cs ! i)" if "j < length cs" "j \<noteq> i" "wrote (cs ! j)" for j
    using free that by (auto simp: blocked_def holds_up_def list_ex_iff)
  with step CFree inv i show ?thesis
    by (auto simp: claim_next_def insert_handle_def split: if_splits intro!: race_inv_pc)
next
  case CInserted
  with step inv i show ?thesis
    by (auto simp: claim_next_def wrote_def split: sum.splits intro!: race_inv_pc)
next
  case CUpdated
  with step race_inv_commit [OF inv i, of "Inr ()"] show ?thesis by (auto simp: claim_next_def wrote_def)
next
  case (CDone r)
  with step inv i show ?thesis by (auto simp: claim_next_def race_inv_def intro!: race_inv_pc)
qed (use step inv i in \<open>auto simp: claim_next_def split: if_splits intro!: race_inv_pc\<close>)

lemma claim_step_inv: "claim_step cr st st' \<Longrightarrow> race_inv st \<Longrightarrow> race_inv st'"
proof (induction rule: claim_step.induct)
  case (lost i cs db e)
  then show ?case by (intro race_inv_pc) simp_all
next
  case (unacked i cs db e)
  then show ?case by (intro race_inv_commit) (simp_all add: wrote_def)
qed (auto intro: claim_next_inv race_inv_others)

interpretation claims: transition_system "claim_step cr" race_inv for cr
  by unfold_locales (rule claim_step_inv)

text \<open>Whose claim it is and for what never changes.\<close>

definition claim_ids :: "claiming list \<Rightarrow> (string \<times> string) list" where
  "claim_ids cs = map (\<lambda>c. (cl_pubkey c, cl_handle c)) cs"

lemma claim_ids_set_pc [simp]: "claim_ids (set_pc pc i cs) = claim_ids cs"
  by (cases "i < length cs") (simp_all add: claim_ids_def set_pc_def map_update list_update_beyond list_eq_iff_nth_eq nth_list_update)

lemma claim_ids_nth:
  assumes "claim_ids cs' = claim_ids cs" and "i < length cs"
  shows "i < length cs'" and "cl_handle (cs' ! i) = cl_handle (cs ! i)" and "cl_pubkey (cs' ! i) = cl_pubkey (cs ! i)"
  using assms by (auto simp: claim_ids_def list_eq_iff_nth_eq dest: map_eq_imp_length_eq)

lemma race_inv_acknowledged:
  assumes "race_inv (db', cs')" and "claim_ids cs' = claim_ids cs" and "i < length cs" and "cl_pc (cs' ! i) = CDone (Inr ())"
  shows "select_owner_of (cl_handle (cs ! i)) db' = Some (cl_pubkey (cs ! i))"
proof -
  note ids = claim_ids_nth [OF assms(2,3)]
  have "select_owner_of (cl_handle (cs' ! i)) db' = Some (cl_pubkey (cs' ! i))" using assms(1,4) ids(1) by (simp add: race_inv_def)
  then show ?thesis by (simp only: ids(2,3))
qed

lemma claim_step_ids: "claim_step cr st st' \<Longrightarrow> claim_ids (snd st') = claim_ids (snd st)"
  by (induction rule: claim_step.induct) simp_all

lemma race_inv_init:
  assumes "db_inv db" and "\<forall>c \<in> set cs. cl_pc c = CBegin"
  shows "race_inv (db, cs)"
proof -
  have "pr_handle r = Some h \<Longrightarrow> select_owner_of h db = Some (pr_pubkey r)" if "r \<in> set (db_peers db)" for r h
    using assms(1) that by (simp add: owner_handle) (simp add: db_inv_def handles_inv_def)
  with assms show ?thesis by (auto simp: race_inv_def db_inv_def schema_inv_def wrote_def)
qed

text \<open>
  (C13) Handles stay exclusive however claims interleave: from consistent tables, in every state that
  any number of concurrent claims can reach, with any of them cut off anywhere, no handle has two
  rows, every acknowledged claim is owned by the key that made it, so no handle is granted to two
  keys, and the \<open>peers\<close> table names no handle that its key does not own.
\<close>
theorem claims_one_owner:
  assumes "db_inv db" and "\<forall>c \<in> set cs. cl_pc c = CBegin" and "(claim_step cr)\<^sup>*\<^sup>* (db, cs) (db', cs')"
  shows "distinct (map hr_handle (db_handles db')) \<and>
    (\<forall>i < length cs. cl_pc (cs' ! i) = CDone (Inr ()) \<longrightarrow> select_owner_of (cl_handle (cs ! i)) db' = Some (cl_pubkey (cs ! i))) \<and>
    (\<forall>r \<in> set (db_peers db'). \<forall>h. pr_handle r = Some h \<longrightarrow> select_owner_of h db' = Some (pr_pubkey r))"
proof -
  have inv: "race_inv (db', cs')" using claims.reach_inv [OF assms(3)] race_inv_init [OF assms(1,2)] .
  have "claim_ids cs' = claim_ids cs"
    using claims.reach_keeps [where f = "\<lambda>st. claim_ids (snd st)", OF claim_step_ids assms(3)] by simp
  with race_inv_acknowledged [OF inv] inv show ?thesis by (auto simp: race_inv_def)
qed

section \<open>Claims of one key that do not overlap\<close>

text \<open>A key with one connection has at most one claim in progress, since its messages are handled one after the other; the claims
  of different keys overlap as they like.\<close>

definition in_progress :: "claiming \<Rightarrow> bool" where
  "in_progress c \<longleftrightarrow> cl_pc c \<in> {CNoHandle, CFree, CInserted, CUpdated}"

definition one_at_a_time :: "claiming list \<Rightarrow> bool" where
  "one_at_a_time cs \<longleftrightarrow> (\<forall>i < length cs. \<forall>j < length cs. i \<noteq> j \<and> in_progress (cs ! i) \<and> in_progress (cs ! j) \<longrightarrow>
     cl_pubkey (cs ! i) \<noteq> cl_pubkey (cs ! j))"

definition serial_step :: "crates \<Rightarrow> database \<times> claiming list \<Rightarrow> database \<times> claiming list \<Rightarrow> bool" where
  "serial_step cr st st' \<longleftrightarrow> claim_step cr st st' \<and> one_at_a_time (snd st')"

definition serial_inv :: "database \<times> claiming list \<Rightarrow> bool" where
  "serial_inv st \<longleftrightarrow> race_inv st \<and> (case st of (db, cs) \<Rightarrow>
     one_at_a_time cs \<and> distinct (map hr_pubkey (db_handles db)) \<and>
     (\<forall>i < length cs. in_progress (cs ! i) \<longrightarrow> select_handle_of (cl_pubkey (cs ! i)) db = None))"

lemma serial_inv_pc:
  assumes "serial_inv (db, cs)" and "i < length cs" and "race_inv (db, set_pc pc i cs)" and "one_at_a_time (set_pc pc i cs)"
    and "pc \<in> {CNoHandle, CFree, CInserted, CUpdated} \<Longrightarrow> in_progress (cs ! i) \<or> select_handle_of (cl_pubkey (cs ! i)) db = None"
  shows "serial_inv (db, set_pc pc i cs)"
proof -
  have "select_handle_of (cl_pubkey (set_pc pc i cs ! j)) db = None" if "j < length cs" "in_progress (set_pc pc i cs ! j)" for j
    using assms(1,2,5) that by (cases "j = i") (auto simp: serial_inv_def in_progress_def)
  with assms show ?thesis by (simp add: serial_inv_def)
qed

lemma serial_inv_commit:
  assumes inv: "serial_inv (db, cs)" and i: "i < length cs" and pc: "cl_pc (cs ! i) = CUpdated" and one: "one_at_a_time (set_pc (CDone r) i cs)"
  shows "serial_inv (commit_claim (cs ! i) db, set_pc (CDone r) i cs)"
proof -
  let ?c = "cs ! i"
  have race: "race_inv (db, cs)" and w: "wrote ?c" using inv pc by (simp_all add: serial_inv_def wrote_def)
  have p: "in_progress ?c" using pc by (simp add: in_progress_def)
  then have new: "cl_pubkey ?c \<notin> hr_pubkey ` set (db_handles db)" using inv i by (simp add: serial_inv_def select_none)
  have "select_handle_of (cl_pubkey (cs ! j)) (commit_claim ?c db) = None" if "j < length cs" "j \<noteq> i" "in_progress (cs ! j)" for j
  proof -
    have "cl_pubkey (cs ! j) \<noteq> cl_pubkey ?c" using inv i p that by (simp add: serial_inv_def one_at_a_time_def)
    then show ?thesis using inv that(1,3) by (simp add: commit_claim_effect [OF race i w] claimed_handle_of [OF new] serial_inv_def)
  qed
  moreover have "\<not> in_progress (?c\<lparr>cl_pc := CDone r\<rparr>)" by (simp add: in_progress_def)
  moreover have "distinct (map hr_pubkey (db_handles (commit_claim ?c db)))"
    using inv new by (simp add: commit_claim_effect [OF race i w] claimed_def serial_inv_def)
  ultimately show ?thesis using race_inv_commit [OF race i w] one by (simp add: serial_inv_def)
qed

lemma claim_next_serial:
  assumes inv: "serial_inv (db, cs)" and i: "i < length cs" and free: "\<not> blocked i cs"
    and step: "claim_next cr (cs ! i) db = (pc, db')" and one: "one_at_a_time (set_pc pc i cs)"
  shows "serial_inv (db', set_pc pc i cs)"
proof (cases "cl_pc (cs ! i) = CUpdated")
  case True
  with step serial_inv_commit [OF inv i] one show ?thesis by (auto simp: claim_next_def)
next
  case False
  with step have db: "db' = db" by (auto simp: claim_next_def split: claim_pc.splits option.splits)
  have "race_inv (db, set_pc pc i cs)" using claim_next_inv [OF _ i free step] inv db by (simp add: serial_inv_def)
  then show ?thesis unfolding db
    using step by (intro serial_inv_pc [OF inv i _ one]) (auto simp: claim_next_def in_progress_def split: claim_pc.splits option.splits if_splits)
qed

lemma serial_step_inv: "claim_step cr st st' \<Longrightarrow> one_at_a_time (snd st') \<Longrightarrow> serial_inv st \<Longrightarrow> serial_inv st'"
proof (induction rule: claim_step.induct)
  case (run i cs db pc db')
  then show ?case by (intro claim_next_serial) simp_all
next
  case (lost i cs db e)
  then have "race_inv (db, set_pc (CDone (Inl (Database e))) i cs)"
    using claim_step_inv [OF claim_step.lost [OF lost(1,2)]] by (simp add: serial_inv_def)
  with lost show ?case by (intro serial_inv_pc) simp_all
next
  case (unacked i cs db e)
  then show ?case by (intro serial_inv_commit) simp_all
next
  case (others db db' cs)
  then show ?case using race_inv_others by (auto simp: serial_inv_def handles_kept_def select_handle_of_def)
qed

interpretation serial: transition_system "serial_step cr" serial_inv for cr
  by unfold_locales (unfold serial_step_def, blast intro: serial_step_inv)

lemma serial_inv_init:
  assumes "db_inv db" and "\<forall>c \<in> set cs. cl_pc c = CBegin"
  shows "serial_inv (db, cs)"
proof -
  have "\<not> in_progress (cs ! i)" if "i < length cs" for i using assms(2) that by (simp add: in_progress_def)
  with assms race_inv_init [OF assms] show ?thesis by (auto simp: serial_inv_def one_at_a_time_def db_inv_def handles_inv_def)
qed

lemma serial_claims: "(serial_step cr)\<^sup>*\<^sup>* st st' \<Longrightarrow> (claim_step cr)\<^sup>*\<^sup>* st st'"
  by (erule rtranclp_mono [THEN predicate2D, rotated]) (auto simp: serial_step_def)

text \<open>
  (C12) A key keeps to one handle as long as it has one claim in progress at a time, whatever the claims of other keys do
  in between and wherever any of them is cut off: from consistent tables, in every state that is reached, no key
  owns two handles, an acknowledged claim is the one handle of its key, and \<open>peers\<close> names no other.
\<close>
theorem one_handle_per_key:
  assumes "db_inv db" and "\<forall>c \<in> set cs. cl_pc c = CBegin" and "(serial_step cr)\<^sup>*\<^sup>* (db, cs) (db', cs')"
  shows "(\<forall>h h' pk. select_owner_of h db' = Some pk \<and> select_owner_of h' db' = Some pk \<longrightarrow> h = h') \<and>
    (\<forall>i < length cs. cl_pc (cs' ! i) = CDone (Inr ()) \<longrightarrow> select_handle_of (cl_pubkey (cs ! i)) db' = Some (cl_handle (cs ! i))) \<and>
    (\<forall>r \<in> set (db_peers db'). \<forall>h. pr_handle r = Some h \<longrightarrow> select_handle_of (pr_pubkey r) db' = Some h)"
proof -
  have inv: "serial_inv (db', cs')" using serial.reach_inv [OF assms(3)] serial_inv_init [OF assms(1,2)] .
  then have d: "distinct (map hr_handle (db_handles db'))" "distinct (map hr_pubkey (db_handles db'))"
    by (simp_all add: serial_inv_def race_inv_def)
  have own: "select_owner_of h db' = Some pk \<longleftrightarrow> select_handle_of pk db' = Some h" for h pk
    using d by (simp add: owner_iff handle_of_iff)
  have ids: "claim_ids cs' = claim_ids cs"
    using claims.reach_keeps [where f = "\<lambda>st. claim_ids (snd st)", OF claim_step_ids serial_claims [OF assms(3)]] by simp
  have "select_owner_of (cl_handle (cs ! i)) db' = Some (cl_pubkey (cs ! i))" if "i < length cs" "cl_pc (cs' ! i) = CDone (Inr ())" for i
    using inv that ids by (intro race_inv_acknowledged) (simp_all add: serial_inv_def)
  moreover have "select_owner_of h db' = Some (pr_pubkey r)" if "r \<in> set (db_peers db')" "pr_handle r = Some h" for r h
    using inv that by (auto simp: serial_inv_def race_inv_def)
  ultimately show ?thesis by (auto simp: own)
qed

section \<open>Schedules\<close>

text \<open>The claims named in turn each take their next step; a blocked one stops the schedule.\<close>

fun run_claims :: "crates \<Rightarrow> nat list \<Rightarrow> database \<times> claiming list \<Rightarrow> (database \<times> claiming list) option" where
  "run_claims cr [] st = Some st"
| "run_claims cr (i # sched) (db, cs) =
     (if i < length cs \<and> \<not> blocked i cs
      then let (pc, db') = claim_next cr (cs ! i) db in run_claims cr sched (db', set_pc pc i cs)
      else None)"

lemma run_claims_reach: "run_claims cr sched st = Some st' \<Longrightarrow> (claim_step cr)\<^sup>*\<^sup>* st st'"
  by (induction cr sched st rule: run_claims.induct)
    (auto split: if_splits prod.splits intro: converse_rtranclp_into_rtranclp claim_step.run)

definition new_claim :: "int \<Rightarrow> string \<Rightarrow> string \<Rightarrow> claiming" where
  "new_claim now pk h = \<lparr>cl_pubkey = pk, cl_handle = h, cl_now = now, cl_pc = CBegin\<rparr>"

text \<open>
  The steps are the transaction: a claim that runs alone takes five steps and leaves the answer and
  the tables of \<open>claim_handle\<close>.
\<close>
theorem lone_claim_is_transaction:
  "run_claims cr [0, 0, 0, 0, 0] (db, [new_claim now pk h]) =
     (case claim_handle cr now pk h (db, []) of
        (r, db', _) \<Rightarrow> Some (db', [(new_claim now pk h)\<lparr>cl_pc := CDone r\<rparr>]))"
proof -
  have alone: "\<not> blocked 0 [c]" for c by (simp add: blocked_def)
  show ?thesis
    by (simp add: alone new_claim_def set_pc_def claim_next_def commit_claim_def claim_handle_def in_tx_def claim_body_def
        insert_handle_def set_peer_handle_def claimed_def Let_def split: option.split) blast
qed

lemma may_claim_statements:
  assumes "may_claim pk h db"
  shows "select_handle_of pk db = None" and "select_owner_of h db = None"
    and "\<exists>d. insert_handle now h pk db = Inr ((), d)" and "\<exists>d. set_peer_handle h pk db = Inr ((), d)"
    and "commit_claim \<lparr>cl_pubkey = pk, cl_handle = h, cl_now = now, cl_pc = pc\<rparr> db = claimed now pk h db"
proof -
  have "\<not> (\<exists>r' \<in> set (db_peers db). pr_pubkey r' \<noteq> pk \<and> pr_handle r' = Some h)"
    and "h \<notin> hr_handle ` set (db_handles db)" and "pk \<in> pr_pubkey ` set (db_peers db)"
    using assms by (auto simp: may_claim_def select_none)
  then show "\<exists>d. insert_handle now h pk db = Inr ((), d)" and "\<exists>d. set_peer_handle h pk db = Inr ((), d)"
    and "commit_claim \<lparr>cl_pubkey = pk, cl_handle = h, cl_now = now, cl_pc = pc\<rparr> db = claimed now pk h db"
    by (auto simp: insert_handle_def set_peer_handle_def commit_claim_def claimed_def)
qed (use assms in \<open>simp_all add: may_claim_def\<close>)

text \<open>After a claim of one handle, the statements that write another still go through.\<close>

lemma other_handle_statements:
  assumes "may_claim pk h db" and "g \<noteq> h"
  shows "\<exists>d. insert_handle now h pk (claimed now' pk g db) = Inr ((), d)" and "\<exists>d. set_peer_handle h pk (claimed now' pk g db) = Inr ((), d)"
    and "commit_claim \<lparr>cl_pubkey = pk, cl_handle = h, cl_now = now, cl_pc = pc\<rparr> (claimed now' pk g db) = claimed now pk h (claimed now' pk g db)"
proof -
  let ?db = "claimed now' pk g db"
  have "\<not> (\<exists>r' \<in> set (db_peers ?db). pr_pubkey r' \<noteq> pk \<and> pr_handle r' = Some h)"
    using assms by (auto simp: may_claim_def claimed_def)
  moreover have "h \<notin> hr_handle ` set (db_handles ?db)" and "pk \<in> pr_pubkey ` set (db_peers ?db)"
    using assms by (auto simp: may_claim_def select_none claimed_keys)
  ultimately show "\<exists>d. insert_handle now h pk ?db = Inr ((), d)" and "\<exists>d. set_peer_handle h pk ?db = Inr ((), d)"
    and "commit_claim \<lparr>cl_pubkey = pk, cl_handle = h, cl_now = now, cl_pc = pc\<rparr> ?db = claimed now pk h ?db"
    by (auto simp: insert_handle_def set_peer_handle_def commit_claim_def claimed_def [of now pk h])
qed

text \<open>
  (C18) One handle per key is not kept: two concurrent claims of one key for two free handles can both be
  acknowledged, after which the key owns both. Both check that the key has no handle before
  either writes, and no constraint of the schema stops the second.
\<close>
theorem concurrent_claims_two_handles:
  assumes "may_claim pk h1 db" and "may_claim pk h2 db" and "h1 \<noteq> h2"
  shows "\<exists>db' cs'. (claim_step cr)\<^sup>*\<^sup>* (db, [new_claim t1 pk h1, new_claim t2 pk h2]) (db', cs') \<and>
    map cl_pc cs' = [CDone (Inr ()), CDone (Inr ())] \<and> select_owner_of h1 db' = Some pk \<and> select_owner_of h2 db' = Some pk"
proof -
  note s1 = may_claim_statements [OF assms(1)] and s2 = may_claim_statements [OF assms(2)] and s3 = other_handle_statements [OF assms(2,3)]
  obtain d1 d2 d3 d4 where ins: "insert_handle t1 h1 pk db = Inr ((), d1)" "set_peer_handle h1 pk db = Inr ((), d2)"
    "insert_handle t2 h2 pk (claimed t1 pk h1 db) = Inr ((), d3)" "set_peer_handle h2 pk (claimed t1 pk h1 db) = Inr ((), d4)"
    using s1(3,4) s3(1,2) by metis
  let ?db = "claimed t2 pk h2 (claimed t1 pk h1 db)"
  have "run_claims cr [0, 1, 0, 1, 0, 0, 0, 1, 1, 1] (db, [new_claim t1 pk h1, new_claim t2 pk h2]) =
    Some (?db, map (\<lambda>c. c\<lparr>cl_pc := CDone (Inr ())\<rparr>) [new_claim t1 pk h1, new_claim t2 pk h2])"
    using assms(3) by (simp add: new_claim_def claim_next_def s1 s2 s3 ins set_pc_def blocked_def holds_up_def wrote_def)
  from run_claims_reach [OF this]
  have "(claim_step cr)\<^sup>*\<^sup>* (db, [new_claim t1 pk h1, new_claim t2 pk h2]) (?db, map (\<lambda>c. c\<lparr>cl_pc := CDone (Inr ())\<rparr>) [new_claim t1 pk h1, new_claim t2 pk h2])" .
  moreover have "select_owner_of h1 ?db = Some pk" "select_owner_of h2 ?db = Some pk"
    using assms s1(2) s2(2) by (auto simp: claimed_owner select_none claimed_keys)
  ultimately show ?thesis by (intro exI conjI) auto
qed

section \<open>Examples\<close>

lemma demo_may_claim: "h \<noteq> ''alice'' \<Longrightarrow> may_claim (demo_key CHR ''2'') h demo_db"
  by (auto simp: may_claim_def) (auto simp: demo_db_eq default_peer_row_def select_owner_of_def)

theorem concurrent_claims_two_handles_witness:
  "\<exists>db' cs'. (claim_step demo_crates)\<^sup>*\<^sup>* (demo_db, [new_claim 5 (demo_key CHR ''2'') ''bob'', new_claim 6 (demo_key CHR ''2'') ''rob'']) (db', cs') \<and>
    select_owner_of ''bob'' db' = select_owner_of ''rob'' db' \<and> select_owner_of ''bob'' db' \<noteq> None"
  using concurrent_claims_two_handles [OF demo_may_claim demo_may_claim, of "''bob''" "''rob''" demo_crates 5 6] by fastforce

theorem claims_one_owner_witness:
  "\<exists>db' cs'. db_inv demo_db \<and> (claim_step demo_crates)\<^sup>*\<^sup>* (demo_db, [new_claim 5 (demo_key CHR ''2'') ''bob'']) (db', cs') \<and>
    cl_pc (cs' ! 0) = CDone (Inr ()) \<and> select_owner_of ''bob'' db' = Some (demo_key CHR ''2'')"
proof -
  let ?c = "new_claim 5 (demo_key CHR ''2'') ''bob''" and ?db = "claimed 5 (demo_key CHR ''2'') ''bob'' demo_db"
  have "may_claim (demo_key CHR ''2'') ''bob'' demo_db" by (simp add: demo_may_claim)
  note st = may_claim_statements [OF this]
  obtain d1 d2 where "insert_handle 5 ''bob'' (demo_key CHR ''2'') demo_db = Inr ((), d1)" "set_peer_handle ''bob'' (demo_key CHR ''2'') demo_db = Inr ((), d2)"
    using st(3) [of 5] st(4) by blast
  then have "run_claims demo_crates [0, 0, 0, 0, 0] (demo_db, [?c]) = Some (?db, [?c\<lparr>cl_pc := CDone (Inr ())\<rparr>])"
    by (simp add: new_claim_def claim_next_def set_pc_def blocked_def st(5))
  from claims_one_owner [OF demo_db_inv _ run_claims_reach [OF this]] run_claims_reach [OF this]
  show ?thesis by (intro exI conjI [OF demo_db_inv]) (auto simp: new_claim_def)
qed

text \<open>A schedule that keeps the claims of a key apart.\<close>

fun run_serial :: "crates \<Rightarrow> nat list \<Rightarrow> database \<times> claiming list \<Rightarrow> (database \<times> claiming list) option" where
  "run_serial cr [] st = Some st"
| "run_serial cr (i # sched) st =
     (case run_claims cr [i] st of
        None \<Rightarrow> None
      | Some st' \<Rightarrow> if one_at_a_time (snd st') then run_serial cr sched st' else None)"

lemma run_serial_reach: "run_serial cr sched st = Some st' \<Longrightarrow> (serial_step cr)\<^sup>*\<^sup>* st st'"
proof (induction cr sched st rule: run_serial.induct)
  case (2 cr i sched st)
  then obtain st1 where st1: "run_claims cr [i] st = Some st1" "one_at_a_time (snd st1)" "(serial_step cr)\<^sup>*\<^sup>* st1 st'"
    by (auto split: option.splits if_splits)
  then have "serial_step cr st st1"
    by (cases st) (auto simp: serial_step_def split: if_splits prod.splits intro: claim_step.run)
  with st1(3) show ?case by (rule converse_rtranclp_into_rtranclp [rotated])
qed simp

theorem one_handle_per_key_witness:
  "\<exists>db' cs'. (serial_step demo_crates)\<^sup>*\<^sup>* (demo_db, [new_claim 5 (demo_key CHR ''2'') ''bob'', new_claim 6 (demo_key CHR ''2'') ''rob'']) (db', cs') \<and>
    map cl_pc cs' = [CDone (Inr ()), CDone (Inl HandleAlreadyOwned)] \<and> select_handle_of (demo_key CHR ''2'') db' = Some ''bob'' \<and>
    select_owner_of ''rob'' db' \<noteq> Some (demo_key CHR ''2'')"
proof -
  let ?k = "demo_key CHR ''2''"
  let ?cs = "[new_claim 5 ?k ''bob'', new_claim 6 ?k ''rob'']" and ?db = "claimed 5 (demo_key CHR ''2'') ''bob'' demo_db"
  let ?done = "[(new_claim 5 ?k ''bob'')\<lparr>cl_pc := CDone (Inr ())\<rparr>, (new_claim 6 ?k ''rob'')\<lparr>cl_pc := CDone (Inl HandleAlreadyOwned)\<rparr>]"
  have may: "may_claim ?k ''bob'' demo_db" by (simp add: demo_may_claim)
  note st = may_claim_statements [OF may]
  obtain d1 d2 where ins: "insert_handle 5 ''bob'' ?k demo_db = Inr ((), d1)" "set_peer_handle ''bob'' ?k demo_db = Inr ((), d2)"
    using st(3) [of 5] st(4) by blast
  have key: "select_handle_of ?k ?db = Some ''bob''" by (subst claimed_handle_of) (simp_all flip: select_none(1))
  have "run_serial demo_crates [0, 0, 0, 0, 0, 1] (demo_db, ?cs) = Some (?db, ?done)"
    by (simp add: new_claim_def claim_next_def set_pc_def blocked_def holds_up_def st ins key wrote_def one_at_a_time_def in_progress_def All_less_Suc)
  note reach = run_serial_reach [OF this]
  have "select_owner_of ''bob'' ?db = Some ?k" by (subst claimed_owner) (simp_all flip: select_none(2))
  with one_handle_per_key [OF demo_db_inv _ reach]
  have "select_handle_of ?k ?db = Some ''bob''" "select_owner_of ''rob'' ?db \<noteq> Some ?k"
    by (force simp: new_claim_def)+
  with reach show ?thesis by (intro exI [of _ ?db] exI [of _ ?done]) simp
qed

end
