(* ===== verification/Session.thy ===== *)
theory Session
  imports Demo_Server "HOL-Library.Monad_Syntax"
begin

text \<open>
  \<open>serve_socket\<close> and its loop \<open>pump_messages\<close> of \<open>src/server.rs\<close> as they are written: one task that
  runs from the first frame of a connection to its teardown. What \<open>stream.next()\<close> gives is the
  sequence \<open>frames\<close>; while the task waits for the \<open>n\<close>-th frame, the tasks of the other connections
  run, which is the sequence \<open>others n\<close> of events.

  The loop may run forever, and a send to a full channel, or the wait for the writer, may never return
  (\<open>Backpressure\<close>): \<open>awaits\<close> says which of them do. The result is an option, and \<open>None\<close> means that the task does
  not return.

  The theorems say when it returns, and that a connection served this way is, event for event, the
  behaviour of \<open>server_step\<close>.
\<close>

type_synonym frames = "nat \<Rightarrow> stream_item \<times> tick"

type_synonym others = "nat \<Rightarrow> event list"

text \<open>Whether the sends made for the \<open>n\<close>-th frame return (for frame 0, those of the registration or of its refusal), those of
  the broadcast at the end, and \<open>writer.await\<close>.\<close>

record awaits =
  aw_handled :: "nat \<Rightarrow> bool"
  aw_broadcast :: bool
  aw_writer :: bool

partial_function (option) pump_messages ::
  "crates \<Rightarrow> awaits \<Rightarrow> others \<Rightarrow> frames \<Rightarrow> string \<Rightarrow> chan_id \<Rightarrow> nat \<Rightarrow> server \<Rightarrow> (nat \<times> server) option" where
  "pump_messages cr aw others frames pubkey tx n s =
     (let s0 = foldl (server_step cr) s (others n); (go, b) = pump_item cr (snd (frames n)) pubkey tx (fst (frames n)) (srv_broker s0)
      in if \<not> go then Some (n, s0\<lparr>srv_broker := b\<rparr>)
         else if aw_handled aw n then pump_messages cr aw others frames pubkey tx (Suc n) (s0\<lparr>srv_broker := b\<rparr>)
         else None)"

text \<open>Only a registration whose signature does not verify waits for the writer before it returns.\<close>

definition serve_socket :: "crates \<Rightarrow> awaits \<Rightarrow> others \<Rightarrow> frames \<Rightarrow> socket_addr \<Rightarrow> chan_id \<Rightarrow> server \<Rightarrow> (unit result \<times> server) option" where
  "serve_socket cr aw others frames addr tx s =
     (case serve_start cr (snd (frames 0)) addr tx (fst (frames 0)) (open_channel tx (srv_broker s)) of
        (Inl e, b) \<Rightarrow>
          if aw_handled aw 0 \<and> (e = SignatureVerifyFailed \<longrightarrow> aw_writer aw)
          then Some (Inl e, s\<lparr>srv_broker := close_channel tx b\<rparr>) else None
      | (Inr pubkey, b) \<Rightarrow>
          if aw_handled aw 0
          then do { (n, s') \<leftarrow> pump_messages cr aw others frames pubkey tx 1
                      (s\<lparr>srv_broker := b, srv_conns := dm_insert tx pubkey (srv_conns s)\<rparr>);
                    if aw_broadcast aw \<and> aw_writer aw
                    then Some (Inr (), s'\<lparr>srv_broker := close_channel tx (serve_end pubkey (srv_broker s')),
                                         srv_conns := dm_remove tx (srv_conns s')\<rparr>)
                    else None }
          else None)"

section \<open>When the loop returns\<close>

text \<open>The items that end the message loop.\<close>

definition closing :: "stream_item \<Rightarrow> bool" where
  "closing item \<longleftrightarrow> item \<in> {Frame CloseFrame, StreamError, EndOfStream}"

lemma pump_item_go: "fst (pump_item cr tk pk tx item b) \<longleftrightarrow> \<not> closing item"
  by (cases "(cr, tk, pk, tx, item, b)" rule: pump_item.cases) (simp_all add: closing_def)

lemma pump_item_closing: "closing item \<Longrightarrow> pump_item cr tk pk tx item b = (False, b)"
  by (auto simp: closing_def)

lemma pump_messages_unfold:
  "pump_messages cr aw others frames pk tx n s =
     (let s0 = foldl (server_step cr) s (others n)
      in if closing (fst (frames n)) then Some (n, s0)
         else if aw_handled aw n
         then pump_messages cr aw others frames pk tx (Suc n)
           (s0\<lparr>srv_broker := snd (pump_item cr (snd (frames n)) pk tx (fst (frames n)) (srv_broker s0))\<rparr>)
         else None)"
  by (subst pump_messages.simps) (simp add: Let_def split_beta pump_item_go pump_item_closing)

text \<open>From the \<open>n\<close>-th frame on, the loop gets to the \<open>k\<close>-th and that one ends it.\<close>

definition ends_after :: "awaits \<Rightarrow> frames \<Rightarrow> nat \<Rightarrow> nat \<Rightarrow> bool" where
  "ends_after aw frames n k \<longleftrightarrow>
     (\<forall>i < k. \<not> closing (fst (frames (n + i))) \<and> aw_handled aw (n + i)) \<and> closing (fst (frames (n + k)))"

lemma ends_after_0 [simp]: "ends_after aw frames n 0 \<longleftrightarrow> closing (fst (frames n))"
  by (simp add: ends_after_def)

lemma ends_after_Suc:
  "ends_after aw frames n (Suc k) \<longleftrightarrow> \<not> closing (fst (frames n)) \<and> aw_handled aw n \<and> ends_after aw frames (Suc n) k"
  by (auto simp: ends_after_def less_Suc_eq_0_disj)

text \<open>The events of one connection from its \<open>n\<close>-th frame on, with those of the others in between.\<close>

fun trace :: "others \<Rightarrow> frames \<Rightarrow> chan_id \<Rightarrow> nat \<Rightarrow> nat \<Rightarrow> event list" where
  "trace others frames tx n 0 = others n @ [Receive tx (fst (frames n)) (snd (frames n))]"
| "trace others frames tx n (Suc k) =
     others n @ [Receive tx (fst (frames n)) (snd (frames n))] @ trace others frames tx (Suc n) k"

lemma pump_messages_returns_at:
  "ends_after aw frames n k \<Longrightarrow> \<exists>s'. pump_messages cr aw others frames pk tx n s = Some (n + k, s')"
proof (induction k arbitrary: n s)
  case 0
  then show ?case by (subst pump_messages_unfold) (simp add: Let_def)
next
  case (Suc k)
  then show ?case using Suc.IH [of "Suc n"] by (subst pump_messages_unfold) (simp add: Let_def ends_after_Suc)
qed

lemma pump_messages_closing:
  assumes "pump_messages cr aw others frames pk tx n s = Some r"
  shows "\<exists>k. ends_after aw frames n k"
proof (rule pump_messages.raw_induct [where P = "\<lambda>cr aw others frames pk tx n s r. \<exists>k. ends_after aw frames n k", OF _ assms])
  fix pump cr aw others frames pk tx n s r
  assume IH: "\<And>cr aw others frames pk tx n s r. pump cr aw others frames pk tx n s = Some r \<Longrightarrow> \<exists>k. ends_after aw frames n k"
    and eq: "(let s0 = foldl (server_step cr) s (others n); (go, b) = pump_item cr (snd (frames n)) pk tx (fst (frames n)) (srv_broker s0)
      in if \<not> go then Some (n, s0\<lparr>srv_broker := b\<rparr>)
         else if aw_handled aw n then pump cr aw others frames pk tx (Suc n) (s0\<lparr>srv_broker := b\<rparr>) else None) = Some r"
  show "\<exists>k. ends_after aw frames n k"
  proof (cases "closing (fst (frames n))")
    case True
    then show ?thesis by (intro exI [of _ 0]) simp
  next
    case False
    with eq have "aw_handled aw n" "\<exists>s'. pump cr aw others frames pk tx (Suc n) s' = Some r"
      by (auto simp: Let_def split_beta pump_item_go split: if_splits)
    with IH False show ?thesis by (metis ends_after_Suc)
  qed
qed

text \<open>
  A connection is served to its end exactly when nothing that it waits for fails to come: \<open>serve_socket\<close>
  returns if and only if the sends of the first frame return and either the registration is refused, where one
  with a bad signature needs its writer to end, or the client's stream closes, errs or ends after frames whose
  sends all return, the broadcast of the teardown returns and the writer ends.
\<close>
theorem serve_socket_returns:
  "(\<exists>r. serve_socket cr aw others frames addr tx s = Some r) \<longleftrightarrow> aw_handled aw 0 \<and>
   (case fst (serve_start cr (snd (frames 0)) addr tx (fst (frames 0)) (open_channel tx (srv_broker s))) of
      Inl e \<Rightarrow> e = SignatureVerifyFailed \<longrightarrow> aw_writer aw
    | Inr _ \<Rightarrow> (\<exists>k. ends_after aw frames 1 k) \<and> aw_broadcast aw \<and> aw_writer aw)"
proof -
  obtain r b where r: "serve_start cr (snd (frames 0)) addr tx (fst (frames 0)) (open_channel tx (srv_broker s)) = (r, b)" by fastforce
  show ?thesis
  proof (cases r)
    case (Inr pk)
    let ?s = "s\<lparr>srv_broker := b, srv_conns := dm_insert tx pk (srv_conns s)\<rparr>"
    have "(\<exists>p. pump_messages cr aw others frames pk tx 1 ?s = Some p) \<longleftrightarrow> (\<exists>k. ends_after aw frames 1 k)"
      using pump_messages_closing pump_messages_returns_at by metis
    then show ?thesis
      using r Inr by (cases "pump_messages cr aw others frames pk tx 1 ?s") (auto simp: serve_socket_def split_beta split: if_splits)
  qed (use r in \<open>auto simp: serve_socket_def\<close>)
qed

section \<open>One task per connection is one event per frame\<close>

text \<open>An event of another connection, or the end of any writer.\<close>

fun foreign :: "chan_id \<Rightarrow> event \<Rightarrow> bool" where
  "foreign tx (Connect t addr item tk) \<longleftrightarrow> t \<noteq> tx"
| "foreign tx (Receive t item tk) \<longleftrightarrow> t \<noteq> tx"
| "foreign tx (WriterGone t) \<longleftrightarrow> True"

lemma foreign_step: "foreign tx e \<Longrightarrow> dm_get (srv_conns (server_step cr s e)) tx = dm_get (srv_conns s) tx"
  by (cases e) (auto split: option.split sum.split prod.split bool.split)

lemma foreign_steps: "list_all (foreign tx) es \<Longrightarrow> dm_get (srv_conns (foldl (server_step cr) s es)) tx = dm_get (srv_conns s) tx"
  by (induction es arbitrary: s) (simp_all add: foreign_step del: server_step.simps)

lemma pump_messages_trace:
  assumes "\<And>i. list_all (foreign tx) (others i)"
  shows "ends_after aw frames n k \<Longrightarrow> dm_get (srv_conns s) tx = Some pk \<Longrightarrow>
    \<exists>s'. pump_messages cr aw others frames pk tx n s = Some (n + k, s') \<and>
      foldl (server_step cr) s (trace others frames tx n k) =
        s'\<lparr>srv_broker := close_channel tx (serve_end pk (srv_broker s')), srv_conns := dm_remove tx (srv_conns s')\<rparr>"
proof (induction k arbitrary: n s)
  case 0
  then show ?case using foreign_steps [OF assms, of cr s n]
    by (subst pump_messages_unfold) (simp add: Let_def pump_item_closing)
next
  case (Suc k)
  let ?s0 = "foldl (server_step cr) s (others n)"
  have frame: "\<not> closing (fst (frames n))" "aw_handled aw n" "ends_after aw frames (Suc n) k" using Suc.prems(1) by (simp_all add: ends_after_Suc)
  obtain b where b: "pump_item cr (snd (frames n)) pk tx (fst (frames n)) (srv_broker ?s0) = (True, b)"
    using pump_item_go frame(1) by (metis prod.collapse)
  have conn: "dm_get (srv_conns ?s0) tx = Some pk" using foreign_steps [OF assms, of cr s n] Suc.prems(2) by simp
  from frame(3) conn have "\<exists>s'. pump_messages cr aw others frames pk tx (Suc n) (?s0\<lparr>srv_broker := b\<rparr>) = Some (Suc n + k, s') \<and>
      foldl (server_step cr) (?s0\<lparr>srv_broker := b\<rparr>) (trace others frames tx (Suc n) k) =
        s'\<lparr>srv_broker := close_channel tx (serve_end pk (srv_broker s')), srv_conns := dm_remove tx (srv_conns s')\<rparr>"
    by (intro Suc.IH) simp_all
  with b conn frame(1,2) show ?case by (subst pump_messages_unfold) (simp add: Let_def)
qed

lemma serve_socket_events:
  assumes "\<And>i. list_all (foreign tx) (others i)" and "serve_socket cr aw others frames addr tx s = Some (r, s')"
  shows "\<exists>es. s' = foldl (server_step cr) s (Connect tx addr (fst (frames 0)) (snd (frames 0)) # es) \<and>
    (case r of Inl e \<Rightarrow> es = [] | Inr _ \<Rightarrow> \<exists>k. es = trace others frames tx 1 k \<and> ends_after aw frames 1 k)"
proof -
  obtain q b where q: "serve_start cr (snd (frames 0)) addr tx (fst (frames 0)) (open_channel tx (srv_broker s)) = (q, b)" by fastforce
  show ?thesis
  proof (cases q)
    case (Inr pk)
    let ?s = "s\<lparr>srv_broker := b, srv_conns := dm_insert tx pk (srv_conns s)\<rparr>"
    from assms(2) q Inr obtain n t where p: "pump_messages cr aw others frames pk tx 1 ?s = Some (n, t)"
      and r: "r = Inr ()" "s' = t\<lparr>srv_broker := close_channel tx (serve_end pk (srv_broker t)), srv_conns := dm_remove tx (srv_conns t)\<rparr>"
      by (cases "pump_messages cr aw others frames pk tx 1 ?s") (auto simp: serve_socket_def split: if_splits)
    obtain k where k: "ends_after aw frames 1 k" using pump_messages_closing [OF p] by blast
    have "dm_get (srv_conns ?s) tx = Some pk" by simp
    from pump_messages_trace [where cr = cr and others = others and frames = frames and n = 1, OF assms(1) k this] p r
    have "s' = foldl (server_step cr) ?s (trace others frames tx 1 k)" by auto
    with q Inr r(1) k show ?thesis by (intro exI [of _ "trace others frames tx 1 k"]) auto
  next
    case (Inl e)
    with assms(2) q show ?thesis by (intro exI [of _ "[]"]) (auto simp: serve_socket_def split: if_splits)
  qed
qed

text \<open>
  (C14) The task of a connection is the event machine: when \<open>serve_socket\<close> returns, the state it leaves
  is the one that \<open>server_step\<close> reaches by the connection's events, one per frame it read, in
  their order and between the events of the other connections. What is proved of every history
  of events therefore holds of the program's tasks.
\<close>
theorem serve_socket_refines_events:
  assumes "\<And>i. list_all (foreign tx) (others i)" and "serve_socket cr aw others frames addr tx s = Some (r, s')"
  shows "\<exists>es. s' = foldl (server_step cr) s (Connect tx addr (fst (frames 0)) (snd (frames 0)) # es) \<and>
    (case r of Inl e \<Rightarrow> es = [] | Inr _ \<Rightarrow> \<exists>k. es = trace others frames tx 1 k \<and> closing (fst (frames (1 + k))))"
  using serve_socket_events [OF assms] by (cases r) (auto simp: ends_after_def)

text \<open>All sends return, and the writer ends.\<close>

definition all_return :: awaits where
  "all_return = \<lparr>aw_handled = (\<lambda>_. True), aw_broadcast = True, aw_writer = True\<rparr>"

theorem serve_socket_refines_events_witness:
  "\<exists>r s'. serve_socket demo_wire all_return (\<lambda>_. []) (\<lambda>n. (if n = 0 then demo_text ''r1'' else EndOfStream, demo_tick)) (V4 10 0 0 1 4000) 1
       (server_new None) = Some (r, s') \<and>
     (\<exists>es. s' = foldl (server_step demo_wire) (server_new None) (Connect 1 (V4 10 0 0 1 4000) (demo_text ''r1'') demo_tick # es))"
proof -
  let ?frames = "\<lambda>n. (if n = 0 then demo_text ''r1'' else EndOfStream, demo_tick)"
  have "\<exists>r s'. serve_socket demo_wire all_return (\<lambda>_. []) ?frames (V4 10 0 0 1 4000) 1 (server_new None) = Some (r, s')"
    by (simp add: serve_socket_def demo_starts pump_messages_unfold [where n = "Suc 0"] closing_def all_return_def)
  then obtain r s' where "serve_socket demo_wire all_return (\<lambda>_. []) ?frames (V4 10 0 0 1 4000) 1 (server_new None) = Some (r, s')" by blast
  with serve_socket_refines_events [OF _ this] show ?thesis by auto
qed

end
