(* ===== verification/Http.thy ===== *)
theory Http
  imports Startup Session
begin

text \<open>
  How a request reaches the broker (\<open>build_router\<close> and \<open>ws_upgrade\<close> of \<open>src/server.rs\<close>) and the run of
  the process from its command line to its shutdown (\<open>src/main.rs\<close>).

  The router is the table of its routes. What \<open>axum\<close> and \<open>tower_http\<close> answer by themselves, a
  request that matches no route or no method, one that is no websocket handshake, a preflight
  request, a \<open>HEAD\<close> request, is a function \<open>own\<close>, which gives that answer, and is asked first. Also arguments:
  \<open>sqlx\<close>'s connect and migrate, the binding of the listening socket, and \<open>axum::serve\<close>.
\<close>

section \<open>Routes\<close>

datatype handler = Root | Health | MetricsHandler | WsUpgrade

datatype method_router = Get handler | Any handler

definition build_router :: "(string \<times> method_router) list" where
  "build_router = [(''/'', Get Root), (''/health'', Get Health), (''/metrics'', Get MetricsHandler), (''/ws'', Any WsUpgrade)]"

record request =
  rq_method :: string
  rq_path :: string

record response =
  rs_status :: nat
  rs_headers :: "(string \<times> string) list"
  rs_body :: "u8 list"

definition ascii :: "string \<Rightarrow> u8 list" where
  "ascii s = map byte_of s"

text \<open>The plain pages; \<open>None\<close> is the handshake, after which the connection is a websocket.\<close>

fun respond :: "(metrics \<Rightarrow> u8 list) \<Rightarrow> handler \<Rightarrow> broker \<Rightarrow> response option" where
  "respond encode Root b = Some \<lparr>rs_status = 200, rs_headers = [], rs_body = ascii ''hashednetworks-broker v0.5''\<rparr>"
| "respond encode Health b = (case health b of (st, body) \<Rightarrow> Some \<lparr>rs_status = st, rs_headers = [], rs_body = ascii body\<rparr>)"
| "respond encode MetricsHandler b =
     (case metrics_handler encode b of (st, hs, body) \<Rightarrow> Some \<lparr>rs_status = st, rs_headers = hs, rs_body = body\<rparr>)"
| "respond encode WsUpgrade b = None"

fun allows :: "method_router \<Rightarrow> string \<Rightarrow> handler option" where
  "allows (Get h) method = (if method = ''GET'' then Some h else None)"
| "allows (Any h) method = Some h"

text \<open>Which answer a request gets: the framework's own, a page, or an upgrade.\<close>

datatype answer = Own response | Page response | Upgrade

definition route :: "(request \<Rightarrow> handler option \<Rightarrow> response option) \<Rightarrow> response \<Rightarrow> (metrics \<Rightarrow> u8 list) \<Rightarrow> request \<Rightarrow> broker \<Rightarrow> answer" where
  "route own unmatched encode rq b =
     (let h = (case map_of build_router (rq_path rq) of None \<Rightarrow> None | Some mr \<Rightarrow> allows mr (rq_method rq))
      in case own rq h of
           Some r \<Rightarrow> Own r
         | None \<Rightarrow> (case h of None \<Rightarrow> Own unmatched | Some h \<Rightarrow> (case respond encode h b of Some r \<Rightarrow> Page r | None \<Rightarrow> Upgrade)))"

text \<open>
  The pages are where the routes say: the only path that becomes a websocket is \<open>/ws\<close>, for any method
  that the framework does not answer itself, and the three pages are read with \<open>GET\<close>.
\<close>
theorem route_answers:
  "(route own unmatched encode rq b = Upgrade \<longleftrightarrow> rq_path rq = ''/ws'' \<and> own rq (Some WsUpgrade) = None) \<and>
   (route own unmatched encode rq b = Page r \<longleftrightarrow> (\<exists>h. rq_method rq = ''GET'' \<and> own rq (Some h) = None \<and> respond encode h b = Some r \<and>
      (rq_path rq, h) \<in> {(''/'', Root), (''/health'', Health), (''/metrics'', MetricsHandler)}))"
  by (auto simp: route_def build_router_def Let_def health_def metrics_handler_def split: option.splits if_splits)

section \<open>The websocket and its limit\<close>

definition max_message_size :: nat where
  "max_message_size = 256 * 1024"

text \<open>
  How the websocket keeps to the limit it is given is not the broker's code: \<open>enforce n\<close> is what a reader with the limit
  \<open>n\<close> makes of an item. What the broker relies on is documented of \<open>axum\<close>'s \<open>max_message_size\<close>: a message of up to
  that many bytes is read as it was sent, and a longer one is an error of the stream.
\<close>

definition ws_upgrade ::
  "crates \<Rightarrow> (nat \<Rightarrow> stream_item \<Rightarrow> stream_item) \<Rightarrow> awaits \<Rightarrow> others \<Rightarrow> frames \<Rightarrow> socket_addr \<Rightarrow> chan_id \<Rightarrow> server \<Rightarrow> server option" where
  "ws_upgrade cr enforce aw others frames addr tx s =
     map_option snd (serve_socket cr aw others (\<lambda>n. map_prod (enforce max_message_size) (\<lambda>tk. tk) (frames n)) addr tx s)"

fun item_size :: "stream_item \<Rightarrow> nat" where
  "item_size (Frame (TextFrame t)) = length t"
| "item_size (Frame (BinaryFrame bs)) = length bs"
| "item_size _ = 0"

definition ws_limits :: "(nat \<Rightarrow> stream_item \<Rightarrow> stream_item) \<Rightarrow> bool" where
  "ws_limits enforce \<longleftrightarrow> (\<forall>n item. enforce n item = (if item_size item \<le> n then item else StreamError))"

lemma trace_items:
  assumes "Receive tx item tk \<in> set (trace others frames tx n k)" and "\<And>i. list_all (foreign tx) (others i)"
  shows "\<exists>m. item = fst (frames m)"
proof -
  have "Receive tx item tk \<notin> set (others i)" for i using assms(2) [of i] by (auto simp: list_all_iff)
  then show ?thesis using assms(1) by (induction k arbitrary: n) auto
qed

lemma trace_cong:
  "(\<And>i. i \<le> k \<Longrightarrow> frames (n + i) = frames' (n + i)) \<Longrightarrow> trace others frames tx n k = trace others frames' tx n k"
proof (induction k arbitrary: n)
  case (Suc k)
  have "frames n = frames' n" using Suc.prems [of 0] by simp
  moreover have "trace others frames tx (Suc n) k = trace others frames' tx (Suc n) k"
    using Suc.IH [of "Suc n"] Suc.prems [of "Suc i" for i] by simp
  ultimately show ?case by simp
qed simp

text \<open>What a registered connection leaves when its stream ends at frame \<open>1 + k\<close> and no wait before that is in vain.\<close>

lemma serve_socket_ends_after:
  assumes "\<And>i. list_all (foreign tx) (others i)" and "ends_after aw frames 1 k"
    and "fst (serve_start cr (snd (frames 0)) addr tx (fst (frames 0)) (open_channel tx (srv_broker s))) = Inr pk"
    and "aw_handled aw 0" "aw_broadcast aw" "aw_writer aw"
  shows "\<exists>s'. serve_socket cr aw others frames addr tx s = Some (Inr (), s') \<and>
    s' = foldl (server_step cr) s (Connect tx addr (fst (frames 0)) (snd (frames 0)) # trace others frames tx 1 k) \<and>
    dm_get (srv_conns s') tx = None"
proof -
  obtain b where b: "serve_start cr (snd (frames 0)) addr tx (fst (frames 0)) (open_channel tx (srv_broker s)) = (Inr pk, b)"
    using assms(3) by (metis prod.collapse)
  let ?s = "s\<lparr>srv_broker := b, srv_conns := dm_insert tx pk (srv_conns s)\<rparr>"
  have "dm_get (srv_conns ?s) tx = Some pk" by simp
  from pump_messages_trace [where cr = cr and others = others and frames = frames and n = 1, OF assms(1,2) this]
  obtain t where "pump_messages cr aw others frames pk tx 1 ?s = Some (1 + k, t)"
    "foldl (server_step cr) ?s (trace others frames tx 1 k) =
       t\<lparr>srv_broker := close_channel tx (serve_end pk (srv_broker t)), srv_conns := dm_remove tx (srv_conns t)\<rparr>" by blast
  with b assms(4-6) show ?thesis by (auto simp: serve_socket_def)
qed

text \<open>What the websocket hands on, with the limit of the broker: items up to it as they are, and an error for longer ones.\<close>

definition limited :: "(nat \<Rightarrow> stream_item \<Rightarrow> stream_item) \<Rightarrow> frames \<Rightarrow> frames" where
  "limited enforce frames n = map_prod (enforce max_message_size) (\<lambda>tk. tk) (frames n)"

lemma limited_item:
  assumes "ws_limits enforce"
  shows "item_size (fst (frames n)) \<le> 262144 \<Longrightarrow> limited enforce frames n = frames n"
    and "262144 < item_size (fst (frames n)) \<Longrightarrow> limited enforce frames n = (StreamError, snd (frames n))"
    and "item_size (fst (limited enforce frames n)) \<le> 262144"
  using assms by (simp_all add: limited_def ws_limits_def max_message_size_def prod_eq_iff)

lemma ws_upgrade_limited:
  "ws_upgrade cr enforce aw others frames addr tx s = map_option snd (serve_socket cr aw others (limited enforce frames) addr tx s)"
  by (simp add: ws_upgrade_def limited_def [abs_def])

lemma ws_upgrade_within:
  assumes "ws_limits enforce" and "\<And>i. list_all (foreign tx) (others i)" and "ws_upgrade cr enforce aw others frames addr tx s = Some s'"
  shows "\<exists>item tk es. s' = foldl (server_step cr) s (Connect tx addr item tk # es) \<and> item_size item \<le> 262144 \<and>
    (\<forall>item tk. Receive tx item tk \<in> set es \<longrightarrow> item_size item \<le> 262144)"
proof -
  let ?frames = "limited enforce frames"
  from assms(3) obtain r where "serve_socket cr aw others ?frames addr tx s = Some (r, s')" by (auto simp: ws_upgrade_limited)
  from serve_socket_events [OF assms(2) this] obtain es where
    es: "s' = foldl (server_step cr) s (Connect tx addr (fst (?frames 0)) (snd (?frames 0)) # es)"
    "case r of Inl e \<Rightarrow> es = [] | Inr _ \<Rightarrow> \<exists>k. es = trace others ?frames tx 1 k \<and> ends_after aw ?frames 1 k" by blast
  have "item_size item \<le> 262144" if "Receive tx item tk \<in> set es" for item tk
    using es(2) that trace_items [OF _ assms(2)] limited_item(3) [OF assms(1)] by (fastforce split: sum.splits)
  with es(1) limited_item(3) [OF assms(1)] show ?thesis by blast
qed

lemma ws_upgrade_ends:
  assumes "ws_limits enforce" and "\<And>i. list_all (foreign tx) (others i)"
    and "item_size (fst (frames 0)) \<le> 262144 \<and>
      fst (serve_start cr (snd (frames 0)) addr tx (fst (frames 0)) (open_channel tx (srv_broker s))) = Inr pk \<and>
      (\<forall>i < k. item_size (fst (frames (1 + i))) \<le> 262144 \<and> \<not> closing (fst (frames (1 + i))) \<and> aw_handled aw (1 + i)) \<and>
      262144 < item_size (fst (frames (1 + k))) \<and> aw_handled aw 0 \<and> aw_broadcast aw \<and> aw_writer aw"
  shows "\<exists>s'. ws_upgrade cr enforce aw others frames addr tx s = Some s' \<and>
    s' = foldl (server_step cr) s (Connect tx addr (fst (frames 0)) (snd (frames 0)) #
           trace others (frames(1 + k := (StreamError, snd (frames (1 + k))))) tx 1 k) \<and>
    dm_get (srv_conns s') tx = None"
proof -
  let ?frames = "limited enforce frames"
  note small = limited_item(1) [OF assms(1)]
  have mid: "item_size (fst (frames (1 + i))) \<le> 262144 \<and> \<not> closing (fst (frames (1 + i))) \<and> aw_handled aw (1 + i)" if "i < k" for i
    using assms(3) that by blast
  have last: "?frames (1 + k) = (StreamError, snd (frames (1 + k)))" and first: "?frames 0 = frames 0"
    using assms(3) limited_item(2) [OF assms(1)] small by blast+
  have ends: "ends_after aw ?frames 1 k" unfolding ends_after_def using mid small last by (simp add: closing_def)
  have "fst (serve_start cr (snd (?frames 0)) addr tx (fst (?frames 0)) (open_channel tx (srv_broker s))) = Inr pk"
    "aw_handled aw 0" "aw_broadcast aw" "aw_writer aw" using assms(3) unfolding first by blast+
  from serve_socket_ends_after [where others = others, OF assms(2) ends this]
  obtain s' where s': "serve_socket cr aw others ?frames addr tx s = Some (Inr (), s')"
    "s' = foldl (server_step cr) s (Connect tx addr (fst (?frames 0)) (snd (?frames 0)) # trace others ?frames tx 1 k)"
    "dm_get (srv_conns s') tx = None" by blast
  have "trace others ?frames tx 1 k = trace others (frames(1 + k := (StreamError, snd (frames (1 + k))))) tx 1 k"
    using mid small last by (intro trace_cong) (auto simp: le_less)
  with s' first show ?thesis by (simp add: ws_upgrade_limited)
qed

text \<open>
  (C8) The limit on messages is 256 KiB, 262144 bytes, and it holds. Of a connection that comes through \<open>ws_upgrade\<close>, no
  longer message is ever handled, neither as its first nor later. And when a registered client sends a longer one, everything
  it sent before, messages of exactly the limit included, has been handled as it was sent, the connection ends
  there with the teardown of a broken stream, and nothing that it sends later is handled.
\<close>
theorem message_size_limit:
  assumes "ws_limits enforce" and "\<And>i. list_all (foreign tx) (others i)"
  shows "(\<forall>s'. ws_upgrade cr enforce aw others frames addr tx s = Some s' \<longrightarrow>
      (\<exists>item tk es. s' = foldl (server_step cr) s (Connect tx addr item tk # es) \<and> item_size item \<le> 262144 \<and>
         (\<forall>item tk. Receive tx item tk \<in> set es \<longrightarrow> item_size item \<le> 262144))) \<and>
    (\<forall>k pk. item_size (fst (frames 0)) \<le> 262144 \<and>
      fst (serve_start cr (snd (frames 0)) addr tx (fst (frames 0)) (open_channel tx (srv_broker s))) = Inr pk \<and>
      (\<forall>i < k. item_size (fst (frames (1 + i))) \<le> 262144 \<and> \<not> closing (fst (frames (1 + i))) \<and> aw_handled aw (1 + i)) \<and>
      262144 < item_size (fst (frames (1 + k))) \<and> aw_handled aw 0 \<and> aw_broadcast aw \<and> aw_writer aw \<longrightarrow>
      (\<exists>s'. ws_upgrade cr enforce aw others frames addr tx s = Some s' \<and>
        s' = foldl (server_step cr) s (Connect tx addr (fst (frames 0)) (snd (frames 0)) #
               trace others (frames(1 + k := (StreamError, snd (frames (1 + k))))) tx 1 k) \<and>
        dm_get (srv_conns s') tx = None))"
  by (rule conjI, intro allI impI, erule ws_upgrade_within [where others = others, OF assms],
      intro allI impI, erule ws_upgrade_ends [where others = others, OF assms])

theorem message_size_limit_witness:
  "\<exists>s'. ws_upgrade demo_wire (\<lambda>n item. if item_size item \<le> n then item else StreamError) all_return (\<lambda>_. [])
       (\<lambda>n. (if n = 0 then demo_text ''r1'' else Frame (BinaryFrame (replicate 262145 0)), demo_tick)) (V4 10 0 0 1 4000) 1 (server_new None) = Some s' \<and>
     s' = foldl (server_step demo_wire) (server_new None)
       [Connect 1 (V4 10 0 0 1 4000) (demo_text ''r1'') demo_tick, Receive 1 StreamError demo_tick] \<and>
     dm_get (srv_conns s') 1 = None"
proof -
  let ?enforce = "\<lambda>n item. if item_size item \<le> n then item else StreamError"
  let ?frames = "\<lambda>n::nat. (if n = 0 then demo_text ''r1'' else Frame (BinaryFrame (replicate 262145 0)), demo_tick)"
  have "ws_limits ?enforce" by (simp add: ws_limits_def)
  from message_size_limit [where enforce = ?enforce and tx = 1 and others = "\<lambda>_. []", OF this, where frames = ?frames and cr = demo_wire
      and addr = "V4 10 0 0 1 4000" and s = "server_new None" and aw = all_return, THEN conjunct2, THEN spec [of _ 0]]
  show ?thesis by (simp add: demo_starts all_return_def del: server_step.simps)
qed

section \<open>The process\<close>

record cli =
  cli_bind :: string
  cli_database_url :: string

text \<open>An argument of the command line, else the environment, else the default.\<close>

definition arg :: "string option \<Rightarrow> string option \<Rightarrow> string \<Rightarrow> string" where
  "arg given env default_value = (case given of Some v \<Rightarrow> v | None \<Rightarrow> (case env of Some v \<Rightarrow> v | None \<Rightarrow> default_value))"

definition cli_parse :: "(string \<rightharpoonup> string) \<Rightarrow> (string \<rightharpoonup> string) \<Rightarrow> cli" where
  "cli_parse args env =
     \<lparr>cli_bind = arg (args ''bind'') (env ''BIND_ADDR'') ''0.0.0.0:8080'',
      cli_database_url = arg (args ''database-url'') (env ''DATABASE_URL'') []\<rparr>"

text \<open>\<open>select!\<close> over the two signals, each given by when it comes, if ever.\<close>

definition shutdown_signal :: "nat option \<Rightarrow> nat option \<Rightarrow> nat option" where
  "shutdown_signal ctrl_c terminate =
     (case (ctrl_c, terminate) of (Some a, Some b) \<Rightarrow> Some (min a b) | (Some a, None) \<Rightarrow> Some a | (None, b) \<Rightarrow> b)"

definition main :: "(string \<Rightarrow> string + dbs) \<Rightarrow> (dbs \<Rightarrow> string + dbs) \<Rightarrow> (string \<Rightarrow> string + 'l) \<Rightarrow> ('l \<Rightarrow> server \<Rightarrow> nat option \<Rightarrow> string + unit)
    \<Rightarrow> nat option \<Rightarrow> nat option \<Rightarrow> cli \<Rightarrow> string + unit" where
  "main sqlx_connect sqlx_migrate tcp_bind axum_serve ctrl_c terminate cli =
     (case start sqlx_connect sqlx_migrate (cli_database_url cli) of
        Inl e \<Rightarrow> Inl (error_to_string e)
      | Inr state \<Rightarrow>
          (case tcp_bind (cli_bind cli) of
             Inl e \<Rightarrow> Inl e
           | Inr listener \<Rightarrow> axum_serve listener state (shutdown_signal ctrl_c terminate)))"

text \<open>Started without arguments or environment, the broker serves on port 8080 and has no database; with a
  database it serves only once that is connected and migrated, and otherwise says why it stops.\<close>

theorem main_default:
  "main c mig tcp serve ctrl_c term (cli_parse Map.empty Map.empty) =
     (case tcp ''0.0.0.0:8080'' of Inl e \<Rightarrow> Inl e | Inr l \<Rightarrow> serve l (server_new None) (shutdown_signal ctrl_c term))"
  by (simp add: main_def cli_parse_def arg_def start_def)

theorem main_database:
  assumes "cli_database_url cl \<noteq> []"
  shows "main c mig tcp serve ctrl_c term cl =
    (case c (cli_database_url cl) of
       Inl e \<Rightarrow> Inl (error_to_string (Database e))
     | Inr pool \<Rightarrow> (case mig pool of
           Inl e \<Rightarrow> Inl (error_to_string (Internal (''migration: '' @ e)))
         | Inr pool' \<Rightarrow> (case tcp (cli_bind cl) of Inl e \<Rightarrow> Inl e | Inr l \<Rightarrow> serve l (server_new (Some pool')) (shutdown_signal ctrl_c term))))"
  using assms by (simp add: main_def start_def connect_def run_migrations_def map_err_def split: sum.split)

end
