(* ===== verification/Utf8.thy ===== *)
theory Utf8
  imports Server
begin

text \<open>
  What \<open>String::from_utf8_lossy\<close> promises, against a reference definition of UTF-8: the concatenation of
  the encodings of Unicode scalar values. A \<open>String\<close> of the program is therefore always well-formed, and
  the broker of \<open>src/server.rs\<close> treats a binary frame as the text it holds, in the first frame of a connection and in every later one.
\<close>

section \<open>Encoding a scalar value\<close>

definition scalar :: "nat \<Rightarrow> bool" where
  "scalar c \<longleftrightarrow> c < 0xD800 \<or> 0xE000 \<le> c \<and> c < 0x110000"

definition utf8_code :: "nat \<Rightarrow> nat list" where
  "utf8_code c =
     (if c < 0x80 then [c]
      else if c < 0x800 then [0xC0 + c div 64, 0x80 + c mod 64]
      else if c < 0x10000 then [0xE0 + c div 64 div 64, 0x80 + c div 64 mod 64, 0x80 + c mod 64]
      else [0xF0 + c div 64 div 64 div 64, 0x80 + c div 64 div 64 mod 64, 0x80 + c div 64 mod 64, 0x80 + c mod 64])"

definition utf8_encode :: "nat \<Rightarrow> u8 list" where
  "utf8_encode c = map of_nat (utf8_code c)"

definition valid_utf8 :: "u8 list \<Rightarrow> bool" where
  "valid_utf8 bs \<longleftrightarrow> (\<exists>cs. (\<forall>c \<in> set cs. scalar c) \<and> bs = concat (map utf8_encode cs))"

lemma valid_utf8_Nil [simp]: "valid_utf8 []"
  unfolding valid_utf8_def by (intro exI [of _ "[]"]) simp

lemma valid_utf8_append: "valid_utf8 xs \<Longrightarrow> valid_utf8 ys \<Longrightarrow> valid_utf8 (xs @ ys)"
  unfolding valid_utf8_def by (metis concat_append map_append Un_iff set_append)

lemma valid_utf8_encode: "scalar c \<Longrightarrow> valid_utf8 (utf8_encode c)"
  unfolding valid_utf8_def by (intro exI [of _ "[c]"]) simp

section \<open>What a step accepts\<close>

lemmas byte_nat = word_le_nat_alt word_less_nat_alt word_unat_eq_iff

lemma cont_byte_nat: "cont_byte b \<longleftrightarrow> 128 \<le> unat b \<and> unat b \<le> 191"
  by (simp add: cont_byte_def byte_nat)

lemma lead_byte_nat:
  "lead_byte b =
     (let n = unat b in
      if 0xC2 \<le> n \<and> n \<le> 0xDF then Some (2, 0x80, 0xBF)
      else if n = 0xE0 then Some (3, 0xA0, 0xBF)
      else if 0xE1 \<le> n \<and> n \<le> 0xEC then Some (3, 0x80, 0xBF)
      else if n = 0xED then Some (3, 0x80, 0x9F)
      else if 0xEE \<le> n \<and> n \<le> 0xEF then Some (3, 0x80, 0xBF)
      else if n = 0xF0 then Some (4, 0x90, 0xBF)
      else if 0xF1 \<le> n \<and> n \<le> 0xF3 then Some (4, 0x80, 0xBF)
      else if n = 0xF4 then Some (4, 0x80, 0x8F)
      else None)"
  by (simp add: lead_byte_def byte_nat Let_def)

lemma utf8_encode_eq: "utf8_encode c = bs \<longleftrightarrow> length bs = length (utf8_code c) \<and> (\<forall>i < length bs. (of_nat (utf8_code c ! i) :: u8) = bs ! i)"
  by (auto simp: utf8_encode_def list_eq_iff_nth_eq)

text \<open>The code of a scalar value from its six-bit groups.\<close>

lemma utf8_code_groups:
  assumes "x < 64" "y < 64" "z < 64"
  shows "0x80 \<le> a * 64 + x \<Longrightarrow> a < 32 \<Longrightarrow> utf8_code (a * 64 + x) = [0xC0 + a, 0x80 + x]"
    and "0x800 \<le> (a * 64 + x) * 64 + y \<Longrightarrow> a < 16 \<Longrightarrow> utf8_code ((a * 64 + x) * 64 + y) = [0xE0 + a, 0x80 + x, 0x80 + y]"
    and "0x10000 \<le> ((a * 64 + x) * 64 + y) * 64 + z \<Longrightarrow>
      utf8_code (((a * 64 + x) * 64 + y) * 64 + z) = [0xF0 + a, 0x80 + x, 0x80 + y, 0x80 + z]"
proof -
  have d: "(k * 64 + x) div 64 = k" "(k * 64 + x) mod 64 = x" "(k * 64 + y) div 64 = k" "(k * 64 + y) mod 64 = y"
    "(k * 64 + z) div 64 = k" "(k * 64 + z) mod 64 = z" for k using assms by simp_all
  show "utf8_code (a * 64 + x) = [0xC0 + a, 0x80 + x]" if "0x80 \<le> a * 64 + x" "a < 32"
    using that assms unfolding utf8_code_def d by simp
  show "utf8_code ((a * 64 + x) * 64 + y) = [0xE0 + a, 0x80 + x, 0x80 + y]" if "0x800 \<le> (a * 64 + x) * 64 + y" "a < 16"
    using that assms unfolding utf8_code_def d by simp
  show "utf8_code (((a * 64 + x) * 64 + y) * 64 + z) = [0xF0 + a, 0x80 + x, 0x80 + y, 0x80 + z]"
    if "0x10000 \<le> ((a * 64 + x) * 64 + y) * 64 + z"
    using that assms unfolding utf8_code_def d by simp
qed

lemma of_nat_bytes:
  "(of_nat (unat b) :: u8) = b" "k \<le> unat b \<Longrightarrow> (of_nat (k + (unat b - k)) :: u8) = b"
  by simp_all

lemma scalar_groups:
  fixes a x y z :: nat
  assumes "x < 64" "y < 64" "z < 64"
  shows "a \<le> 15 \<Longrightarrow> a = 13 \<longrightarrow> x < 32 \<Longrightarrow> scalar ((a * 64 + x) * 64 + y)"
    and "a \<le> 4 \<Longrightarrow> a = 0 \<longrightarrow> 16 \<le> x \<Longrightarrow> a = 4 \<longrightarrow> x < 16 \<Longrightarrow>
      0x10000 \<le> ((a * 64 + x) * 64 + y) * 64 + z \<and> scalar (((a * 64 + x) * 64 + y) * 64 + z)"
proof -
  show "scalar ((a * 64 + x) * 64 + y)" if "a \<le> 15" "a = 13 \<longrightarrow> x < 32"
  proof (cases "a < 14")
    case True
    with that assms show ?thesis by (cases "a = 13") (auto simp: scalar_def)
  qed (use that assms in \<open>auto simp: scalar_def\<close>)
  assume a: "a \<le> 4" "a = 0 \<longrightarrow> 16 \<le> x" "a = 4 \<longrightarrow> x < 16"
  then have "0x10000 \<le> ((a * 64 + x) * 64 + y) * 64 + z" by (cases "a = 0") auto
  moreover have "((a * 64 + x) * 64 + y) * 64 + z < 0x110000" using a assms by (cases "a = 4") auto
  ultimately show "0x10000 \<le> ((a * 64 + x) * 64 + y) * 64 + z \<and> scalar (((a * 64 + x) * 64 + y) * 64 + z)"
    by (simp add: scalar_def)
qed

lemma utf8_pair:
  assumes "0xC2 \<le> unat b" "unat b \<le> 0xDF" "0x80 \<le> unat b1" "unat b1 \<le> 0xBF"
  shows "\<exists>c. scalar c \<and> [b, b1] = utf8_encode c"
proof -
  let ?a = "unat b - 0xC0" and ?x = "unat b1 - 0x80"
  have "utf8_code (?a * 64 + ?x) = [0xC0 + ?a, 0x80 + ?x]" using assms by (intro utf8_code_groups(1) [where y = 0 and z = 0]) auto
  then have "utf8_encode (?a * 64 + ?x) = [b, b1]"
    using assms unfolding utf8_encode_def by (simp del: of_nat_add of_nat_diff)
  moreover have "scalar (?a * 64 + ?x)" using assms by (auto simp: scalar_def)
  ultimately show ?thesis by metis
qed

lemma utf8_triple:
  assumes "0xE0 \<le> unat b" "unat b \<le> 0xEF" "0x80 \<le> unat b1" "unat b1 \<le> 0xBF" "0x80 \<le> unat b2" "unat b2 \<le> 0xBF"
    and "unat b = 0xE0 \<longrightarrow> 0xA0 \<le> unat b1" "unat b = 0xED \<longrightarrow> unat b1 \<le> 0x9F"
  shows "\<exists>c. scalar c \<and> [b, b1, b2] = utf8_encode c"
proof -
  let ?a = "unat b - 0xE0" and ?x = "unat b1 - 0x80" and ?y = "unat b2 - 0x80"
  have "?a = 0 \<longrightarrow> 32 \<le> ?x" using assms by auto
  then have "0x800 \<le> (?a * 64 + ?x) * 64 + ?y" using assms by auto
  then have "utf8_code ((?a * 64 + ?x) * 64 + ?y) = [0xE0 + ?a, 0x80 + ?x, 0x80 + ?y]"
    using assms by (intro utf8_code_groups(2) [where z = 0]) auto
  then have "utf8_encode ((?a * 64 + ?x) * 64 + ?y) = [b, b1, b2]"
    using assms unfolding utf8_encode_def by (simp del: of_nat_add of_nat_diff)
  moreover have "scalar ((?a * 64 + ?x) * 64 + ?y)" using assms by (intro scalar_groups(1) [where z = 0]) auto
  ultimately show ?thesis by metis
qed

lemma utf8_quad:
  assumes "0xF0 \<le> unat b" "unat b \<le> 0xF4" "0x80 \<le> unat b1" "unat b1 \<le> 0xBF" "0x80 \<le> unat b2" "unat b2 \<le> 0xBF"
    "0x80 \<le> unat b3" "unat b3 \<le> 0xBF" and "unat b = 0xF0 \<longrightarrow> 0x90 \<le> unat b1" "unat b = 0xF4 \<longrightarrow> unat b1 \<le> 0x8F"
  shows "\<exists>c. scalar c \<and> [b, b1, b2, b3] = utf8_encode c"
proof -
  let ?a = "unat b - 0xF0" and ?x = "unat b1 - 0x80" and ?y = "unat b2 - 0x80" and ?z = "unat b3 - 0x80"
  have a: "?a = 0 \<longrightarrow> 16 \<le> ?x" "?a = 4 \<longrightarrow> ?x < 16" "?a \<le> 4" "?x < 64" "?y < 64" "?z < 64" using assms by auto
  note g = scalar_groups(2) [OF a(4-6) a(3,1,2)]
  with a have "utf8_code (((?a * 64 + ?x) * 64 + ?y) * 64 + ?z) = [0xF0 + ?a, 0x80 + ?x, 0x80 + ?y, 0x80 + ?z]"
    by (intro utf8_code_groups(3)) simp_all
  then have "utf8_encode (((?a * 64 + ?x) * 64 + ?y) * 64 + ?z) = [b, b1, b2, b3]"
    using assms unfolding utf8_encode_def by (simp del: of_nat_add of_nat_diff)
  moreover have "scalar (((?a * 64 + ?x) * 64 + ?y) * 64 + ?z)" using g by simp
  ultimately show ?thesis by metis
qed

lemma tail_bytes_full:
  "tail_bytes n bs = n \<longleftrightarrow> n \<le> length bs \<and> (\<forall>i < n. cont_byte (bs ! i))"
proof (induction n bs rule: tail_bytes.induct)
  case (3 n b bs)
  then show ?case by (auto simp: less_Suc_eq_0_disj)
qed auto

lemma tail_bytes_two: "cont_byte b \<Longrightarrow> cont_byte c \<Longrightarrow> tail_bytes 2 (b # c # bs) = 2"
  by (simp add: numeral_2_eq_2)

text \<open>A piece that is taken as well-formed is the encoding of a scalar value.\<close>

lemma utf8_step_sound:
  assumes "utf8_step b bs = (True, n)"
  shows "\<exists>c. scalar c \<and> take n (b # bs) = utf8_encode c"
proof (cases "unat b < 128")
  case True
  with assms have "n = 1" by (simp add: utf8_step_def byte_nat)
  moreover have "utf8_encode (unat b) = [b]" "scalar (unat b)" using True by (simp_all add: utf8_encode_def utf8_code_def scalar_def)
  ultimately show ?thesis by (intro exI [of _ "unat b"]) simp
next
  case False
  with assms obtain w lo hi b1 bs1 where lead: "lead_byte b = Some (w, lo, hi)" and bs: "bs = b1 # bs1" and b1: "lo \<le> b1" "b1 \<le> hi"
    and k: "tail_bytes (w - 2) bs1 = w - 2" and n: "n = 2 + (w - 2)"
    by (auto simp: utf8_step_def byte_nat Let_def split: option.splits list.splits if_splits)
  have w: "w = 2 \<or> w = 3 \<or> w = 4" using lead by (auto simp: lead_byte_nat Let_def split: if_splits)
  then consider "w = 2" | b2 bs2 where "w = 3" "bs1 = b2 # bs2" "cont_byte b2"
    | b2 b3 bs2 where "w = 4" "bs1 = b2 # b3 # bs2" "cont_byte b2" "cont_byte b3"
    using k unfolding tail_bytes_full
    by (cases bs1 rule: remdups_adj.cases) (auto simp: numeral_2_eq_2 less_Suc_eq all_conj_distrib)
  then show ?thesis
  proof cases
    case 1
    then have "0xC2 \<le> unat b" "unat b \<le> 0xDF" "0x80 \<le> unat b1" "unat b1 \<le> 0xBF"
      using lead b1 by (auto simp: lead_byte_nat Let_def byte_nat split: if_splits)
    from utf8_pair [OF this] show ?thesis using 1 n bs by simp
  next
    case 2
    then have "0xE0 \<le> unat b" "unat b \<le> 0xEF" "0x80 \<le> unat b1" "unat b1 \<le> 0xBF" "0x80 \<le> unat b2" "unat b2 \<le> 0xBF"
      "unat b = 0xE0 \<longrightarrow> 0xA0 \<le> unat b1" "unat b = 0xED \<longrightarrow> unat b1 \<le> 0x9F"
      using lead b1 by (auto simp: lead_byte_nat Let_def byte_nat cont_byte_nat split: if_splits)
    from utf8_triple [OF this] show ?thesis using 2 n bs by (simp add: numeral_eq_Suc)
  next
    case 3
    then have "0xF0 \<le> unat b" "unat b \<le> 0xF4" "0x80 \<le> unat b1" "unat b1 \<le> 0xBF" "0x80 \<le> unat b2" "unat b2 \<le> 0xBF"
      "0x80 \<le> unat b3" "unat b3 \<le> 0xBF" "unat b = 0xF0 \<longrightarrow> 0x90 \<le> unat b1" "unat b = 0xF4 \<longrightarrow> unat b1 \<le> 0x8F"
      using lead b1 by (auto simp: lead_byte_nat Let_def byte_nat cont_byte_nat split: if_splits)
    from utf8_quad [OF this] show ?thesis using 3 n bs by (simp add: numeral_eq_Suc)
  qed
qed

lemma unat_byte: "n < 256 \<Longrightarrow> unat (of_nat n :: u8) = n"
  by (simp add: unat_of_nat)

lemma scalar_triple:
  fixes a x y :: nat
  assumes "c = (a * 64 + y) * 64 + x" "x < 64" "y < 64" "0x800 \<le> c" "c < 0x10000" "scalar c"
  shows "a < 16 \<and> (a = 0 \<longrightarrow> 32 \<le> y) \<and> (a = 13 \<longrightarrow> y < 32)"
  using assms by (auto simp: scalar_def)

lemma scalar_quad:
  fixes a x y z :: nat
  assumes "c = ((a * 64 + z) * 64 + y) * 64 + x" "x < 64" "y < 64" "z < 64" "0x10000 \<le> c" "scalar c"
  shows "a \<le> 4 \<and> (a = 0 \<longrightarrow> 16 \<le> z) \<and> (a = 4 \<longrightarrow> z < 16)"
  using assms by (auto simp: scalar_def)

text \<open>The encoding of a scalar value is taken as a whole, whatever follows it.\<close>

lemma utf8_step_complete:
  assumes "scalar c"
  obtains b bs where "utf8_encode c = b # bs" and "\<And>rest. utf8_step b (bs @ rest) = (True, length (utf8_encode c))"
proof -
  consider "c < 0x80" | "0x80 \<le> c" "c < 0x800" | "0x800 \<le> c" "c < 0x10000" | "0x10000 \<le> c" by linarith
  then show ?thesis
  proof cases
    case 1
    then show ?thesis using unat_byte [of c]
      by (intro that [of "of_nat c" "[]"]) (simp_all add: utf8_encode_def utf8_code_def utf8_step_def byte_nat)
  next
    case 2
    then have "2 \<le> c div 64" "c div 64 < 32" by auto
    with 2 show ?thesis
      by (intro that [of "of_nat (0xC0 + c div 64)" "[of_nat (0x80 + c mod 64)]"])
        (simp_all add: utf8_encode_def utf8_code_def utf8_step_def byte_nat lead_byte_nat unat_byte Let_def del: of_nat_add)
  next
    case 3
    obtain a x y where c: "c = (a * 64 + y) * 64 + x" and m: "x < 64" "y < 64"
      by (rule that [of "c div 64 div 64" "c div 64 mod 64" "c mod 64"]) simp_all
    note g = scalar_triple [OF c m 3 assms]
    have "utf8_code c = [0xE0 + a, 0x80 + y, 0x80 + x]"
      unfolding c using g 3 c m by (intro utf8_code_groups(2) [where z = 0]) simp_all
    with g m show ?thesis
      by (intro that [of "of_nat (0xE0 + a)" "[of_nat (0x80 + y), of_nat (0x80 + x)]"])
        (auto simp: utf8_encode_def utf8_step_def byte_nat lead_byte_nat cont_byte_nat unat_byte Let_def simp del: of_nat_add)
  next
    case 4
    obtain a x y z where c: "c = ((a * 64 + z) * 64 + y) * 64 + x" and m: "x < 64" "y < 64" "z < 64"
      by (rule that [of "c div 64 div 64 div 64" "c div 64 div 64 mod 64" "c div 64 mod 64" "c mod 64"]) simp_all
    note g = scalar_quad [OF c m 4 assms]
    have "utf8_code c = [0xF0 + a, 0x80 + z, 0x80 + y, 0x80 + x]"
      unfolding c using 4 c m by (intro utf8_code_groups(3)) simp_all
    with g m show ?thesis
      by (intro that [of "of_nat (0xF0 + a)" "[of_nat (0x80 + z), of_nat (0x80 + y), of_nat (0x80 + x)]"])
        (auto simp: utf8_encode_def utf8_step_def byte_nat lead_byte_nat cont_byte_nat unat_byte Let_def tail_bytes_two simp del: of_nat_add)
  qed
qed

section \<open>The text of a binary frame\<close>

lemma replacement_valid: "map byte_of replacement = utf8_encode 0xFFFD"
  by (simp add: replacement_def utf8_encode_def utf8_code_def)

lemma from_utf8_lossy_well_formed: "valid_utf8 (map byte_of (from_utf8_lossy bs))"
proof (induction bs rule: from_utf8_lossy.induct)
  case (2 b bs)
  obtain ok n where st: "utf8_step b bs = (ok, n)" by fastforce
  have rest: "valid_utf8 (map byte_of (from_utf8_lossy (drop n (b # bs))))" using "2.IH" [of ok n] st by simp
  have "valid_utf8 (map byte_of (if ok then map char_of_byte (take n (b # bs)) else replacement))"
    using utf8_step_sound [of b bs n] st valid_utf8_encode
    by (auto simp: replacement_valid scalar_def comp_def)
  with rest show ?case by (simp add: st valid_utf8_append del: drop_Cons' take_Cons')
qed simp

lemma from_utf8_lossy_length: "length (from_utf8_lossy bs) \<le> 3 * length bs"
proof (induction bs rule: from_utf8_lossy.induct)
  case (2 b bs)
  obtain ok n where st: "utf8_step b bs = (ok, n)" by fastforce
  have "0 < n" using utf8_step_pos [of b bs] st by simp
  moreover have "length (from_utf8_lossy (drop n (b # bs))) \<le> 3 * length (drop n (b # bs))" using "2.IH" [of ok n] st by simp
  ultimately show ?case by (auto simp: st replacement_def simp del: drop_Cons' take_Cons')
qed simp

lemma from_utf8_lossy_encode: "scalar c \<Longrightarrow> from_utf8_lossy (utf8_encode c @ bs) = map char_of_byte (utf8_encode c) @ from_utf8_lossy bs"
  by (rule utf8_step_complete [of c]) (auto simp del: drop_Cons' take_Cons')

lemma from_utf8_lossy_id: "valid_utf8 bs \<Longrightarrow> map byte_of (from_utf8_lossy bs) = bs"
proof -
  have "from_utf8_lossy (concat (map utf8_encode cs)) = map char_of_byte (concat (map utf8_encode cs))" if "\<forall>c \<in> set cs. scalar c" for cs
    using that by (induction cs) (simp_all add: from_utf8_lossy_encode)
  then show "valid_utf8 bs \<Longrightarrow> map byte_of (from_utf8_lossy bs) = bs" by (auto simp: valid_utf8_def comp_def)
qed

text \<open>
  Text is kept and never invented: whatever the bytes, what is read
  from them is well-formed UTF-8; it is the bytes themselves exactly when these are well-formed; and
  it is at most three times as long.
\<close>
theorem from_utf8_lossy_correct:
  "valid_utf8 (map byte_of (from_utf8_lossy bs)) \<and>
   (map byte_of (from_utf8_lossy bs) = bs \<longleftrightarrow> valid_utf8 bs) \<and>
   length (from_utf8_lossy bs) \<le> 3 * length bs"
  using from_utf8_lossy_well_formed [of bs] from_utf8_lossy_length [of bs] from_utf8_lossy_id [of bs] by metis

section \<open>Binary frames\<close>

text \<open>An item, and an event, with its binary frame replaced by a text frame that stands for it.\<close>

fun text_item :: "stream_item \<Rightarrow> stream_item \<Rightarrow> bool" where
  "text_item (Frame (BinaryFrame bs)) item \<longleftrightarrow>
     (\<exists>t. item = Frame (TextFrame t) \<and> valid_utf8 (map byte_of t) \<and> (valid_utf8 bs \<longrightarrow> map byte_of t = bs) \<and> length t \<le> 3 * length bs)"
| "text_item item item' \<longleftrightarrow> item' = item"

fun text_event :: "event \<Rightarrow> event \<Rightarrow> bool" where
  "text_event (Connect tx addr item tk) e \<longleftrightarrow> (\<exists>item'. e = Connect tx addr item' tk \<and> text_item item item')"
| "text_event (Receive tx item tk) e \<longleftrightarrow> (\<exists>item'. e = Receive tx item' tk \<and> text_item item item')"
| "text_event (WriterGone tx) e \<longleftrightarrow> e = WriterGone tx"

fun read_item :: "stream_item \<Rightarrow> stream_item" where
  "read_item (Frame (BinaryFrame bs)) = Frame (TextFrame (from_utf8_lossy bs))"
| "read_item item = item"

lemma read_item_text: "text_item item (read_item item)"
  by (cases item rule: read_item.cases) (simp_all add: from_utf8_lossy_well_formed from_utf8_lossy_length from_utf8_lossy_id)

lemma read_item_same:
  "first_text (read_item item) = first_text item" "pump_item cr tk pk tx (read_item item) b = pump_item cr tk pk tx item b"
  by (cases item rule: read_item.cases; simp)+

lemma text_event_step: "\<exists>e'. text_event e e' \<and> server_step cr s e' = server_step cr s e"
proof (cases e)
  case (Connect tx addr item tk)
  then show ?thesis
    by (intro exI [of _ "Connect tx addr (read_item item) tk"]) (simp add: read_item_text serve_start_def read_item_same)
next
  case (Receive tx item tk)
  then show ?thesis
    by (intro exI [of _ "Receive tx (read_item item) tk"]) (simp add: read_item_text read_item_same split: option.split)
qed simp

text \<open>
  (C29) A client may send its messages as binary frames. Every history of the broker is the history
  with a text frame in the place of each binary one, registrations and later messages alike, and ends in the same
  state: the text is always well-formed, it has the bytes of the frame if these are UTF-8, and it is
  at most three times as long as they are.
\<close>
theorem binary_frames_read_as_text:
  "\<exists>es'. list_all2 text_event es es' \<and> foldl (server_step cr) s es' = foldl (server_step cr) s es"
proof (induction es arbitrary: s)
  case (Cons e es)
  obtain e' where e': "text_event e e'" "server_step cr s e' = server_step cr s e" using text_event_step by blast
  obtain es' where "list_all2 text_event es es'" "foldl (server_step cr) (server_step cr s e) es' = foldl (server_step cr) (server_step cr s e) es"
    using Cons.IH by blast
  with e' show ?case by (intro exI [of _ "e' # es'"]) (simp del: server_step.simps)
qed simp

end
