(* ===== verification/Backpressure.thy ===== *)
theory Backpressure
  imports Server
begin

text \<open>
  The bound on the channels of \<open>serve_socket\<close> in \<open>src/server.rs\<close>. A channel buffers 64 messages, a
  sender waits for room (\<open>tx.send(msg).await\<close>, in the order the senders came), and the writer task
  takes one message at a time and holds it until the socket has accepted it. When the socket fails the
  writer leaves its loop and still tries to send a \<open>Close\<close>, for as long as that takes; then it ends, which drops the buffer
  and fails the waiting senders. What the channels do is the documented behaviour of \<open>tokio::sync::mpsc\<close>. (A message that cannot be printed, which
  the writer skips, counts here as sent; \<open>Wire\<close> has the text of the frames.) Tasks are the programs of sends they
  have still to make, one after the other, as in \<open>PresenceManager::broadcast\<close>.

  The other theories use channels without a bound, where a send is one step. It is shown that
  this is what the bounded ones implement, how long a sender waits, and what happens to senders when
  a peer keeps its connection open and stops reading.
\<close>

section \<open>Bounded channels\<close>

definition CHANNEL_BOUND :: nat where
  "CHANNEL_BOUND = 64"

record bchan =
  bc_open :: bool
  bc_closing :: bool
  bc_queue :: "server_message list"
  bc_hand :: "server_message option"
  bc_sent :: "server_message list"
  bc_lost :: "server_message list"
  bc_waiting :: "(nat \<times> server_message) list"

datatype linear = Sent nat chan_id server_message bool | Gone chan_id

record net =
  nt_chans :: "chan_id \<Rightarrow> bchan"
  nt_prog :: "nat \<Rightarrow> (chan_id \<times> server_message) list"
  nt_hist :: "linear list"

definition set_chan :: "chan_id \<Rightarrow> bchan \<Rightarrow> net \<Rightarrow> net" where
  "set_chan i c n = n\<lparr>nt_chans := (nt_chans n)(i := c)\<rparr>"

text \<open>The sends of the named tasks have returned, and the order in which things took effect.\<close>

definition advance :: "nat list \<Rightarrow> linear list \<Rightarrow> net \<Rightarrow> net" where
  "advance ts hs n = n\<lparr>nt_prog := (\<lambda>t. if t \<in> set ts then tl (nt_prog n t) else nt_prog n t), nt_hist := nt_hist n @ hs\<rparr>"

text \<open>A task calls the next send of its program.\<close>

definition send_next :: "nat \<Rightarrow> net \<Rightarrow> net" where
  "send_next t n =
     (case nt_prog n t of
        [] \<Rightarrow> n
      | (i, m) # _ \<Rightarrow>
          (let c = nt_chans n i in
           if t \<in> fst ` set (bc_waiting c) then n
           else if \<not> bc_open c then advance [t] [Sent t i m False] n
           else if length (bc_queue c) < CHANNEL_BOUND
           then advance [t] [Sent t i m True] (set_chan i (c\<lparr>bc_queue := bc_queue c @ [m]\<rparr>) n)
           else set_chan i (c\<lparr>bc_waiting := bc_waiting c @ [(t, m)]\<rparr>) n))"

text \<open>The writer: \<open>rx.recv()\<close>, after which the first waiting sender has room; the socket took the
  message; the socket failed, and the writer is at the \<open>Close\<close> while the channel goes on buffering; the writer ends.\<close>

definition writer_recv :: "chan_id \<Rightarrow> net \<Rightarrow> net" where
  "writer_recv i n =
     (let c = nt_chans n i in
      case (bc_closing c, bc_hand c, bc_queue c) of
        (False, None, m # q) \<Rightarrow>
          (case bc_waiting c of
             [] \<Rightarrow> set_chan i (c\<lparr>bc_queue := q, bc_hand := Some m\<rparr>) n
           | (t, m') # ws \<Rightarrow>
               advance [t] [Sent t i m' True]
                 (set_chan i (c\<lparr>bc_queue := q @ [m'], bc_hand := Some m, bc_waiting := ws\<rparr>) n))
      | _ \<Rightarrow> n)"

definition writer_sent :: "chan_id \<Rightarrow> net \<Rightarrow> net" where
  "writer_sent i n =
     (let c = nt_chans n i in
      case bc_hand c of None \<Rightarrow> n | Some m \<Rightarrow> set_chan i (c\<lparr>bc_hand := None, bc_sent := bc_sent c @ [m]\<rparr>) n)"

definition writer_fails :: "chan_id \<Rightarrow> net \<Rightarrow> net" where
  "writer_fails i n =
     (let c = nt_chans n i in
      case bc_hand c of
        None \<Rightarrow> n
      | Some m \<Rightarrow> set_chan i (c\<lparr>bc_closing := True, bc_hand := None, bc_lost := bc_lost c @ [m]\<rparr>) n)"

definition writer_ends :: "chan_id \<Rightarrow> net \<Rightarrow> net" where
  "writer_ends i n =
     (let c = nt_chans n i in
      if bc_closing c \<and> bc_open c
      then advance (map fst (bc_waiting c)) (Gone i # map (\<lambda>(t, m). Sent t i m False) (bc_waiting c))
             (set_chan i (c\<lparr>bc_open := False, bc_queue := [], bc_waiting := [], bc_lost := bc_lost c @ bc_queue c\<rparr>) n)
      else n)"

datatype net_event = SendNext nat | WriterRecv chan_id | WriterSent chan_id | WriterFails chan_id | WriterEnds chan_id

fun net_step :: "net \<Rightarrow> net_event \<Rightarrow> net" where
  "net_step n (SendNext t) = send_next t n"
| "net_step n (WriterRecv i) = writer_recv i n"
| "net_step n (WriterSent i) = writer_sent i n"
| "net_step n (WriterFails i) = writer_fails i n"
| "net_step n (WriterEnds i) = writer_ends i n"

definition net_new :: "channels \<Rightarrow> (nat \<Rightarrow> (chan_id \<times> server_message) list) \<Rightarrow> net" where
  "net_new cs progs =
     \<lparr>nt_chans = (\<lambda>i. \<lparr>bc_open = chan_alive cs i, bc_closing = False, bc_queue = [], bc_hand = None, bc_sent = chan_log cs i, bc_lost = [], bc_waiting = []\<rparr>),
      nt_prog = progs, nt_hist = []\<rparr>"

section \<open>What they implement\<close>

definition chan_close :: "chan_id \<Rightarrow> channels \<Rightarrow> channels" where
  "chan_close i cs = (case dm_get cs i of None \<Rightarrow> cs | Some c \<Rightarrow> dm_insert i (c\<lparr>ch_alive := False\<rparr>) cs)"

lemma chan_close_simps [simp]:
  "chan_alive (chan_close i cs) j \<longleftrightarrow> j \<noteq> i \<and> chan_alive cs j" "chan_log (chan_close i cs) j = chan_log cs j"
  by (auto simp: chan_close_def chan_alive_def chan_log_def split: option.splits)

text \<open>A history of sends and failures on the channels without a bound, and whether every send has the
  recorded result.\<close>

fun replay :: "linear list \<Rightarrow> channels \<Rightarrow> bool \<times> channels" where
  "replay [] cs = (True, cs)"
| "replay (Sent t i m ok # hs) cs =
     (case chan_send i m cs of (r, cs1) \<Rightarrow> (case replay hs cs1 of (good, cs2) \<Rightarrow> (r = ok \<and> good, cs2)))"
| "replay (Gone i # hs) cs = replay hs (chan_close i cs)"

definition accepted :: "bchan \<Rightarrow> server_message list" where
  "accepted c = bc_sent c @ bc_lost c @ (case bc_hand c of None \<Rightarrow> [] | Some m \<Rightarrow> [m]) @ bc_queue c"

fun sends_of :: "nat \<Rightarrow> linear list \<Rightarrow> (chan_id \<times> server_message) list" where
  "sends_of t [] = []"
| "sends_of t (Sent u i m ok # hs) = (if u = t then [(i, m)] else []) @ sends_of t hs"
| "sends_of t (Gone i # hs) = sends_of t hs"

text \<open>The channel's own invariant, and that a waiting task is at the send it waits for.\<close>

definition bchan_inv :: "bchan \<Rightarrow> bool" where
  "bchan_inv c \<longleftrightarrow> length (bc_queue c) \<le> CHANNEL_BOUND \<and> (bc_waiting c \<noteq> [] \<longrightarrow> length (bc_queue c) = CHANNEL_BOUND) \<and>
     (\<not> bc_open c \<longrightarrow> bc_queue c = [] \<and> bc_hand c = None) \<and> (bc_closing c \<longrightarrow> bc_hand c = None) \<and>
     (bc_open c \<and> \<not> bc_closing c \<longrightarrow> bc_lost c = []) \<and> distinct (map fst (bc_waiting c))"

definition waits_inv :: "net \<Rightarrow> bool" where
  "waits_inv n \<longleftrightarrow> (\<forall>i t m. (t, m) \<in> set (bc_waiting (nt_chans n i)) \<longrightarrow> (\<exists>rest. nt_prog n t = (i, m) # rest))"

definition refines :: "channels \<Rightarrow> (nat \<Rightarrow> (chan_id \<times> server_message) list) \<Rightarrow> net \<Rightarrow> bool" where
  "refines cs0 progs n \<longleftrightarrow>
     (\<exists>cs. replay (nt_hist n) cs0 = (True, cs) \<and>
        (\<forall>i. chan_alive cs i = bc_open (nt_chans n i) \<and> chan_log cs i = accepted (nt_chans n i))) \<and>
     (\<forall>t. progs t = sends_of t (nt_hist n) @ nt_prog n t)"

definition net_inv :: "channels \<Rightarrow> (nat \<Rightarrow> (chan_id \<times> server_message) list) \<Rightarrow> net \<Rightarrow> bool" where
  "net_inv cs0 progs n \<longleftrightarrow> (\<forall>i. bchan_inv (nt_chans n i)) \<and> waits_inv n \<and> refines cs0 progs n"

lemma replay_append:
  "replay (hs @ hs') cs = (case replay hs cs of (g, cs1) \<Rightarrow> (case replay hs' cs1 of (g', cs2) \<Rightarrow> (g \<and> g', cs2)))"
  by (induction hs cs rule: replay.induct) (auto split: prod.splits)

lemma sends_of_append [simp]: "sends_of t (hs @ hs') = sends_of t hs @ sends_of t hs'"
  by (induction hs rule: sends_of.induct) auto

lemma sends_of_waiting:
  "distinct (map fst ws) \<Longrightarrow> sends_of t (map (\<lambda>(t, m). Sent t i m ok) ws) = (case map_of ws t of None \<Rightarrow> [] | Some m \<Rightarrow> [(i, m)])"
proof (induction ws)
  case (Cons w ws)
  then have "t = fst w \<Longrightarrow> map_of ws t = None" by (simp add: map_of_eq_None_iff)
  with Cons show ?case by (cases w) auto
qed simp

lemma replay_refused: "\<not> chan_alive cs i \<Longrightarrow> replay (map (\<lambda>(t, m). Sent t i m False) ws) cs = (True, cs)"
proof (induction ws arbitrary: cs)
  case (Cons w ws)
  moreover have "chan_send i m cs = (False, cs)" for m
    using Cons.prems by (auto simp: chan_send_def chan_alive_def split: option.splits)
  ultimately show ?case by (cases w) simp
qed simp

lemma set_chan_simps [simp]:
  "nt_chans (set_chan i c n) = (nt_chans n)(i := c)" "nt_prog (set_chan i c n) = nt_prog n" "nt_hist (set_chan i c n) = nt_hist n"
  by (simp_all add: set_chan_def)

lemma advance_simps [simp]:
  "nt_chans (advance ts hs n) = nt_chans n" "nt_hist (advance ts hs n) = nt_hist n @ hs"
  "nt_prog (advance ts hs n) t = (if t \<in> set ts then tl (nt_prog n t) else nt_prog n t)"
  by (simp_all add: advance_def)

text \<open>The effects of the steps on the channels without a bound: none, one send, or the end of a receiver.\<close>

lemma refines_keep:
  assumes "refines cs0 progs n" and "bc_open c = bc_open (nt_chans n i)" and "accepted c = accepted (nt_chans n i)"
  shows "refines cs0 progs (set_chan i c n)"
  using assms unfolding refines_def by (auto simp: fun_upd_def)

lemma refines_send:
  assumes "refines cs0 progs n" and prog: "nt_prog n t = (i, m) # rest"
    and "bc_open (nt_chans n i)" and "bc_open c" and acc: "accepted c = accepted (nt_chans n i) @ [m]"
  shows "refines cs0 progs (advance [t] [Sent t i m True] (set_chan i c n))"
proof -
  from assms(1) obtain cs where cs: "replay (nt_hist n) cs0 = (True, cs)"
    "\<And>j. chan_alive cs j = bc_open (nt_chans n j)" "\<And>j. chan_log cs j = accepted (nt_chans n j)" by (auto simp: refines_def)
  obtain cs' where send: "chan_send i m cs = (True, cs')" using assms(3) cs(2) [of i] by (metis ch.send_result prod.collapse)
  then have "chan_alive cs' j = chan_alive cs j" "chan_log cs' j = (if j = i then chan_log cs j @ [m] else chan_log cs j)" for j
    using assms(3) cs(2) [of i] ch.alive_send [of i m cs j] ch.log_send [of i m cs j] by auto
  with cs send assms(3-) have "replay (nt_hist n @ [Sent t i m True]) cs0 = (True, cs') \<and>
      (\<forall>j. chan_alive cs' j = bc_open (((nt_chans n)(i := c)) j) \<and> chan_log cs' j = accepted (((nt_chans n)(i := c)) j))"
    by (auto simp: replay_append)
  moreover have "\<forall>u. progs u = sends_of u (nt_hist n @ [Sent t i m True]) @ nt_prog (advance [t] [Sent t i m True] (set_chan i c n)) u"
    using assms(1) prog by (auto simp: refines_def)
  ultimately show ?thesis unfolding refines_def by auto
qed

lemma refines_refused:
  assumes "refines cs0 progs n" and prog: "nt_prog n t = (i, m) # rest" and closed: "\<not> bc_open (nt_chans n i)"
  shows "refines cs0 progs (advance [t] [Sent t i m False] n)"
proof -
  from assms(1) obtain cs where cs: "replay (nt_hist n) cs0 = (True, cs)"
    "\<And>j. chan_alive cs j = bc_open (nt_chans n j)" "\<And>j. chan_log cs j = accepted (nt_chans n j)" by (auto simp: refines_def)
  have "replay (nt_hist n @ [Sent t i m False]) cs0 = (True, cs)"
    using cs(1) replay_refused [of cs i "[(t, m)]"] closed cs(2) by (simp add: replay_append)
  moreover have "\<forall>u. progs u = sends_of u (nt_hist n @ [Sent t i m False]) @ nt_prog (advance [t] [Sent t i m False] n) u"
    using assms(1) prog by (auto simp: refines_def)
  ultimately show ?thesis using cs(2,3) unfolding refines_def by auto
qed

lemma refines_fails:
  assumes "refines cs0 progs n" and "\<not> bc_open c" and "accepted c = accepted (nt_chans n i)"
    and "distinct (map fst ws)" and wait: "\<And>t m. (t, m) \<in> set ws \<Longrightarrow> \<exists>rest. nt_prog n t = (i, m) # rest"
  shows "refines cs0 progs (advance (map fst ws) (Gone i # map (\<lambda>(t, m). Sent t i m False) ws) (set_chan i c n))"
proof -
  let ?hs = "Gone i # map (\<lambda>(t, m). Sent t i m False) ws"
  from assms(1) obtain cs where cs: "replay (nt_hist n) cs0 = (True, cs)"
    "\<And>j. chan_alive cs j = bc_open (nt_chans n j)" "\<And>j. chan_log cs j = accepted (nt_chans n j)" by (auto simp: refines_def)
  have "replay (nt_hist n @ ?hs) cs0 = (True, chan_close i cs)"
    using cs(1) replay_refused [of "chan_close i cs" i ws] by (simp add: replay_append)
  moreover have "progs t = sends_of t (nt_hist n @ ?hs) @ nt_prog (advance (map fst ws) ?hs (set_chan i c n)) t" for t
  proof (cases "map_of ws t")
    case None
    then have "t \<notin> fst ` set ws" by (simp add: map_of_eq_None_iff)
    with None show ?thesis using assms(1) sends_of_waiting [OF assms(4), of t i False] by (auto simp: refines_def)
  next
    case (Some m)
    then have "(t, m) \<in> set ws" by (rule map_of_SomeD)
    with Some show ?thesis using assms(1) sends_of_waiting [OF assms(4), of t i False] wait [of t m]
      by (force simp: refines_def)
  qed
  ultimately show ?thesis using cs(2,3) assms(2,3) unfolding refines_def by auto
qed

lemma net_invD:
  assumes "net_inv cs0 progs n"
  shows "bchan_inv (nt_chans n i)" and "waits_inv n" and "refines cs0 progs n"
  using assms by (simp_all add: net_inv_def)

lemma waitingD: "waits_inv n \<Longrightarrow> (t, m) \<in> set (bc_waiting (nt_chans n i)) \<Longrightarrow> \<exists>rest. nt_prog n t = (i, m) # rest"
  by (simp add: waits_inv_def)

lemma waits_elsewhere:
  assumes "waits_inv n" and "nt_prog n t = (i, m) # rest" and "(t, m') \<in> set (bc_waiting (nt_chans n j))"
  shows "j = i \<and> m' = m"
  using waitingD [OF assms(1,3)] assms(2) by auto

lemma open_if_waiting: "bchan_inv c \<Longrightarrow> bc_waiting c \<noteq> [] \<Longrightarrow> bc_open c"
  by (auto simp: bchan_inv_def CHANNEL_BOUND_def)

text \<open>Only the task at the head of a program moves on, and the others stay where they wait.\<close>

lemma waits_advance:
  assumes "waits_inv n" and "nt_prog n t = (i, m) # rest" and "\<And>m'. (t, m') \<notin> set (bc_waiting c)"
    and "set (bc_waiting c) \<subseteq> set (bc_waiting (nt_chans n i))"
  shows "waits_inv (advance [t] hs (set_chan i c n))"
  unfolding waits_inv_def
proof (intro allI impI)
  fix j u m'
  assume "(u, m') \<in> set (bc_waiting (nt_chans (advance [t] hs (set_chan i c n)) j))"
  then have w: "(u, m') \<in> set (if j = i then bc_waiting c else bc_waiting (nt_chans n j))" by (auto split: if_splits)
  with assms(4) have "(u, m') \<in> set (bc_waiting (nt_chans n j))" by (auto split: if_splits)
  moreover from this w have "u \<noteq> t" using waits_elsewhere [OF assms(1,2)] assms(3) by (auto split: if_splits)
  ultimately show "\<exists>rest. nt_prog (advance [t] hs (set_chan i c n)) u = (j, m') # rest" using waitingD [OF assms(1)] by simp
qed

lemma net_inv_send_next:
  assumes inv: "net_inv cs0 progs n"
  shows "net_inv cs0 progs (send_next t n)"
proof (cases "nt_prog n t")
  case Nil
  then show ?thesis using inv by (simp add: send_next_def)
next
  case (Cons p rest)
  obtain i m where p: "p = (i, m)" by fastforce
  let ?c = "nt_chans n i"
  have prog: "nt_prog n t = (i, m) # rest" using Cons p by simp
  note I = net_invD [OF inv]
  consider "t \<in> fst ` set (bc_waiting ?c)" | "t \<notin> fst ` set (bc_waiting ?c)" "\<not> bc_open ?c"
    | "t \<notin> fst ` set (bc_waiting ?c)" "bc_open ?c" "length (bc_queue ?c) < CHANNEL_BOUND"
    | "t \<notin> fst ` set (bc_waiting ?c)" "bc_open ?c" "\<not> length (bc_queue ?c) < CHANNEL_BOUND" by blast
  then show ?thesis
  proof cases
    case 1
    then show ?thesis using inv prog by (simp add: send_next_def)
  next
    case 2
    have "set_chan i ?c n = n" by (simp add: set_chan_def)
    with waits_advance [OF I(2) prog, of ?c "[Sent t i m False]"] 2(1)
    have "waits_inv (advance [t] [Sent t i m False] n)" by force
    with 2 I(1) refines_refused [OF I(3) prog 2(2)] show ?thesis by (simp add: send_next_def prog net_inv_def Let_def)
  next
    case 3
    let ?d = "?c\<lparr>bc_queue := bc_queue ?c @ [m]\<rparr>"
    have "waits_inv (advance [t] [Sent t i m True] (set_chan i ?d n))"
      using 3(1) by (intro waits_advance [OF I(2) prog]) force+
    moreover have "bchan_inv ?d" using I(1) [of i] 3 by (auto simp: bchan_inv_def)
    moreover have "refines cs0 progs (advance [t] [Sent t i m True] (set_chan i ?d n))"
      using 3 by (intro refines_send [OF I(3) prog]) (simp_all add: accepted_def)
    ultimately show ?thesis using 3 I(1) by (simp add: send_next_def prog net_inv_def Let_def)
  next
    case 4
    let ?d = "?c\<lparr>bc_waiting := bc_waiting ?c @ [(t, m)]\<rparr>"
    have "waits_inv (set_chan i ?d n)" using I(2) prog by (auto simp: waits_inv_def)
    moreover have "bchan_inv ?d" using I(1) [of i] 4 by (auto simp: bchan_inv_def)
    moreover have "refines cs0 progs (set_chan i ?d n)" by (rule refines_keep [OF I(3)]) (simp_all add: accepted_def)
    ultimately show ?thesis using 4 I(1) by (simp add: send_next_def prog net_inv_def Let_def)
  qed
qed

lemma net_inv_recv:
  assumes inv: "net_inv cs0 progs n"
  shows "net_inv cs0 progs (writer_recv i n)"
proof -
  let ?c = "nt_chans n i"
  note I = net_invD [OF inv]
  consider "bc_closing ?c \<or> bc_hand ?c \<noteq> None \<or> bc_queue ?c = []"
    | m q where "bc_hand ?c = None" "bc_queue ?c = m # q" "bc_waiting ?c = []" "\<not> bc_closing ?c"
    | m q t m' ws where "bc_hand ?c = None" "bc_queue ?c = m # q" "bc_waiting ?c = (t, m') # ws" "\<not> bc_closing ?c"
    by (metis list.exhaust surj_pair)
  then show ?thesis
  proof cases
    case 1
    then show ?thesis using inv by (auto simp: writer_recv_def Let_def split: option.split list.split bool.split)
  next
    case (2 m q)
    let ?d = "?c\<lparr>bc_queue := q, bc_hand := Some m\<rparr>"
    have "waits_inv (set_chan i ?d n)" using I(2) by (auto simp: waits_inv_def)
    moreover have "bchan_inv ?d" using I(1) [of i] 2 by (auto simp: bchan_inv_def)
    moreover have "refines cs0 progs (set_chan i ?d n)"
      using 2 by (intro refines_keep [OF I(3)]) (simp_all add: accepted_def)
    ultimately show ?thesis using 2 I(1) by (simp add: writer_recv_def net_inv_def Let_def)
  next
    case (3 m q t m' ws)
    let ?d = "?c\<lparr>bc_queue := q @ [m'], bc_hand := Some m, bc_waiting := ws\<rparr>"
    obtain rest where prog: "nt_prog n t = (i, m') # rest" using waitingD [OF I(2)] 3(3) by (metis list.set_intros(1))
    have op: "bc_open ?c" using open_if_waiting [OF I(1)] 3(3) by simp
    have "waits_inv (advance [t] [Sent t i m' True] (set_chan i ?d n))"
      using 3(3) I(1) [of i] by (intro waits_advance [OF I(2) prog]) (force simp: bchan_inv_def)+
    moreover have "bchan_inv ?d" using I(1) [of i] 3 op by (auto simp: bchan_inv_def)
    moreover have "refines cs0 progs (advance [t] [Sent t i m' True] (set_chan i ?d n))"
      using 3 op I(1) [of i] by (intro refines_send [OF I(3) prog]) (simp_all add: accepted_def bchan_inv_def)
    ultimately show ?thesis using 3 I(1) by (simp add: writer_recv_def net_inv_def Let_def)
  qed
qed

lemma net_inv_sent:
  assumes inv: "net_inv cs0 progs n"
  shows "net_inv cs0 progs (writer_sent i n)"
proof (cases "bc_hand (nt_chans n i)")
  case (Some m)
  let ?c = "nt_chans n i"
  let ?d = "?c\<lparr>bc_hand := None, bc_sent := bc_sent ?c @ [m]\<rparr>"
  note I = net_invD [OF inv]
  have "bc_open ?c" "\<not> bc_closing ?c" using I(1) [of i] Some by (auto simp: bchan_inv_def)
  then have "refines cs0 progs (set_chan i ?d n)"
    using Some I(1) [of i] by (intro refines_keep [OF I(3)]) (simp_all add: accepted_def bchan_inv_def)
  moreover have "waits_inv (set_chan i ?d n)" using I(2) by (auto simp: waits_inv_def)
  moreover have "bchan_inv ?d" using I(1) [of i] by (simp add: bchan_inv_def)
  ultimately show ?thesis using Some I(1) by (simp add: writer_sent_def net_inv_def Let_def)
qed (use inv in \<open>simp add: writer_sent_def\<close>)

lemma net_inv_fails:
  assumes inv: "net_inv cs0 progs n"
  shows "net_inv cs0 progs (writer_fails i n)"
proof (cases "bc_hand (nt_chans n i)")
  case (Some m)
  let ?c = "nt_chans n i"
  let ?d = "?c\<lparr>bc_closing := True, bc_hand := None, bc_lost := bc_lost ?c @ [m]\<rparr>"
  note I = net_invD [OF inv]
  have "refines cs0 progs (set_chan i ?d n)" using Some by (intro refines_keep [OF I(3)]) (simp_all add: accepted_def)
  moreover have "waits_inv (set_chan i ?d n)" using I(2) by (auto simp: waits_inv_def)
  moreover have "bchan_inv ?d" using I(1) [of i] by (simp add: bchan_inv_def)
  ultimately show ?thesis using Some I(1) by (simp add: writer_fails_def net_inv_def Let_def)
qed (use inv in \<open>simp add: writer_fails_def\<close>)

lemma net_inv_ends:
  assumes inv: "net_inv cs0 progs n"
  shows "net_inv cs0 progs (writer_ends i n)"
proof (cases "bc_closing (nt_chans n i) \<and> bc_open (nt_chans n i)")
  case True
  let ?c = "nt_chans n i"
  let ?d = "?c\<lparr>bc_open := False, bc_queue := [], bc_waiting := [], bc_lost := bc_lost ?c @ bc_queue ?c\<rparr>"
  let ?n = "advance (map fst (bc_waiting ?c)) (Gone i # map (\<lambda>(t, m). Sent t i m False) (bc_waiting ?c)) (set_chan i ?d n)"
  note I = net_invD [OF inv]
  have "refines cs0 progs ?n"
    using True I(1) [of i] waitingD [OF I(2)] by (intro refines_fails [OF I(3)]) (simp_all add: accepted_def bchan_inv_def)
  moreover have "waits_inv ?n" unfolding waits_inv_def
  proof (intro allI impI)
    fix j u m'
    assume "(u, m') \<in> set (bc_waiting (nt_chans ?n j))"
    then have j: "j \<noteq> i" "(u, m') \<in> set (bc_waiting (nt_chans n j))" by (auto split: if_splits)
    then have "u \<notin> fst ` set (bc_waiting ?c)" using waitingD [OF I(2), of u _ i] waitingD [OF I(2) j(2)] by auto
    with waitingD [OF I(2) j(2)] show "\<exists>rest. nt_prog ?n u = (j, m') # rest" by simp
  qed
  moreover have "bchan_inv ?d" using True I(1) [of i] by (simp add: bchan_inv_def)
  ultimately show ?thesis using True I(1) by (simp add: writer_ends_def net_inv_def Let_def)
qed (use inv in \<open>auto simp: writer_ends_def Let_def\<close>)

interpretation net: event_machine net_step "\<lambda>_ _. True" "net_inv cs0 progs" for cs0 progs
proof
  fix n :: net and e :: net_event
  assume "net_inv cs0 progs n"
  then show "net_inv cs0 progs (net_step n e)"
    by (cases e) (simp_all add: net_inv_send_next net_inv_recv net_inv_sent net_inv_fails net_inv_ends)
qed

lemma net_inv_new: "net_inv cs progs (net_new cs progs)"
  by (simp add: net_inv_def bchan_inv_def waits_inv_def refines_def net_new_def accepted_def)

lemma net_run_inv: "net_inv cs progs (foldl net_step (net_new cs progs) es)"
  by (rule net.foldl_inv) (simp_all add: net_inv_new)

text \<open>
  (C16) Bounded channels implement the channels of the model: in every run of any tasks and writers
  there is an order of the sends that have returned, the program order for each task, in which the
  channels without a bound give every send the same result and hold what was accepted; and no
  channel ever buffers more than 64 messages.
\<close>
theorem bounded_channels_refine:
  "let n = foldl net_step (net_new cs progs) es in
     (\<exists>cs'. replay (nt_hist n) cs = (True, cs') \<and>
        (\<forall>i. chan_alive cs' i = bc_open (nt_chans n i) \<and> chan_log cs' i = accepted (nt_chans n i))) \<and>
     (\<forall>t. progs t = sends_of t (nt_hist n) @ nt_prog n t) \<and>
     (\<forall>i. length (bc_queue (nt_chans n i)) \<le> CHANNEL_BOUND)"
  using net_run_inv [of cs progs es] unfolding net_inv_def refines_def bchan_inv_def Let_def by blast

section \<open>How long a sender waits\<close>

text \<open>How many messages the writer has taken from the channel.\<close>

definition taken :: "bchan \<Rightarrow> nat" where
  "taken c = length (bc_sent c) + length (bc_lost c) + (case bc_hand c of None \<Rightarrow> 0 | Some m \<Rightarrow> 1)"

lemma hist_grows: "\<exists>hs. nt_hist (net_step n e) = nt_hist n @ hs"
  by (cases e) (auto simp: send_next_def writer_recv_def writer_sent_def writer_fails_def writer_ends_def Let_def
      split: list.split option.split bool.split)

lemma closed_stays: "\<not> bc_open (nt_chans n i) \<Longrightarrow> \<not> bc_open (nt_chans (net_step n e) i)"
  by (cases e) (auto simp: send_next_def writer_recv_def writer_sent_def writer_fails_def writer_ends_def Let_def
      split: list.split option.split bool.split)

text \<open>What has become of a send after a run: it has returned, with success unless the channel has been closed.\<close>

definition returned :: "nat \<Rightarrow> chan_id \<Rightarrow> server_message \<Rightarrow> net \<Rightarrow> net \<Rightarrow> bool" where
  "returned t i m n n' \<longleftrightarrow>
     (\<exists>hs ok. nt_hist n' = nt_hist n @ hs \<and> Sent t i m ok \<in> set hs \<and> (ok \<or> \<not> bc_open (nt_chans n' i)))"

definition in_turn :: "nat \<Rightarrow> chan_id \<Rightarrow> server_message \<Rightarrow> nat \<Rightarrow> bchan \<Rightarrow> bool" where
  "in_turn t i m k c \<longleftrightarrow> k < length (bc_waiting c) \<and> bc_waiting c ! k = (t, m)"

lemma returned_step:
  assumes "returned t i m n n'"
  shows "returned t i m n (net_step n' e)"
proof -
  from hist_grows [of n' e] obtain hs where "nt_hist (net_step n' e) = nt_hist n' @ hs" ..
  with assms closed_stays [of n' i e] show ?thesis unfolding returned_def by fastforce
qed

lemma returned_after:
  assumes "returned t i m (net_step n e) n'"
  shows "returned t i m n n'"
proof -
  from hist_grows [of n e] obtain hs where "nt_hist (net_step n e) = nt_hist n @ hs" ..
  with assms show ?thesis unfolding returned_def by fastforce
qed

lemma returned_run: "returned t i m n n' \<Longrightarrow> returned t i m n (foldl net_step n' es)"
  by (induction es arbitrary: n') (simp_all add: returned_step)

text \<open>Every step leaves a waiting send where it is, moves it up by the message that the writer took, or lets it return.\<close>

lemma in_turn_step:
  assumes inv: "net_inv cs progs n" and w: "in_turn t i m k (nt_chans n i)"
  shows "returned t i m n (net_step n e) \<or>
    (\<exists>k'. in_turn t i m k' (nt_chans (net_step n e) i) \<and> k' + taken (nt_chans (net_step n e) i) = k + taken (nt_chans n i))"
proof (cases e)
  case (SendNext u)
  have "in_turn t i m k (nt_chans (net_step n e) i) \<and> taken (nt_chans (net_step n e) i) = taken (nt_chans n i)"
    using w by (auto simp: SendNext send_next_def in_turn_def taken_def Let_def nth_append split: list.split)
  then show ?thesis by (intro disjI2 exI [of _ k]) simp
next
  case (WriterRecv j)
  obtain u m2 ws where w0: "bc_waiting (nt_chans n i) = (u, m2) # ws" using w by (cases "bc_waiting (nt_chans n i)") (auto simp: in_turn_def)
  show ?thesis
  proof (cases "j = i \<and> \<not> bc_closing (nt_chans n i) \<and> bc_hand (nt_chans n i) = None \<and> bc_queue (nt_chans n i) \<noteq> []")
    case True
    then obtain m1 q where "bc_queue (nt_chans n i) = m1 # q" by (meson neq_Nil_conv)
    with True w0 have step: "net_step n e = advance [u] [Sent u i m2 True]
        (set_chan i ((nt_chans n i)\<lparr>bc_queue := q @ [m2], bc_hand := Some m1, bc_waiting := ws\<rparr>) n)"
      by (simp add: WriterRecv writer_recv_def)
    show ?thesis
    proof (cases k)
      case 0
      with step w0 w have "returned t i m n (net_step n e)" by (auto simp: returned_def in_turn_def)
      then show ?thesis ..
    next
      case (Suc k')
      with step w0 w True show ?thesis by (intro disjI2 exI [of _ k']) (simp add: in_turn_def taken_def)
    qed
  next
    case False
    then have "nt_chans (net_step n e) i = nt_chans n i"
      by (auto simp: WriterRecv writer_recv_def Let_def split: option.split list.split bool.split)
    then show ?thesis using w by (intro disjI2 exI [of _ k]) simp
  qed
next
  case (WriterSent j)
  have "in_turn t i m k (nt_chans (net_step n e) i) \<and> taken (nt_chans (net_step n e) i) = taken (nt_chans n i)"
    using w by (auto simp: WriterSent writer_sent_def in_turn_def taken_def Let_def split: option.split)
  then show ?thesis by (intro disjI2 exI [of _ k]) simp
next
  case (WriterFails j)
  have "in_turn t i m k (nt_chans (net_step n e) i) \<and> taken (nt_chans (net_step n e) i) = taken (nt_chans n i)"
    using w by (auto simp: WriterFails writer_fails_def in_turn_def taken_def Let_def split: option.split)
  then show ?thesis by (intro disjI2 exI [of _ k]) simp
next
  case (WriterEnds j)
  have "(t, m) \<in> set (bc_waiting (nt_chans n i))" using w by (auto simp: in_turn_def dest: nth_mem)
  then show ?thesis
  proof (cases "j = i \<and> bc_closing (nt_chans n i) \<and> bc_open (nt_chans n i)")
    case True
    with \<open>(t, m) \<in> set (bc_waiting (nt_chans n i))\<close> have "returned t i m n (net_step n e)"
      by (force simp: WriterEnds writer_ends_def returned_def Let_def)
    then show ?thesis ..
  next
    case False
    then have "nt_chans (net_step n e) i = nt_chans n i" by (auto simp: WriterEnds writer_ends_def Let_def)
    then show ?thesis using w by (intro disjI2 exI [of _ k]) simp
  qed
qed

lemma in_turn_run:
  assumes "net_inv cs progs n" and "in_turn t i m k (nt_chans n i)"
  shows "returned t i m n (foldl net_step n es) \<or>
    (\<exists>k'. in_turn t i m k' (nt_chans (foldl net_step n es) i) \<and> k' + taken (nt_chans (foldl net_step n es) i) = k + taken (nt_chans n i))"
  using assms
proof (induction es arbitrary: n k)
  case (Cons e es)
  from in_turn_step [OF Cons.prems, of e] show ?case
  proof
    assume "returned t i m n (net_step n e)"
    then show ?thesis using returned_run by simp
  next
    assume "\<exists>k'. in_turn t i m k' (nt_chans (net_step n e) i) \<and> k' + taken (nt_chans (net_step n e) i) = k + taken (nt_chans n i)"
    then obtain k' where k': "in_turn t i m k' (nt_chans (net_step n e) i)" "k' + taken (nt_chans (net_step n e) i) = k + taken (nt_chans n i)" by blast
    from Cons.IH [OF net.step_inv [OF Cons.prems(1) TrueI] k'(1)] k'(2) returned_after show ?thesis by fastforce
  qed
qed auto

text \<open>
  (C15) A send waits for its turn and for nothing else. With \<open>k\<close> senders before it in the line of a full channel,
  it has returned in every continuation in which the writer takes more than \<open>k\<close> messages or ends,
  whatever other tasks and writers do and however many more senders come; and it has succeeded unless the writer has ended.
\<close>
theorem send_returns_in_turn:
  assumes "n = foldl net_step (net_new cs progs) es0" and "k < length (bc_waiting (nt_chans n i))"
    and "bc_waiting (nt_chans n i) ! k = (t, m)" and "n' = foldl net_step n es"
    and "taken (nt_chans n i) + k < taken (nt_chans n' i) \<or> \<not> bc_open (nt_chans n' i)"
  shows "\<exists>hs ok. nt_hist n' = nt_hist n @ hs \<and> Sent t i m ok \<in> set hs \<and> (ok \<or> \<not> bc_open (nt_chans n' i))"
proof (rule ccontr)
  assume "\<not> ?thesis"
  moreover have inv: "net_inv cs progs n" unfolding assms(1) by (rule net_run_inv)
  ultimately obtain k' where k': "in_turn t i m k' (nt_chans n' i)" "k' + taken (nt_chans n' i) = k + taken (nt_chans n i)"
    using in_turn_run [OF inv, of t i m k es] assms(2-4) by (auto simp: in_turn_def returned_def)
  have "net_inv cs progs n'" unfolding assms(4) by (rule net.foldl_inv) (simp_all add: inv)
  then have "bc_open (nt_chans n' i)" using k'(1) by (intro open_if_waiting net_invD(1)) (auto simp: in_turn_def)
  with k'(2) assms(5) show False by simp
qed

section \<open>A peer that stops reading\<close>

definition stuck :: "chan_id \<Rightarrow> net \<Rightarrow> bool" where
  "stuck i n \<longleftrightarrow> bc_hand (nt_chans n i) \<noteq> None \<and> length (bc_queue (nt_chans n i)) = CHANNEL_BOUND"

lemma stuck_step:
  assumes inv: "net_inv cs progs n" and st: "stuck i n" and prog: "nt_prog n t = (i, m) # rest"
    and e: "e \<noteq> WriterSent i" "e \<noteq> WriterFails i"
  shows "stuck i (net_step n e) \<and> nt_prog (net_step n e) t = (i, m) # rest"
proof (cases e)
  case (SendNext u)
  have op: "bc_open (nt_chans n i)" using net_invD(1) [OF inv, of i] st by (auto simp: bchan_inv_def stuck_def)
  show ?thesis
  proof (cases "nt_prog n u")
    case (Cons p us)
    then show ?thesis using SendNext st prog op by (cases p) (auto simp: send_next_def stuck_def Let_def)
  qed (use SendNext st prog in \<open>simp add: send_next_def\<close>)
next
  case (WriterRecv j)
  have "bc_waiting (nt_chans n j) \<noteq> (t, m') # ws" if "j \<noteq> i" for m' ws
    using waits_elsewhere [OF net_invD(2) [OF inv] prog, of m' j] that by auto
  with WriterRecv st prog show ?thesis
    by (cases "j = i") (auto simp: writer_recv_def stuck_def Let_def split: option.split list.split bool.split)
next
  case (WriterSent j)
  with e st prog show ?thesis by (auto simp: writer_sent_def stuck_def Let_def split: option.split)
next
  case (WriterFails j)
  have "t \<notin> fst ` set (bc_waiting (nt_chans n j))" if "j \<noteq> i"
    using waits_elsewhere [OF net_invD(2) [OF inv] prog] that by fastforce
  with WriterFails e st prog show ?thesis by (auto simp: writer_fails_def stuck_def Let_def split: option.split)
next
  case (WriterEnds j)
  have "\<not> bc_closing (nt_chans n i)" using net_invD(1) [OF inv, of i] st by (auto simp: bchan_inv_def stuck_def)
  moreover have "t \<notin> fst ` set (bc_waiting (nt_chans n j))" if "j \<noteq> i"
    using waits_elsewhere [OF net_invD(2) [OF inv] prog] that by fastforce
  ultimately show ?thesis using WriterEnds st prog by (auto simp: writer_ends_def stuck_def Let_def)
qed

lemma stuck_forever:
  assumes "net_inv cs progs n" and "stuck i n" and "nt_prog n t = (i, m) # rest" and "WriterSent i \<notin> set es" and "WriterFails i \<notin> set es"
  shows "nt_prog (foldl net_step n es) t = (i, m) # rest"
  using assms
proof (induction es arbitrary: n)
  case (Cons e es)
  then have e: "e \<noteq> WriterSent i" "e \<noteq> WriterFails i" by auto
  from stuck_step [OF Cons.prems(1-3) e] net.step_inv [OF Cons.prems(1)] Cons.prems(4,5)
  show ?case by (auto intro!: Cons.IH)
qed simp

text \<open>
  (C17) A peer that keeps its connection open and stops reading stalls those who send to it: once its
  buffer is full and the writer holds a message that the socket does not take, a task whose next send
  is to it stays there in every continuation in which the socket neither takes the message nor
  fails, whatever all other tasks and writers do. For a broadcast of a presence change that is the
  connection of the peer who changed, which is then not served, and the watchers after the stalled
  one are not told.
\<close>
theorem slow_reader_stalls_sender:
  assumes "n = foldl net_step (net_new cs progs) es0" and "stuck i n" and "nt_prog n t = (i, m) # rest"
    and "WriterSent i \<notin> set es" and "WriterFails i \<notin> set es"
  shows "nt_prog (foldl net_step n es) t = (i, m) # rest"
  using stuck_forever [OF _ assms(2-5)] net_run_inv [of cs progs es0] assms(1) by simp

section \<open>A broadcast as a task\<close>

text \<open>Without the end of its writer nothing ends a receiver.\<close>

lemma no_gone:
  assumes "\<And>j. WriterEnds j \<notin> set es" and "\<And>j. Gone j \<notin> set (nt_hist n)"
  shows "Gone j \<notin> set (nt_hist (foldl net_step n es))"
  using assms
proof (induction es arbitrary: n)
  case (Cons e es)
  have "e \<noteq> WriterEnds k" for k using Cons.prems(1) [of k] by auto
  then have "Gone k \<notin> set (nt_hist (net_step n e))" for k
    using Cons.prems(2) [of k] by (cases e) (auto simp: send_next_def writer_recv_def writer_sent_def writer_fails_def Let_def split: list.split option.split bool.split if_splits)
  then show ?case using Cons by simp
qed simp

lemma replay_sends:
  assumes "\<And>j. Gone j \<notin> set hs" and "\<And>u. u \<noteq> t \<Longrightarrow> sends_of u hs = []"
  shows "snd (replay hs cs) = ch.send_all (sends_of t hs) cs"
  using assms
proof (induction hs arbitrary: cs)
  case (Cons h hs)
  then obtain u i m ok where h: "h = Sent u i m ok" by (cases h) auto
  with Cons.prems(2) [of u] have "u = t" by auto
  moreover have "snd (replay hs cs') = ch.send_all (sends_of t hs) cs'" for cs'
    using Cons.prems by (intro Cons.IH) (auto simp: h dest: meta_spec)
  ultimately show ?case by (simp add: h ch.send_all_Cons split_beta)
qed (simp add: ch.send_all_Nil)

text \<open>
  The broadcast of the model is what the task does: a task that runs the sends of a broadcast to
  their end over bounded channels whose writers live, at whatever pace the writers take, has given
  every channel exactly what \<open>broadcast\<close> gives it.
\<close>
theorem broadcast_task:
  assumes "\<And>j. WriterEnds j \<notin> set es"
    and "progs = (\<lambda>u. if u = t then map (\<lambda>i. (i, PresenceUpdate pk online)) (broadcast_targets r (watchers_of pm pk)) else [])"
    and "nt_prog (foldl net_step (net_new cs progs) es) t = []"
  shows "accepted (nt_chans (foldl net_step (net_new cs progs) es) i) = chan_log (broadcast pm r pk online cs) i"
proof -
  let ?n = "foldl net_step (net_new cs progs) es"
  have ref: "refines cs progs ?n" using net_invD(3) [OF net_run_inv] .
  then have prog: "progs u = sends_of u (nt_hist ?n) @ nt_prog ?n u" for u by (simp add: refines_def)
  have "snd (replay (nt_hist ?n) cs) = ch.send_all (sends_of t (nt_hist ?n)) cs"
  proof (rule replay_sends)
    show "Gone j \<notin> set (nt_hist ?n)" for j by (rule no_gone) (simp_all add: assms(1) net_new_def)
    show "sends_of u (nt_hist ?n) = []" if "u \<noteq> t" for u using prog [of u] that assms(2) by simp
  qed
  moreover have "sends_of t (nt_hist ?n) = map (\<lambda>i. (i, PresenceUpdate pk online)) (broadcast_targets r (watchers_of pm pk))"
    using prog [of t] assms(2,3) by simp
  ultimately have "snd (replay (nt_hist ?n) cs) = broadcast pm r pk online cs" by (simp add: broadcast_send_all)
  with ref show ?thesis by (auto simp: refines_def)
qed

section \<open>Examples\<close>

definition demo_update :: server_message where
  "demo_update = PresenceUpdate ''a'' True"

definition demo_fill :: "nat \<Rightarrow> net_event list" where
  "demo_fill k = [SendNext 0, WriterRecv 1] @ map SendNext [1..<Suc k]"

definition demo_net :: "nat \<Rightarrow> net" where
  "demo_net k = foldl net_step (net_new (dm_insert 1 \<lparr>ch_alive = True, ch_log = []\<rparr> dm_empty) (\<lambda>_. [(1, demo_update)])) (demo_fill k)"

lemma demo_net_full:
  "k \<le> CHANNEL_BOUND \<Longrightarrow>
   nt_chans (demo_net k) 1 = \<lparr>bc_open = True, bc_closing = False, bc_queue = replicate k demo_update, bc_hand = Some demo_update, bc_sent = [], bc_lost = [], bc_waiting = []\<rparr> \<and>
   (\<forall>t. nt_prog (demo_net k) t = (if t \<le> k then [] else [(1, demo_update)]))"
proof (induction k)
  case 0
  then show ?case
    by (simp add: demo_net_def demo_fill_def net_new_def send_next_def writer_recv_def CHANNEL_BOUND_def chan_alive_def chan_log_def Let_def)
next
  case (Suc k)
  have "demo_net (Suc k) = send_next (Suc k) (demo_net k)" by (simp add: demo_net_def demo_fill_def)
  with Suc show ?case by (auto simp: send_next_def Let_def replicate_append_same)
qed

lemma demo_net_stuck: "stuck 1 (demo_net 64)" "nt_prog (demo_net 64) 65 = [(1, demo_update)]"
  using demo_net_full [of 64] by (simp_all add: stuck_def CHANNEL_BOUND_def)

theorem slow_reader_stalls_sender_witness:
  "nt_prog (foldl net_step (demo_net 64) [SendNext 65, SendNext 66, WriterRecv 1, SendNext 65]) 65 = [(1, demo_update)]"
  by (rule slow_reader_stalls_sender [OF demo_net_def demo_net_stuck]) simp_all

theorem send_returns_in_turn_witness:
  "\<exists>hs. nt_hist (foldl net_step (net_step (demo_net 64) (SendNext 65)) [SendNext 66, WriterSent 1, WriterRecv 1]) =
     nt_hist (net_step (demo_net 64) (SendNext 65)) @ hs \<and> Sent 65 1 demo_update True \<in> set hs"
proof -
  let ?n = "net_step (demo_net 64) (SendNext 65)"
  let ?n' = "foldl net_step ?n [SendNext 66, WriterSent 1, WriterRecv 1]"
  have run: "?n = foldl net_step (net_new (dm_insert 1 \<lparr>ch_alive = True, ch_log = []\<rparr> dm_empty) (\<lambda>_. [(1, demo_update)])) (demo_fill 64 @ [SendNext 65])"
    by (simp add: demo_net_def)
  have full: "nt_chans ?n 1 = \<lparr>bc_open = True, bc_closing = False, bc_queue = replicate 64 demo_update, bc_hand = Some demo_update, bc_sent = [],
      bc_lost = [], bc_waiting = [(65, demo_update)]\<rparr>" "nt_prog ?n 66 = [(1, demo_update)]"
    using demo_net_full [of 64] by (simp_all add: send_next_def CHANNEL_BOUND_def)
  have "replicate 64 demo_update = demo_update # replicate 63 demo_update" by (simp add: replicate_Suc [symmetric] del: replicate_Suc)
  with full have end_state: "taken (nt_chans ?n' 1) = 2" "bc_open (nt_chans ?n' 1)"
    by (simp_all add: send_next_def writer_sent_def writer_recv_def CHANNEL_BOUND_def taken_def Let_def)
  with full have "taken (nt_chans ?n 1) + 0 < taken (nt_chans ?n' 1) \<or> \<not> bc_open (nt_chans ?n' 1)" by (simp add: taken_def)
  from send_returns_in_turn [OF run _ _ refl this, of 65 demo_update] full end_state(2) show ?thesis by fastforce
qed

end
