(* ===== verification/Relay_Concurrent.thy ===== *)
theory Relay_Concurrent
  imports Relay_Manager
begin

text \<open>
  The relay of \<open>src/relay.rs\<close> with its operations running at the same time. An operation is cut
  where another task can get in between: at every access to a shared map and at every await. What the
  task has read by then is in its program counter. Any number of operations run in any
  interleaving, new ones start at any time, and the registry changes in between as connections come
  and go. Taking the list of stale sessions is one step, as if the map stood still for it.

  \<open>rs_log\<close> records when a session was stored, when it was accepted, and which frames were
  delivered.
\<close>

datatype relay_event =
    Requested uuid string string
  | Accepted uuid string
  | Delivered uuid string string string

record relay_shared =
  rs_registry :: peer_registry
  rs_relay :: relay_manager
  rs_channels :: channels
  rs_log :: "relay_event list"

datatype relay_pc =
    ReqStart string string uuid
  | ReqFound string string uuid chan_id
  | ReqStored string uuid chan_id
  | AccStart string uuid
  | AccActive string string uuid
  | AccInit string string uuid chan_id
  | AccBoth string string uuid chan_id chan_id
  | AccTold string uuid chan_id
  | FwdStart clock3 string uuid string
  | FwdChecked clock3 string uuid string string
  | FwdCharged string uuid string string
  | FwdFound string uuid string string chan_id
  | DropStart string
  | DropRest "uuid list"
  | Finished "broker_error option"

fun starting :: "relay_pc \<Rightarrow> bool" where
  "starting (ReqStart i p sid) = True"
| "starting (AccStart p sid) = True"
| "starting (FwdStart ts s sid data) = True"
| "starting (DropStart pk) = True"
| "starting _ = False"

definition rs_send :: "chan_id \<Rightarrow> server_message \<Rightarrow> relay_shared \<Rightarrow> broker_error option \<times> relay_shared" where
  "rs_send tx m sh =
     (case try_send tx m (rs_channels sh) of
        (Inl e, cs) \<Rightarrow> (Some e, sh\<lparr>rs_channels := cs\<rparr>)
      | (Inr _, cs) \<Rightarrow> (None, sh\<lparr>rs_channels := cs\<rparr>))"

definition find_peer :: "string \<Rightarrow> (chan_id \<Rightarrow> relay_pc) \<Rightarrow> relay_shared \<Rightarrow> relay_pc \<times> relay_shared" where
  "find_peer pk next_pc sh =
     (case reg_get (rs_registry sh) pk of None \<Rightarrow> (Finished (Some PeerOffline), sh) | Some p \<Rightarrow> (next_pc (ph_tx p), sh))"

definition set_session :: "uuid \<Rightarrow> session \<Rightarrow> relay_event \<Rightarrow> relay_shared \<Rightarrow> relay_shared" where
  "set_session sid s ev sh =
     sh\<lparr>rs_relay := (rs_relay sh)\<lparr>sessions := dm_insert sid s (sessions (rs_relay sh))\<rparr>, rs_log := rs_log sh @ [ev]\<rparr>"

fun relay_next :: "crates \<Rightarrow> relay_pc \<Rightarrow> relay_shared \<Rightarrow> relay_pc \<times> relay_shared" where
  "relay_next cr (ReqStart i p sid) sh = find_peer p (ReqFound i p sid) sh"
| "relay_next cr (ReqFound i p sid tx) sh =
     (ReqStored i sid tx, set_session sid \<lparr>initiator = i, responder = p, sess_state = Pending\<rparr> (Requested sid i p) sh)"
| "relay_next cr (ReqStored i sid tx) sh =
     (case rs_send tx (RelayOffer (uuid_text cr sid) i) sh of (e, sh') \<Rightarrow> (Finished e, sh'))"
| "relay_next cr (AccStart p sid) sh =
     (case dm_get (sessions (rs_relay sh)) sid of
        None \<Rightarrow> (Finished (Some RelaySessionNotFound), sh)
      | Some s \<Rightarrow>
          if responder s \<noteq> p then (Finished (Some RelayNotConsented), sh)
          else if sess_state s \<noteq> Pending then (Finished (Some RelayNotConsented), sh)
          else (AccActive (initiator s) p sid, set_session sid (s\<lparr>sess_state := Active\<rparr>) (Accepted sid p) sh))"
| "relay_next cr (AccActive i p sid) sh = find_peer i (AccInit i p sid) sh"
| "relay_next cr (AccInit i p sid itx) sh = find_peer p (AccBoth i p sid itx) sh"
| "relay_next cr (AccBoth i p sid itx rtx) sh =
     (case rs_send itx (RelaySessionEstablished (uuid_text cr sid) p None) sh of
        (Some e, sh') \<Rightarrow> (Finished (Some e), sh') | (None, sh') \<Rightarrow> (AccTold i sid rtx, sh'))"
| "relay_next cr (AccTold i sid rtx) sh =
     (case rs_send rtx (RelaySessionEstablished (uuid_text cr sid) i None) sh of (e, sh') \<Rightarrow> (Finished e, sh'))"
| "relay_next cr (FwdStart ts sender sid data) sh =
     (case dm_get (sessions (rs_relay sh)) sid of
        None \<Rightarrow> (Finished (Some RelaySessionNotFound), sh)
      | Some s \<Rightarrow>
          if sess_state s \<noteq> Active then (Finished (Some RelayNotConsented), sh)
          else (case other_party s sender of
                  None \<Rightarrow> (Finished (Some RelayNotConsented), sh)
                | Some other \<Rightarrow> (FwdChecked ts sender sid data other, sh)))"
| "relay_next cr (FwdChecked ts sender sid data other) sh =
     (case b64_decode cr data of
        Inl e \<Rightarrow> (Finished (Some (Malformed (''relay base64: '' @ e))), sh)
      | Inr v \<Rightarrow>
          if RELAY_MAX_FRAME < length v then (Finished (Some (PayloadTooLarge (length v) RELAY_MAX_FRAME)), sh)
          else (case consume_quota ts sender (of_nat (length v)) (rs_relay sh) of
                  (Inl e, rm) \<Rightarrow> (Finished (Some e), sh\<lparr>rs_relay := rm\<rparr>)
                | (Inr _, rm) \<Rightarrow> (FwdCharged sender sid data other, sh\<lparr>rs_relay := rm\<rparr>)))"
| "relay_next cr (FwdCharged sender sid data other) sh = find_peer other (FwdFound sender sid data other) sh"
| "relay_next cr (FwdFound sender sid data other tx) sh =
     (case rs_send tx (RelayData (uuid_text cr sid) sender data) sh of
        (Some e, sh') \<Rightarrow> (Finished (Some e), sh')
      | (None, sh') \<Rightarrow> (Finished None, sh'\<lparr>rs_log := rs_log sh' @ [Delivered sid sender other data]\<rparr>))"
| "relay_next cr (DropStart pk) sh =
     (DropRest (map fst (filter (\<lambda>(k, s). initiator s = pk \<or> responder s = pk) (sessions (rs_relay sh)))), sh)"
| "relay_next cr (DropRest []) sh = (Finished None, sh)"
| "relay_next cr (DropRest (sid # sids)) sh =
     (DropRest sids, sh\<lparr>rs_relay := (rs_relay sh)\<lparr>sessions := dm_remove sid (sessions (rs_relay sh))\<rparr>\<rparr>)"
| "relay_next cr (Finished r) sh = (Finished r, sh)"

inductive relay_trans :: "crates \<Rightarrow> relay_shared \<times> relay_pc list \<Rightarrow> relay_shared \<times> relay_pc list \<Rightarrow> bool" for cr where
  run: "i < length ts \<Longrightarrow> relay_next cr (ts ! i) sh = (pc, sh') \<Longrightarrow> relay_trans cr (sh, ts) (sh', ts[i := pc])"
| spawn: "starting pc \<Longrightarrow> relay_trans cr (sh, ts) (sh, ts @ [pc])"
| connections: "relay_trans cr (sh, ts) (sh\<lparr>rs_registry := reg, rs_channels := cs\<rparr>, ts)"

inductive_cases relay_transE: "relay_trans cr (sh, ts) (sh', ts')"

section \<open>Alone, a task is the operation\<close>

definition error_of :: "'a result \<Rightarrow> broker_error option" where
  "error_of r = (case r of Inl e \<Rightarrow> Some e | Inr _ \<Rightarrow> None)"

fun relay_run :: "crates \<Rightarrow> nat \<Rightarrow> relay_pc \<times> relay_shared \<Rightarrow> relay_pc \<times> relay_shared" where
  "relay_run cr 0 st = st"
| "relay_run cr (Suc k) st = relay_run cr k (relay_next cr (fst st) (snd st))"

text \<open>The part of the shared state that the sequential operations have.\<close>

definition outcome_of :: "relay_pc \<times> relay_shared \<Rightarrow> broker_error option option \<times> relay_state" where
  "outcome_of st = (case fst st of Finished r \<Rightarrow> Some r | _ \<Rightarrow> None, rs_relay (snd st), rs_channels (snd st))"

lemma relay_run_numeral: "relay_run cr (numeral k) st = relay_run cr (pred_numeral k) (relay_next cr (fst st) (snd st))"
  by (simp add: numeral_eq_Suc)

lemmas relay_task_defs = outcome_of_def error_of_def find_peer_def rs_send_def set_session_def relay_run_numeral

lemma drop_run:
  "relay_run cr (Suc (length sids)) (DropRest sids, sh) =
     (Finished None, sh\<lparr>rs_relay := (rs_relay sh)\<lparr>sessions := fold dm_remove sids (sessions (rs_relay sh))\<rparr>\<rparr>)"
  by (induction sids arbitrary: sh) simp_all

text \<open>
  The steps are the operations: a task that runs without interruption ends with the result and the
  state of \<open>request\<close>, \<open>accept\<close>, \<open>forward\<close> and \<open>drop_sessions_for\<close>.
\<close>
theorem lone_relay_task:
  "outcome_of (relay_run cr 5 (ReqStart i p sid, sh)) =
     (case request cr (rs_registry sh) sid i p (rs_relay sh, rs_channels sh) of (r, st) \<Rightarrow> (Some (error_of r), st)) \<and>
   outcome_of (relay_run cr 5 (AccStart p sid, sh)) =
     (case accept cr (rs_registry sh) p sid (rs_relay sh, rs_channels sh) of (r, st) \<Rightarrow> (Some (error_of r), st)) \<and>
   outcome_of (relay_run cr 5 (FwdStart ts i sid data, sh)) =
     (case forward cr (rs_registry sh) ts i sid data (rs_relay sh, rs_channels sh) of (r, st) \<Rightarrow> (Some (error_of r), st)) \<and>
   (\<exists>k. outcome_of (relay_run cr k (DropStart pk, sh)) = (Some None, drop_sessions_for pk (rs_relay sh), rs_channels sh))"
proof (intro conjI)
  show "outcome_of (relay_run cr 5 (ReqStart i p sid, sh)) =
     (case request cr (rs_registry sh) sid i p (rs_relay sh, rs_channels sh) of (r, st) \<Rightarrow> (Some (error_of r), st))"
    by (simp add: request_def relay_task_defs try_send_eq split: option.split)
  show "outcome_of (relay_run cr 5 (AccStart p sid, sh)) =
     (case accept cr (rs_registry sh) p sid (rs_relay sh, rs_channels sh) of (r, st) \<Rightarrow> (Some (error_of r), st))"
    by (simp add: accept_def announce_session_def relay_task_defs try_send_eq split: option.split)
  show "outcome_of (relay_run cr 5 (FwdStart ts i sid data, sh)) =
     (case forward cr (rs_registry sh) ts i sid data (rs_relay sh, rs_channels sh) of (r, st) \<Rightarrow> (Some (error_of r), st))"
    by (simp add: forward_def relay_task_defs try_send_eq map_err_def split: option.split sum.split prod.split)
  have "outcome_of (relay_run cr (Suc (Suc (length (map fst (filter (\<lambda>(k, s). initiator s = pk \<or> responder s = pk) (sessions (rs_relay sh)))))))
      (DropStart pk, sh)) = (Some None, drop_sessions_for pk (rs_relay sh), rs_channels sh)"
    by (subst relay_run.simps) (simp only: fst_conv snd_conv relay_next.simps drop_run, simp add: outcome_of_def drop_sessions_for_def Let_def)
  then show "\<exists>k. outcome_of (relay_run cr k (DropStart pk, sh)) = (Some None, drop_sessions_for pk (rs_relay sh), rs_channels sh)" by blast
qed

section \<open>Consent under any interleaving\<close>

definition consented :: "relay_event list \<Rightarrow> uuid \<Rightarrow> string \<Rightarrow> string \<Rightarrow> bool" where
  "consented lg sid i p \<longleftrightarrow> (\<exists>pre mid rest. lg = pre @ Requested sid i p # mid @ Accepted sid p # rest)"

definition between :: "relay_event list \<Rightarrow> uuid \<Rightarrow> string \<Rightarrow> string \<Rightarrow> bool" where
  "between lg sid a b \<longleftrightarrow> consented lg sid a b \<or> consented lg sid b a"

definition sessions_ok :: "relay_event list \<Rightarrow> (uuid, session) dashmap \<Rightarrow> bool" where
  "sessions_ok lg ss \<longleftrightarrow> (\<forall>sid s. dm_get ss sid = Some s \<longrightarrow>
     Requested sid (initiator s) (responder s) \<in> set lg \<and> (sess_state s = Active \<longrightarrow> consented lg sid (initiator s) (responder s)))"

fun pc_ok :: "relay_event list \<Rightarrow> relay_pc \<Rightarrow> bool" where
  "pc_ok lg (FwdChecked ts sender sid data other) = between lg sid sender other"
| "pc_ok lg (FwdCharged sender sid data other) = between lg sid sender other"
| "pc_ok lg (FwdFound sender sid data other tx) = between lg sid sender other"
| "pc_ok lg _ = True"

definition delivered_ok :: "relay_event list \<Rightarrow> bool" where
  "delivered_ok lg \<longleftrightarrow> (\<forall>pre sid sender other data rest. lg = pre @ Delivered sid sender other data # rest \<longrightarrow> between pre sid sender other)"

definition consent_inv :: "relay_shared \<times> relay_pc list \<Rightarrow> bool" where
  "consent_inv st \<longleftrightarrow> (case st of (sh, ts) \<Rightarrow>
     sessions_ok (rs_log sh) (sessions (rs_relay sh)) \<and> list_all (pc_ok (rs_log sh)) ts \<and> delivered_ok (rs_log sh))"

lemma consented_more: "consented lg sid i p \<Longrightarrow> consented (lg @ evs) sid i p"
  unfolding consented_def by fastforce

lemma between_more: "between lg sid a b \<Longrightarrow> between (lg @ evs) sid a b"
  unfolding between_def using consented_more by blast

lemma consented_accept: "Requested sid i p \<in> set lg \<Longrightarrow> consented (lg @ [Accepted sid p]) sid i p"
  unfolding consented_def by (metis append_Cons append_assoc split_list)

lemma pc_ok_more: "pc_ok lg pc \<Longrightarrow> pc_ok (lg @ evs) pc"
  by (cases pc) (simp_all add: between_more)

lemma delivered_ok_snoc: "delivered_ok lg \<Longrightarrow> (\<And>sid s o' d. ev = Delivered sid s o' d \<Longrightarrow> between lg sid s o') \<Longrightarrow> delivered_ok (lg @ [ev])"
  unfolding delivered_ok_def by (metis append_butlast_last_id append_eq_append_conv2 butlast_append butlast_snoc last_appendR last_snoc list.discI list.sel(1) append_Nil2 append_self_conv butlast.simps(2) last.simps)

lemma sessions_ok_more: "sessions_ok lg ss \<Longrightarrow> sessions_ok (lg @ evs) ss"
  unfolding sessions_ok_def using consented_more by fastforce

lemma sessions_ok_insert:
  "sessions_ok lg ss \<Longrightarrow> Requested sid (initiator s) (responder s) \<in> set lg \<Longrightarrow>
     (sess_state s = Active \<longrightarrow> consented lg sid (initiator s) (responder s)) \<Longrightarrow> sessions_ok lg (dm_insert sid s ss)"
  by (auto simp: sessions_ok_def)

lemma sessions_ok_remove: "sessions_ok lg ss \<Longrightarrow> sessions_ok lg (dm_remove sid ss)"
  by (auto simp: sessions_ok_def dm_get_remove split: if_splits)

lemma session_between:
  "sessions_ok lg ss \<Longrightarrow> dm_get ss sid = Some s \<Longrightarrow> sess_state s = Active \<Longrightarrow> other_party s sender = Some other \<Longrightarrow> between lg sid sender other"
  by (auto simp: sessions_ok_def between_def other_party_def split: if_splits)

lemma rs_send_keeps:
  "rs_send tx m sh = (e, sh') \<Longrightarrow> rs_relay sh' = rs_relay sh \<and> rs_log sh' = rs_log sh"
  by (auto simp: rs_send_def split: prod.splits sum.splits)

lemma find_peer_keeps: "find_peer pk f sh = (pc, sh') \<Longrightarrow> sh' = sh \<and> (pc = Finished (Some PeerOffline) \<or> (\<exists>tx. pc = f tx))"
  by (auto simp: find_peer_def split: option.splits)

lemma consume_quota_sessions [simp]: "consume_quota ts pk n rm = (r, rm') \<Longrightarrow> sessions rm' = sessions rm"
  by (auto simp: consume_quota_def Let_def split: prod.splits)

text \<open>One step of a task: the log grows, and what it claims stays true.\<close>

lemma relay_next_ok:
  assumes "relay_next cr pc sh = (pc', sh')" and ok: "sessions_ok (rs_log sh) (sessions (rs_relay sh))" "pc_ok (rs_log sh) pc" "delivered_ok (rs_log sh)"
  shows "(\<exists>evs. rs_log sh' = rs_log sh @ evs) \<and> sessions_ok (rs_log sh') (sessions (rs_relay sh')) \<and> pc_ok (rs_log sh') pc' \<and> delivered_ok (rs_log sh')"
proof (cases pc)
  case (ReqFound i p sid tx)
  have "sessions_ok (rs_log sh @ [Requested sid i p]) (dm_insert sid \<lparr>initiator = i, responder = p, sess_state = Pending\<rparr> (sessions (rs_relay sh)))"
    by (rule sessions_ok_insert [OF sessions_ok_more [OF ok(1)]]) simp_all
  moreover have "delivered_ok (rs_log sh @ [Requested sid i p])" by (rule delivered_ok_snoc [OF ok(3)]) simp
  ultimately show ?thesis using assms(1) ReqFound by (auto simp: set_session_def)
next
  case (AccStart p sid)
  show ?thesis
  proof (cases "\<exists>s. dm_get (sessions (rs_relay sh)) sid = Some s \<and> responder s = p \<and> sess_state s = Pending")
    case True
    then obtain s where s: "dm_get (sessions (rs_relay sh)) sid = Some s" "responder s = p" "sess_state s = Pending" by blast
    then have rq: "Requested sid (initiator s) p \<in> set (rs_log sh)" using ok(1) by (auto simp: sessions_ok_def)
    have "sessions_ok (rs_log sh @ [Accepted sid p]) (dm_insert sid (s\<lparr>sess_state := Active\<rparr>) (sessions (rs_relay sh)))"
      by (rule sessions_ok_insert [OF sessions_ok_more [OF ok(1)]]) (use s rq consented_accept [OF rq] in simp_all)
    moreover have "delivered_ok (rs_log sh @ [Accepted sid p])" by (rule delivered_ok_snoc [OF ok(3)]) simp
    ultimately show ?thesis using assms(1) AccStart s by (auto simp: set_session_def)
  qed (use assms AccStart in \<open>auto split: option.splits if_splits\<close>)
next
  case (FwdStart ts sender sid data)
  then show ?thesis using assms session_between [OF ok(1)] by (auto split: option.splits if_splits)
next
  case (FwdFound sender sid data other tx)
  obtain e sh1 where sd: "rs_send tx (RelayData (uuid_text cr sid) sender data) sh = (e, sh1)" by fastforce
  have "delivered_ok (rs_log sh @ [Delivered sid sender other data])"
    by (rule delivered_ok_snoc [OF ok(3)]) (use ok(2) FwdFound in simp)
  then show ?thesis using assms(1) FwdFound sd rs_send_keeps [OF sd] ok sessions_ok_more [OF ok(1)] by (cases e) auto
next
  case (DropRest sids)
  then show ?thesis using assms sessions_ok_remove [OF ok(1)] by (cases sids) auto
qed (use assms in \<open>auto split: prod.splits option.splits sum.splits if_splits dest!: rs_send_keeps find_peer_keeps\<close>)

lemma starting_ok: "starting pc \<Longrightarrow> pc_ok lg pc"
  by (cases pc) simp_all

interpretation relays: transition_system "relay_trans cr" consent_inv for cr
proof
  fix st st'
  assume "relay_trans cr st st'" and "consent_inv st"
  then show "consent_inv st'"
  proof (induction rule: relay_trans.induct)
    case (run i ts sh pc sh')
    then have "pc_ok (rs_log sh) (ts ! i)" by (simp add: consent_inv_def list_all_length)
    with run have "(\<exists>evs. rs_log sh' = rs_log sh @ evs) \<and> sessions_ok (rs_log sh') (sessions (rs_relay sh')) \<and> pc_ok (rs_log sh') pc \<and> delivered_ok (rs_log sh')"
      by (intro relay_next_ok) (auto simp: consent_inv_def)
    moreover from this run have "list_all (pc_ok (rs_log sh')) (ts[i := pc])"
      using pc_ok_more by (auto simp: consent_inv_def list_all_length nth_list_update)
    ultimately show ?case by (simp add: consent_inv_def)
  qed (auto simp: consent_inv_def starting_ok)
qed

lemma consent_inv_init: "rs_relay sh = relay_new \<Longrightarrow> rs_log sh = [] \<Longrightarrow> consent_inv (sh, [])"
  by (simp add: consent_inv_def sessions_ok_def delivered_ok_def relay_new_def)

text \<open>
  (C10) No frame without consent, also when the operations overlap: in every interleaving of requests,
  acceptances, forwards and teardowns, with connections coming and going, each frame that was
  delivered went between the two parties of a session that one of them had asked for and the other
  had accepted before.
\<close>
theorem relay_consent_interleaved:
  assumes "rs_relay sh0 = relay_new" and "rs_log sh0 = []" and "(relay_trans cr)\<^sup>*\<^sup>* (sh0, []) (sh, ts)"
    and "rs_log sh = pre @ Delivered sid sender other data # rest"
  shows "\<exists>a b. (a = sender \<and> b = other \<or> a = other \<and> b = sender) \<and>
    (\<exists>p q r. pre = p @ Requested sid a b # q @ Accepted sid b # r)"
proof -
  have "consent_inv (sh, ts)" using relays.reach_inv [OF assms(3)] consent_inv_init [OF assms(1,2)] .
  then have "between pre sid sender other" using assms(4) by (auto simp: consent_inv_def delivered_ok_def)
  then show ?thesis unfolding between_def consented_def by blast
qed

section \<open>Sessions only advance\<close>

lemma relay_next_session:
  assumes "relay_next cr pc sh = (pc', sh')" and "dm_get (sessions (rs_relay sh)) sid = Some s"
    and "dm_get (sessions (rs_relay sh')) sid = Some s'" and "\<And>i p tx. pc \<noteq> ReqFound i p sid tx"
  shows "initiator s' = initiator s \<and> responder s' = responder s \<and> sess_state s \<le> sess_state s'"
proof (cases pc)
  case (ReqFound i p sid' tx)
  then show ?thesis using assms(1-3) assms(4) [of i p tx] by (auto simp: set_session_def split: if_splits)
next
  case (AccStart p sid')
  then show ?thesis using assms
    by (cases "sid' = sid") (auto simp: set_session_def split: option.splits if_splits)
next
  case (DropRest sids)
  then show ?thesis using assms by (cases sids) (auto simp: dm_get_remove split: if_splits)
qed (use assms in \<open>auto simp: set_session_def split: prod.splits option.splits sum.splits if_splits dest!: rs_send_keeps find_peer_keeps\<close>)

text \<open>
  A step of any task that leaves a session in the table, and does not store a new one under its id,
  keeps its parties and never takes it back from active to pending.
\<close>
theorem session_only_advances:
  assumes "relay_trans cr (sh, ts) (sh', ts')" and "dm_get (sessions (rs_relay sh)) sid = Some s"
    and "dm_get (sessions (rs_relay sh')) sid = Some s'" and "\<And>i p tx. ReqFound i p sid tx \<notin> set ts"
  shows "initiator s' = initiator s \<and> responder s' = responder s \<and> sess_state s \<le> sess_state s'"
proof -
  have "ts ! i \<noteq> ReqFound a p sid tx" if "i < length ts" for i a p tx using assms(4) that by (metis nth_mem)
  with assms(1-3) show ?thesis by (elim relay_transE) (auto dest: relay_next_session)
qed

section \<open>A request that overlaps a teardown\<close>

lemma relay_run_reach:
  "i < length ts \<Longrightarrow> relay_run cr k (ts ! i, sh) = (pc, sh') \<Longrightarrow> (relay_trans cr)\<^sup>*\<^sup>* (sh, ts) (sh', ts[i := pc])"
proof (induction k arbitrary: ts sh)
  case (Suc k)
  obtain pc1 sh1 where step: "relay_next cr (ts ! i) sh = (pc1, sh1)" by fastforce
  with Suc.prems have "relay_trans cr (sh, ts) (sh1, ts[i := pc1])" by (intro relay_trans.run)
  moreover have "(relay_trans cr)\<^sup>*\<^sup>* (sh1, ts[i := pc1]) (sh', (ts[i := pc1])[i := pc])"
    using Suc.prems step by (intro Suc.IH) simp_all
  ultimately show ?case by (simp add: converse_rtranclp_into_rtranclp)
qed (auto simp: list_update_same_conv)

text \<open>
  (C20) A teardown can miss a session: when a peer disconnects between the moment a request for it has
  looked it up and the moment it stores the session, the teardown drops the sessions it finds, both
  operations end, and the new session stays, with a party that is not connected.
\<close>
theorem session_outlives_teardown:
  assumes "reg_get (rs_registry sh) p = Some peer"
  shows "\<exists>sh' r. (relay_trans cr)\<^sup>*\<^sup>* (sh, [ReqStart i p sid]) (sh', [Finished r, Finished None]) \<and>
    reg_get (rs_registry sh') p = None \<and> dm_get (sessions (rs_relay sh')) sid = Some \<lparr>initiator = i, responder = p, sess_state = Pending\<rparr>"
proof -
  let ?stale = "map fst (filter (\<lambda>(k, s). initiator s = p \<or> responder s = p) (sessions (rs_relay sh)))"
  let ?sh1 = "sh\<lparr>rs_registry := snd (reg_remove p (rs_registry sh)), rs_channels := rs_channels sh\<rparr>"
  let ?sh2 = "?sh1\<lparr>rs_relay := (rs_relay sh)\<lparr>sessions := fold dm_remove ?stale (sessions (rs_relay sh))\<rparr>\<rparr>"
  let ?rq = "ReqFound i p sid (ph_tx peer)"
  obtain r sh' where sd: "rs_send (ph_tx peer) (RelayOffer (uuid_text cr sid) i) (snd (relay_next cr ?rq ?sh2)) = (r, sh')"
    by (rule prod.exhaust)
  then have fin: "relay_run cr 2 (?rq, ?sh2) = (Finished r, sh')" by (simp add: numeral_2_eq_2)
  have "(relay_trans cr)\<^sup>*\<^sup>* (sh, [ReqStart i p sid]) (sh, [?rq])"
    using relay_run_reach [of 0 "[ReqStart i p sid]" cr 1 sh ?rq sh] assms by (simp add: find_peer_def)
  also have "(relay_trans cr)\<^sup>*\<^sup>* (sh, [?rq]) (?sh1, [?rq])" by (rule r_into_rtranclp, rule relay_trans.connections)
  also have "(relay_trans cr)\<^sup>*\<^sup>* (?sh1, [?rq]) (?sh1, [?rq, DropStart p])"
    using relay_trans.spawn [of "DropStart p" cr ?sh1 "[?rq]"] by simp
  also have "(relay_trans cr)\<^sup>*\<^sup>* (?sh1, [?rq, DropStart p]) (?sh2, [?rq, Finished None])"
    using relay_run_reach [of 1 "[?rq, DropStart p]" cr "Suc (Suc (length ?stale))" ?sh1 "Finished None" ?sh2] drop_run [of cr ?stale ?sh1] by simp
  also have "(relay_trans cr)\<^sup>*\<^sup>* (?sh2, [?rq, Finished None]) (sh', [Finished r, Finished None])"
    using relay_run_reach [of 0 "[?rq, Finished None]" cr 2 ?sh2 "Finished r" sh'] fin by simp
  finally have "(relay_trans cr)\<^sup>*\<^sup>* (sh, [ReqStart i p sid]) (sh', [Finished r, Finished None])" .
  moreover have "dm_get (sessions (rs_relay sh')) sid = Some \<lparr>initiator = i, responder = p, sess_state = Pending\<rparr>"
    using rs_send_keeps [OF sd] by (simp add: set_session_def)
  moreover have "reg_get (rs_registry sh') p = None"
    using sd by (auto simp: set_session_def rs_send_def reg_remove_def reg_get_def Let_def dm_get_remove split: prod.splits sum.splits option.splits)
  ultimately show ?thesis by blast
qed

section \<open>Examples\<close>

lemma relay_task_reach:
  assumes "starting pc" and "relay_run cr k (pc, sh) = (pc', sh')"
  shows "(relay_trans cr)\<^sup>*\<^sup>* (sh, ts) (sh', ts @ [pc'])"
proof -
  have "relay_trans cr (sh, ts) (sh, ts @ [pc])" using assms(1) by (rule relay_trans.spawn)
  moreover have "(relay_trans cr)\<^sup>*\<^sup>* (sh, ts @ [pc]) (sh', ts @ [pc'])"
    using relay_run_reach [of "length ts" "ts @ [pc]" cr k sh pc' sh'] assms(2) by simp
  ultimately show ?thesis by (rule converse_rtranclp_into_rtranclp)
qed

definition demo_shared :: relay_shared where
  "demo_shared = \<lparr>rs_registry = demo_registry, rs_relay = relay_new, rs_channels = demo_channels, rs_log = []\<rparr>"

lemma small_frame: "\<exists>q'. try_consume 0 4 (quota_new 0 0) = (q', Inr ())"
proof -
  have "tokens (refill 0 (quota_new 0 0)) = 2 ^ 20" by (rule refill_full) (simp add: quota_new_def)
  moreover have "\<not> BYTES_PER_DAY < 4" by (simp add: BYTES_PER_DAY_def)
  ultimately show ?thesis
    by (simp add: try_consume_def u64_as_f64_small quota_new_def)
qed

theorem session_outlives_teardown_witness:
  "\<exists>sh' r. (relay_trans demo_crates)\<^sup>*\<^sup>* (demo_shared, [ReqStart (demo_key CHR ''1'') (demo_key CHR ''2'') 7]) (sh', [Finished r, Finished None]) \<and>
     reg_get (rs_registry sh') (demo_key CHR ''2'') = None \<and> dm_get (sessions (rs_relay sh')) 7 \<noteq> None"
  using session_outlives_teardown [of demo_shared "demo_key CHR ''2''" _ demo_crates "demo_key CHR ''1''" 7] by (fastforce simp: demo_shared_def)

theorem relay_consent_interleaved_witness:
  "\<exists>sh ts pre. (relay_trans demo_crates)\<^sup>*\<^sup>* (demo_shared, []) (sh, ts) \<and>
     rs_log sh = pre @ [Delivered 7 (demo_key CHR ''1'') (demo_key CHR ''2'') ''data''] \<and>
     (\<exists>a b. (\<exists>p q r. pre = p @ Requested 7 a b # q @ Accepted 7 b # r))"
proof -
  let ?a = "demo_key CHR ''1''" and ?b = "demo_key CHR ''2''"
  obtain r1 sh1 where 1: "relay_run demo_crates 3 (ReqStart ?a ?b 7, demo_shared) = (Finished r1, sh1)"
    and sh1: "rs_registry sh1 = demo_registry" "rs_log sh1 = [Requested 7 ?a ?b]" "quotas (rs_relay sh1) = dm_empty"
      "dm_get (sessions (rs_relay sh1)) 7 = Some \<lparr>initiator = ?a, responder = ?b, sess_state = Pending\<rparr>"
      "chan_alive (rs_channels sh1) 1" "chan_alive (rs_channels sh1) 2"
    by (simp add: demo_shared_def relay_task_defs try_send_eq demo_peer_def relay_new_def demo_channels_simps(1) [unfolded One_nat_def])
  obtain r2 sh2 where 2: "relay_run demo_crates 5 (AccStart ?b 7, sh1) = (Finished r2, sh2)"
    and sh2: "rs_registry sh2 = demo_registry" "rs_log sh2 = [Requested 7 ?a ?b, Accepted 7 ?b]" "quotas (rs_relay sh2) = dm_empty"
      "dm_get (sessions (rs_relay sh2)) 7 = Some \<lparr>initiator = ?a, responder = ?b, sess_state = Active\<rparr>"
      "chan_alive (rs_channels sh2) 2"
    using sh1 by (simp add: relay_task_defs try_send_eq demo_peer_def)
  obtain q' where q: "try_consume 0 4 (quota_new 0 0) = (q', Inr ())" using small_frame by blast
  obtain r3 sh3 where 3: "relay_run demo_crates 4 (FwdStart (0, 0, 0) ?a 7 ''data'', sh2) = (Finished r3, sh3)"
    and sh3: "rs_log sh3 = [Requested 7 ?a ?b, Accepted 7 ?b] @ [Delivered 7 ?a ?b ''data'']"
    using sh2 q by (simp add: relay_task_defs try_send_eq demo_peer_def other_party_def consume_quota_def RELAY_MAX_FRAME_def)
  have start: "rs_relay demo_shared = relay_new" "rs_log demo_shared = []" by (simp_all add: demo_shared_def)
  have "(relay_trans demo_crates)\<^sup>*\<^sup>* (demo_shared, []) (sh3, [Finished r1, Finished r2, Finished r3])"
    using relay_task_reach [OF _ 1, of "[]"] relay_task_reach [OF _ 2, of "[Finished r1]"] relay_task_reach [OF _ 3, of "[Finished r1, Finished r2]"]
    by (simp add: rtranclp_trans)
  moreover from relay_consent_interleaved [OF start this sh3]
  have "\<exists>a b. \<exists>p q r. [Requested 7 ?a ?b, Accepted 7 ?b] = p @ Requested 7 a b # q @ Accepted 7 b # r" by blast
  ultimately show ?thesis using sh3 by blast
qed

end
