(* ===== verification/Limiter_Race.thy ===== *)
theory Limiter_Race
  imports Signaling
begin

text \<open>
  \<open>SignalingLimiter\<close> of \<open>src/signaling.rs\<close> with checks running at the same time. \<open>limiter_for\<close> looks the
  key up in the shared map and, when it is not there, stores a new limiter in a second access: a check
  is cut there, and before the limiter itself is consulted, which is one atomic operation of the
  crate. A limiter is shared (\<open>Arc\<close>), so the map holds its number in a list of all limiters made.

  \<open>lim_made\<close> records for whom each limiter was made, \<open>lim_log\<close> every check: for whom, on which limiter, when,
  and whether it passed.
\<close>

record limiter_shared =
  lim_map :: "(string, nat) dashmap"
  lim_objs :: "rate_limiter list"
  lim_made :: "string list"
  lim_log :: "(string \<times> nat \<times> nat \<times> bool) list"

definition limiters_new :: limiter_shared where
  "limiters_new = \<lparr>lim_map = dm_empty, lim_objs = [], lim_made = [], lim_log = []\<rparr>"

datatype limiter_pc = LimStart string | LimMiss string | LimFound string nat | LimDone "unit result"

text \<open>\<open>now\<close> is the reading of the limiter's clock, used by the last step only.\<close>

fun limiter_next :: "crates \<Rightarrow> nat \<Rightarrow> limiter_pc \<Rightarrow> limiter_shared \<Rightarrow> limiter_pc \<times> limiter_shared" where
  "limiter_next cr now (LimStart pk) sh =
     (case dm_get (lim_map sh) pk of Some l \<Rightarrow> (LimFound pk l, sh) | None \<Rightarrow> (LimMiss pk, sh))"
| "limiter_next cr now (LimMiss pk) sh =
     (let l = length (lim_objs sh)
      in (LimFound pk l, sh\<lparr>lim_map := dm_insert pk l (lim_map sh), lim_objs := lim_objs sh @ [\<lparr>per_minute = 100, calls = []\<rparr>],
            lim_made := lim_made sh @ [pk]\<rparr>))"
| "limiter_next cr now (LimFound pk l) sh =
     (let limiter = lim_objs sh ! l; ok = gov_check cr (per_minute limiter) (calls limiter) now
      in (LimDone (if ok then Inr () else Inl RateLimited),
          sh\<lparr>lim_objs := (lim_objs sh)[l := limiter\<lparr>calls := calls limiter @ [now]\<rparr>], lim_log := lim_log sh @ [(pk, l, now, ok)]\<rparr>))"
| "limiter_next cr now (LimDone r) sh = (LimDone r, sh)"

inductive limiter_trans :: "crates \<Rightarrow> limiter_shared \<times> limiter_pc list \<Rightarrow> limiter_shared \<times> limiter_pc list \<Rightarrow> bool" for cr where
  run: "i < length ts \<Longrightarrow> limiter_next cr now (ts ! i) sh = (pc, sh') \<Longrightarrow> limiter_trans cr (sh, ts) (sh', ts[i := pc])"
| spawn: "limiter_trans cr (sh, ts) (sh, ts @ [LimStart pk])"

inductive_cases limiter_transE: "limiter_trans cr st st'"

section \<open>What every limiter keeps to\<close>

text \<open>The checks made on a limiter, in order, and those of them that passed.\<close>

definition checks_on :: "nat \<Rightarrow> (string \<times> nat \<times> nat \<times> bool) list \<Rightarrow> nat list" where
  "checks_on l evs = map (\<lambda>(p, i, n, g). n) (filter (\<lambda>(p, i, n, g). i = l) evs)"

definition passed_on :: "nat \<Rightarrow> (string \<times> nat \<times> nat \<times> bool) list \<Rightarrow> nat list" where
  "passed_on l evs = map (\<lambda>(p, i, n, g). n) (filter (\<lambda>(p, i, n, g). i = l \<and> g) evs)"

definition limiters_for :: "limiter_shared \<Rightarrow> string \<Rightarrow> nat set" where
  "limiters_for sh pk = {l. l < length (lim_made sh) \<and> lim_made sh ! l = pk}"

fun task_ok :: "limiter_shared \<Rightarrow> limiter_pc \<Rightarrow> bool" where
  "task_ok sh (LimFound pk l) = (l \<in> limiters_for sh pk)"
| "task_ok sh _ = True"

definition lim_inv :: "crates \<Rightarrow> limiter_shared \<Rightarrow> bool" where
  "lim_inv cr sh \<longleftrightarrow> length (lim_objs sh) = length (lim_made sh) \<and>
     (\<forall>l < length (lim_objs sh). per_minute (lim_objs sh ! l) = 100 \<and> calls (lim_objs sh ! l) = checks_on l (lim_log sh)) \<and>
     (\<forall>l. passed_on l (lim_log sh) = gov_accepted cr 100 [] (checks_on l (lim_log sh))) \<and>
     (\<forall>pk l. dm_get (lim_map sh) pk = Some l \<longrightarrow> l \<in> limiters_for sh pk) \<and>
     (\<forall>(p, l, n, g) \<in> set (lim_log sh). l \<in> limiters_for sh p)"

lemma checks_snoc [simp]:
  "checks_on l (evs @ [(p, i, n, g)]) = checks_on l evs @ (if i = l then [n] else [])"
  "passed_on l (evs @ [(p, i, n, g)]) = passed_on l evs @ (if i = l \<and> g then [n] else [])"
  by (simp_all add: checks_on_def passed_on_def)

lemma limiters_for_mono: "lim_made sh' = lim_made sh @ ys \<Longrightarrow> l \<in> limiters_for sh pk \<Longrightarrow> l \<in> limiters_for sh' pk"
  by (simp add: limiters_for_def nth_append)

lemma limiter_next_made: "limiter_next cr now pc sh = (pc', sh') \<Longrightarrow> \<exists>ys. lim_made sh' = lim_made sh @ ys"
  by (cases pc) (auto simp: Let_def split: option.splits)

lemma lim_inv_next:
  assumes "limiter_next cr now pc sh = (pc', sh')" and "lim_inv cr sh" and "task_ok sh pc"
  shows "lim_inv cr sh' \<and> task_ok sh' pc'"
proof (cases pc)
  case (LimMiss pk)
  let ?l = "length (lim_objs sh)"
  have log: "checks_on ?l (lim_log sh) = []"
    using assms(2) by (auto simp: lim_inv_def checks_on_def filter_empty_conv limiters_for_def)
  have sh': "pc' = LimFound pk ?l" "sh' = sh\<lparr>lim_map := dm_insert pk ?l (lim_map sh),
      lim_objs := lim_objs sh @ [\<lparr>per_minute = 100, calls = []\<rparr>], lim_made := lim_made sh @ [pk]\<rparr>"
    using assms(1) LimMiss by (auto simp: Let_def)
  show ?thesis
    using assms(2) log unfolding sh' lim_inv_def
    by (auto simp: limiters_for_def nth_append less_Suc_eq split: if_splits)
next
  case (LimFound pk l)
  with assms show ?thesis
    by (auto simp: lim_inv_def limiters_for_def Let_def nth_list_update gov_accepted_append)
qed (use assms in \<open>auto simp: lim_inv_def split: option.splits\<close>)


fun limiters_ok :: "crates \<Rightarrow> limiter_shared \<times> limiter_pc list \<Rightarrow> bool" where
  "limiters_ok cr (sh, ts) = (lim_inv cr sh \<and> (\<forall>pc \<in> set ts. task_ok sh pc))"

lemma task_ok_mono: "lim_made sh' = lim_made sh @ ys \<Longrightarrow> task_ok sh pc \<Longrightarrow> task_ok sh' pc"
  by (cases pc) (auto intro: limiters_for_mono)

interpretation limiters: transition_system "limiter_trans cr" "limiters_ok cr" for cr
proof
  fix s t
  assume "limiter_trans cr s t" and inv: "limiters_ok cr s"
  then show "limiters_ok cr t"
  proof (cases rule: limiter_trans.cases)
    case (run i ts now sh pc sh')
    then have ok: "lim_inv cr sh" "task_ok sh (ts ! i)" "\<forall>pc \<in> set ts. task_ok sh pc" using inv by auto
    obtain ys where "lim_made sh' = lim_made sh @ ys" using limiter_next_made [OF run(4)] by blast
    with lim_inv_next [OF run(4) ok(1,2)] ok(3) show ?thesis
      unfolding run(2) by (auto intro: task_ok_mono dest: set_update_subset_insert [THEN subsetD])
  qed (use inv in auto)
qed

lemma limiters_new_ok: "limiters_ok cr (limiters_new, [])"
  by (simp add: limiters_new_def lim_inv_def checks_on_def passed_on_def)

section \<open>The rate of a key\<close>

text \<open>The checks for a key that passed between two instants.\<close>

definition passed_for :: "string \<Rightarrow> nat \<Rightarrow> nat \<Rightarrow> (string \<times> nat \<times> nat \<times> bool) list \<Rightarrow> nat" where
  "passed_for pk a b evs = length (filter (\<lambda>(p, i, n, g). p = pk \<and> g \<and> a \<le> n \<and> n \<le> b) evs)"

lemma passed_for_sum:
  assumes "finite S" and "\<And>p l n g. (p, l, n, g) \<in> set evs \<Longrightarrow> p = pk \<Longrightarrow> l \<in> S"
  shows "passed_for pk a b evs \<le> (\<Sum>l \<in> S. length (filter (\<lambda>t. a \<le> t \<and> t \<le> b) (passed_on l evs)))"
  using assms(2)
proof (induction evs rule: rev_induct)
  case (snoc ev evs)
  obtain p l n g where ev: "ev = (p, l, n, g)" by (cases ev) auto
  let ?f = "\<lambda>evs l. length (filter (\<lambda>t. a \<le> t \<and> t \<le> b) (passed_on l evs))"
  have le: "?f evs l' \<le> ?f (evs @ [ev]) l'" for l' by (simp add: ev)
  have IH: "passed_for pk a b evs \<le> (\<Sum>l \<in> S. ?f evs l)" using snoc by auto
  show ?case
  proof (cases "p = pk \<and> g \<and> a \<le> n \<and> n \<le> b")
    case True
    then have l: "l \<in> S" using snoc.prems [of p l n g] by (simp add: ev)
    have "(\<Sum>l \<in> S. ?f evs l) < (\<Sum>l \<in> S. ?f (evs @ [ev]) l)"
      by (rule sum_strict_mono_ex1 [OF assms(1)]) (use le l True in \<open>auto simp: ev intro!: bexI [of _ l]\<close>)
    with IH True show ?thesis by (simp add: passed_for_def ev)
  next
    case False
    then have "passed_for pk a b (evs @ [ev]) = passed_for pk a b evs" by (simp add: passed_for_def ev)
    with IH show ?thesis using sum_mono [of S "?f evs" "?f (evs @ [ev])", OF le] by simp
  qed
qed (simp add: passed_for_def)

lemma limiter_rate:
  assumes "gov_rate cr" and "a \<le> b" and "lim_inv cr sh"
  shows "length (filter (\<lambda>t. a \<le> t \<and> t \<le> b) (passed_on l (lim_log sh))) * 60000000000 \<le> 100 * 60000000000 + 100 * (b - a)"
proof -
  have acc: "passed_on l (lim_log sh) = gov_accepted cr 100 [] (checks_on l (lim_log sh))" using assms(3) by (simp add: lim_inv_def)
  show ?thesis unfolding acc using assms(1,2) unfolding gov_rate_def by (meson zero_less_numeral)
qed

text \<open>
  However checks overlap, each limiter keeps to its rate: in any interval a key passes at most 100 checks, and
  100 for each minute of it, for every limiter that was made for the key.
\<close>
theorem overlapping_checks_bound:
  assumes "gov_rate cr" and "a \<le> b" and "(limiter_trans cr)\<^sup>*\<^sup>* (limiters_new, []) (sh, ts)"
  shows "passed_for pk a b (lim_log sh) * 60000000000 \<le>
    card (limiters_for sh pk) * (100 * 60000000000 + 100 * (b - a))"
proof -
  let ?n = "\<lambda>l. length (filter (\<lambda>t. a \<le> t \<and> t \<le> b) (passed_on l (lim_log sh)))"
  have inv: "lim_inv cr sh" using limiters.reach_inv [OF assms(3) limiters_new_ok] by simp
  have fin: "finite (limiters_for sh pk)" by (simp add: limiters_for_def)
  have "passed_for pk a b (lim_log sh) \<le> (\<Sum>l \<in> limiters_for sh pk. ?n l)"
    by (rule passed_for_sum [OF fin]) (use inv in \<open>auto simp: lim_inv_def\<close>)
  then have "passed_for pk a b (lim_log sh) * 60000000000 \<le> (\<Sum>l \<in> limiters_for sh pk. ?n l * 60000000000)"
    by (simp flip: sum_distrib_right)
  also have "\<dots> \<le> (\<Sum>l \<in> limiters_for sh pk. 100 * 60000000000 + 100 * (b - a))"
    by (intro sum_mono limiter_rate [OF assms(1,2) inv])
  finally show ?thesis by simp
qed

section \<open>A key whose limiter is stored\<close>

text \<open>The key has its limiter, and no check that is under way missed it or holds another.\<close>

definition settled :: "string \<Rightarrow> nat \<Rightarrow> limiter_shared \<times> limiter_pc list \<Rightarrow> bool" where
  "settled pk l st \<longleftrightarrow> dm_get (lim_map (fst st)) pk = Some l \<and>
     (\<forall>pc \<in> set (snd st). pc \<noteq> LimMiss pk \<and> (\<forall>l'. pc = LimFound pk l' \<longrightarrow> l' = l))"

definition settled_since :: "string \<Rightarrow> nat \<Rightarrow> limiter_shared \<Rightarrow> limiter_shared \<times> limiter_pc list \<Rightarrow> bool" where
  "settled_since pk l sh0 st \<longleftrightarrow> settled pk l st \<and> limiters_for (fst st) pk = limiters_for sh0 pk \<and>
     (\<exists>evs. lim_log (fst st) = lim_log sh0 @ evs \<and> (\<forall>(p, i, n, g) \<in> set evs. p = pk \<longrightarrow> i = l))"

lemma settled_next:
  assumes "limiter_next cr now pc sh = (pc', sh')" and "settled pk l (sh, [pc])"
  shows "settled pk l (sh', [pc']) \<and> limiters_for sh' pk = limiters_for sh pk \<and>
    (\<exists>evs. lim_log sh' = lim_log sh @ evs \<and> (\<forall>(p, i, n, g) \<in> set evs. p = pk \<longrightarrow> i = l))"
  using assms by (cases pc) (auto simp: settled_def limiters_for_def nth_append less_Suc_eq Let_def split: option.splits)

interpretation settled: transition_system "limiter_trans cr" "settled_since pk l sh0" for cr pk l sh0
proof
  fix s t
  assume "limiter_trans cr s t" and inv: "settled_since pk l sh0 s"
  then show "settled_since pk l sh0 t"
  proof (cases rule: limiter_trans.cases)
    case (run i ts now sh pc sh')
    then have s: "settled pk l (sh, ts)" using inv by (simp add: settled_since_def)
    then have "settled pk l (sh, [ts ! i])" using run(3) nth_mem by (fastforce simp: settled_def)
    note next_ok = settled_next [OF run(4) this]
    then have "settled pk l (sh', ts[i := pc])"
      using s unfolding settled_def by (auto dest: set_update_subset_insert [THEN subsetD])
    with next_ok inv show ?thesis unfolding run(1,2) settled_since_def by fastforce
  qed (use inv in \<open>auto simp: settled_since_def settled_def\<close>)
qed



section \<open>Alone, a check is the check of the sequential model\<close>

fun limiter_run :: "crates \<Rightarrow> nat list \<Rightarrow> limiter_pc \<times> limiter_shared \<Rightarrow> limiter_pc \<times> limiter_shared" where
  "limiter_run cr [] st = st"
| "limiter_run cr (now # nows) st = limiter_run cr nows (limiter_next cr now (fst st) (snd st))"

definition same_limits :: "limiter_shared \<Rightarrow> signaling_limiter \<Rightarrow> bool" where
  "same_limits sh lm \<longleftrightarrow> (\<forall>pk. dm_get lm pk = map_option (\<lambda>l. lim_objs sh ! l) (dm_get (lim_map sh) pk))"

lemma lim_inv_map: "lim_inv cr sh \<Longrightarrow> dm_get (lim_map sh) pk = Some l \<Longrightarrow> l < length (lim_objs sh) \<and> lim_made sh ! l = pk"
  by (auto simp: lim_inv_def limiters_for_def)

text \<open>
  The steps of a check that no other task interrupts answer what the sequential check answers, with the
  clock read at the last of them, and leave the same limits for every key.
\<close>
theorem lone_check:
  assumes "lim_inv cr sh" and "same_limits sh lm"
  shows "let n = (if dm_get lm pk = None then [t, t, now] else [t, now]);
             (pc, sh') = limiter_run cr n (LimStart pk, sh); (r, lm') = limiter_check cr now pk lm
         in pc = LimDone r \<and> same_limits sh' lm'"
proof (cases "dm_get (lim_map sh) pk")
  case None
  have "l \<noteq> length (lim_objs sh) \<and> l < length (lim_objs sh)" if "dm_get (lim_map sh) pk' = Some l" for pk' l
    using lim_inv_map [OF assms(1) that] by simp
  with None assms(2) show ?thesis
    by (auto simp: same_limits_def limiter_check_def limiter_for_def Let_def nth_append nth_list_update intro!: option.map_cong0)
next
  case (Some l)
  have lm: "dm_get lm pk = Some (lim_objs sh ! l)" using assms(2) Some by (simp add: same_limits_def)
  have "same_limits (sh\<lparr>lim_objs := (lim_objs sh)[l := o'], lim_log := evs\<rparr>) (dm_insert pk o' lm)" for o' evs
    unfolding same_limits_def
  proof
    fix pk'
    show "dm_get (dm_insert pk o' lm) pk' = map_option (\<lambda>i. lim_objs (sh\<lparr>lim_objs := (lim_objs sh)[l := o'], lim_log := evs\<rparr>) ! i)
        (dm_get (lim_map (sh\<lparr>lim_objs := (lim_objs sh)[l := o'], lim_log := evs\<rparr>)) pk')"
      using lim_inv_map [OF assms(1) Some] lim_inv_map [OF assms(1), of pk'] assms(2) Some
      by (cases "pk' = pk"; cases "dm_get (lim_map sh) pk'") (auto simp: same_limits_def nth_list_update)
  qed
  with Some lm show ?thesis by (simp add: limiter_check_def limiter_for_def Let_def)
qed


section \<open>The race\<close>

text \<open>A new limiter passes its whole burst at once.\<close>

definition gov_burst :: "crates \<Rightarrow> bool" where
  "gov_burst cr \<longleftrightarrow> (\<forall>n t k. k < n \<longrightarrow> gov_check cr n (replicate k t) t)"

lemma one_runs:
  "limiter_next cr now pc sh = (pc', sh') \<Longrightarrow> limiter_trans cr (sh, xs @ pc # ys) (sh', xs @ pc' # ys)"
  using limiter_trans.run [where i = "length xs" and ts = "xs @ pc # ys"] by simp

lemma checks_in_turn:
  assumes "gov_burst cr" and "dm_get (lim_map sh) pk = Some l" and "l < length (lim_objs sh)"
    and "lim_objs sh ! l = \<lparr>per_minute = 100, calls = replicate k t\<rparr>" and "k + m \<le> 100"
  shows "(limiter_trans cr)\<^sup>*\<^sup>* (sh, ts)
    (sh\<lparr>lim_objs := (lim_objs sh)[l := \<lparr>per_minute = 100, calls = replicate (k + m) t\<rparr>], lim_log := lim_log sh @ replicate m (pk, l, t, True)\<rparr>,
     ts @ replicate m (LimDone (Inr ())))"
  using assms(5)
proof (induction m)
  case 0
  have "(lim_objs sh)[l := \<lparr>per_minute = 100, calls = replicate k t\<rparr>] = lim_objs sh"
    using assms(4) list_update_id [of "lim_objs sh" l] by simp
  then show ?case by simp
next
  case (Suc m)
  let ?sh = "\<lambda>m. sh\<lparr>lim_objs := (lim_objs sh)[l := \<lparr>per_minute = 100, calls = replicate (k + m) t\<rparr>],
      lim_log := lim_log sh @ replicate m (pk, l, t, True)\<rparr>"
  let ?ts = "ts @ replicate m (LimDone (Inr ()))"
  have ok: "gov_check cr 100 (replicate (k + m) t) t" using assms(1) Suc.prems by (simp add: gov_burst_def)
  have 1: "limiter_trans cr (?sh m, ?ts) (?sh m, ?ts @ [LimStart pk])" by (rule limiter_trans.spawn)
  have 2: "limiter_trans cr (?sh m, ?ts @ [LimStart pk]) (?sh m, ?ts @ [LimFound pk l])"
    by (rule one_runs [where now = t]) (simp add: assms(2))
  have 3: "limiter_trans cr (?sh m, ?ts @ [LimFound pk l]) (?sh (Suc m), ?ts @ [LimDone (Inr ())])"
    by (rule one_runs [where now = t]) (simp add: assms(3) ok Let_def replicate_append_same)
  have "(limiter_trans cr)\<^sup>*\<^sup>* (sh, ts) (?sh m, ?ts)" using Suc by simp
  from this 1 2 3 have "(limiter_trans cr)\<^sup>*\<^sup>* (sh, ts) (?sh (Suc m), ?ts @ [LimDone (Inr ())])"
    by (blast intro: rtranclp.rtrancl_into_rtrancl)
  moreover have "?ts @ [LimDone (Inr ())] = ts @ replicate (Suc m) (LimDone (Inr ()))" by (simp add: replicate_append_same)
  ultimately show ?case by simp
qed


lemma race_first:
  assumes "gov_burst cr"
  shows "\<exists>sh ts. (limiter_trans cr)\<^sup>*\<^sup>* (limiters_new, []) (sh, LimDone (Inr ()) # LimMiss pk # ts) \<and>
    length (lim_objs sh) = 1 \<and> lim_made sh = [pk] \<and> lim_log sh = replicate 100 (pk, 0, t, True)"
proof -
  let ?new = "\<lparr>lim_map = dm_insert pk 0 dm_empty, lim_objs = [\<lparr>per_minute = 100, calls = []\<rparr>], lim_made = [pk], lim_log = []\<rparr>"
  let ?one = "?new\<lparr>lim_objs := [\<lparr>per_minute = 100, calls = [t]\<rparr>], lim_log := [(pk, 0, t, True)]\<rparr>"
  have b: "gov_check cr 100 [] t" using assms unfolding gov_burst_def by (metis replicate_0 zero_less_numeral)
  have "(limiter_trans cr)\<^sup>*\<^sup>* (limiters_new, []) (limiters_new, [])" by simp
  also have "limiter_trans cr (limiters_new, []) (limiters_new, [LimStart pk])"
    using limiter_trans.spawn [where ts = "[]"] by simp
  also have "limiter_trans cr (limiters_new, [LimStart pk]) (limiters_new, [LimStart pk, LimStart pk])"
    using limiter_trans.spawn [where ts = "[LimStart pk]"] by simp
  also have "limiter_trans cr (limiters_new, [LimStart pk, LimStart pk]) (limiters_new, [LimMiss pk, LimStart pk])"
    using one_runs [where xs = "[]" and cr = cr and now = t] by (simp add: limiters_new_def)
  also have "limiter_trans cr (limiters_new, [LimMiss pk, LimStart pk]) (limiters_new, [LimMiss pk, LimMiss pk])"
    using one_runs [where xs = "[LimMiss pk]" and ys = "[]" and cr = cr and now = t] by (simp add: limiters_new_def)
  also have "limiter_trans cr (limiters_new, [LimMiss pk, LimMiss pk]) (?new, [LimFound pk 0, LimMiss pk])"
    using one_runs [where xs = "[]" and cr = cr and now = t] by (simp add: limiters_new_def)
  also have "limiter_trans cr (?new, [LimFound pk 0, LimMiss pk]) (?one, [LimDone (Inr ()), LimMiss pk])"
    using one_runs [where xs = "[]" and cr = cr and now = t] b by simp
  finally have one: "(limiter_trans cr)\<^sup>*\<^sup>* (limiters_new, []) (?one, [LimDone (Inr ()), LimMiss pk])" .
  have "(limiter_trans cr)\<^sup>*\<^sup>* (?one, [LimDone (Inr ()), LimMiss pk])
      (?one\<lparr>lim_objs := (lim_objs ?one)[0 := \<lparr>per_minute = 100, calls = replicate (1 + 99) t\<rparr>],
         lim_log := lim_log ?one @ replicate 99 (pk, 0, t, True)\<rparr>, [LimDone (Inr ()), LimMiss pk] @ replicate 99 (LimDone (Inr ())))"
    by (rule checks_in_turn [OF assms]) simp_all
  from rtranclp_trans [OF one this] have run: "(limiter_trans cr)\<^sup>*\<^sup>* (limiters_new, [])
      (?one\<lparr>lim_objs := (lim_objs ?one)[0 := \<lparr>per_minute = 100, calls = replicate (1 + 99) t\<rparr>],
         lim_log := lim_log ?one @ replicate 99 (pk, 0, t, True)\<rparr>, [LimDone (Inr ()), LimMiss pk] @ replicate 99 (LimDone (Inr ())))" .
  have "100 = Suc 99" by simp
  then have "lim_log ?one @ replicate 99 (pk, 0, t, True) = replicate 100 (pk, 0, t, True)" by (simp only: replicate_Suc) simp
  with run show ?thesis by fastforce
qed

lemma race_second:
  assumes "gov_burst cr" and "length (lim_objs sh) = 1" and "lim_made sh = [pk]"
  shows "\<exists>sh' ts'. (limiter_trans cr)\<^sup>*\<^sup>* (sh, x # LimMiss pk # ts) (sh', ts') \<and>
    lim_made sh' = [pk, pk] \<and> lim_log sh' = lim_log sh @ replicate 100 (pk, 1, t, True)"
proof -
  let ?new = "sh\<lparr>lim_map := dm_insert pk 1 (lim_map sh), lim_objs := lim_objs sh @ [\<lparr>per_minute = 100, calls = []\<rparr>], lim_made := [pk, pk]\<rparr>"
  have "limiter_trans cr (sh, x # LimMiss pk # ts) (?new, x # LimFound pk 1 # ts)"
    using one_runs [where xs = "[x]" and cr = cr and now = t] assms(2,3) by (simp add: Let_def)
  also have "(limiter_trans cr)\<^sup>*\<^sup>* (?new, x # LimFound pk 1 # ts)
      (?new\<lparr>lim_objs := (lim_objs ?new)[1 := \<lparr>per_minute = 100, calls = replicate (0 + 100) t\<rparr>],
         lim_log := lim_log ?new @ replicate 100 (pk, 1, t, True)\<rparr>, (x # LimFound pk 1 # ts) @ replicate 100 (LimDone (Inr ())))"
    by (rule checks_in_turn [OF assms(1)]) (simp_all add: assms(2) nth_append)
  finally show ?thesis by (intro exI conjI) auto
qed

lemma race_run:
  assumes "gov_burst cr"
  shows "\<exists>sh ts. (limiter_trans cr)\<^sup>*\<^sup>* (limiters_new, []) (sh, ts) \<and> passed_for pk t t (lim_log sh) = 200 \<and>
    card (limiters_for sh pk) = 2"
proof -
  obtain sh ts where 1: "(limiter_trans cr)\<^sup>*\<^sup>* (limiters_new, []) (sh, LimDone (Inr ()) # LimMiss pk # ts)"
    "length (lim_objs sh) = 1" "lim_made sh = [pk]" "lim_log sh = replicate 100 (pk, 0, t, True)"
    using race_first [OF assms] by blast
  obtain sh' ts' where 2: "(limiter_trans cr)\<^sup>*\<^sup>* (sh, LimDone (Inr ()) # LimMiss pk # ts) (sh', ts')"
    "lim_made sh' = [pk, pk]" "lim_log sh' = lim_log sh @ replicate 100 (pk, 1, t, True)"
    using race_second [OF assms 1(2,3)] by blast
  have "limiters_for sh' pk = {0, 1}" using 2(2) by (auto simp: limiters_for_def less_Suc_eq)
  moreover have "passed_for pk t t (lim_log sh') = 200" by (simp add: 2(3) 1(4) passed_for_def)
  ultimately show ?thesis using rtranclp_trans [OF 1(1) 2(1)] by auto
qed

text \<open>
  (C19) Two first signals of a key that overlap void its limit: both miss the map, each stores a limiter, the
  second replaces the first and with it the count so far. A key can pass 200 checks at one instant,
  twice what the limit allows.
\<close>
theorem overlapping_first_signals:
  assumes "gov_burst cr"
  shows "\<exists>sh ts. (limiter_trans cr)\<^sup>*\<^sup>* (limiters_new, []) (sh, ts) \<and> passed_for pk t t (lim_log sh) = 200 \<and>
    card (limiters_for sh pk) = 2"
  using assms by (rule race_run)

lemma gcra_burst: "k \<le> n \<Longrightarrow> gcra_state n (replicate k t) = (if k = 0 then 0 else n * t + k * 60000000000)"
proof (induction k)
  case (Suc k)
  have "gcra_state n (replicate (Suc k) t) = snd (gcra n (gcra_state n (replicate k t)) t)"
    by (simp add: gcra_state_def flip: replicate_append_same)
  with Suc show ?case by (auto simp: gcra_def)
qed (simp add: gcra_state_def)

lemma demo_gov_burst: "gov_burst demo_crates"
  by (auto simp: gov_burst_def gcra_burst gcra_def)

theorem overlapping_first_signals_witness:
  "\<exists>sh ts. (limiter_trans demo_crates)\<^sup>*\<^sup>* (limiters_new, []) (sh, ts) \<and> passed_for ''k'' 5 5 (lim_log sh) = 200"
  using overlapping_first_signals [OF demo_gov_burst] by blast

theorem overlapping_checks_bound_witness:
  "\<exists>sh ts. (limiter_trans demo_crates)\<^sup>*\<^sup>* (limiters_new, []) (sh, ts) \<and> passed_for ''k'' 5 60000000005 (lim_log sh) \<le> 400"
proof -
  obtain sh ts where r: "(limiter_trans demo_crates)\<^sup>*\<^sup>* (limiters_new, []) (sh, ts)" "card (limiters_for sh ''k'') = 2"
    using race_run [OF demo_gov_burst] by blast
  from overlapping_checks_bound [OF demo_gov_rate _ r(1), of 5 60000000005 "''k''"] r show ?thesis by auto
qed

theorem lone_check_witness:
  "fst (limiter_run demo_crates [0, 0, 7] (LimStart ''k'', limiters_new)) = LimDone (fst (limiter_check demo_crates 7 ''k'' limiter_new))"
proof -
  have "lim_inv demo_crates limiters_new" "same_limits limiters_new limiter_new" "dm_get limiter_new ''k'' = None"
    using limiters_new_ok by (simp_all add: same_limits_def limiters_new_def limiter_new_def)
  from lone_check [OF this(1,2), of "''k''" 0 7] this(3) show ?thesis by (auto simp: split_beta Let_def)
qed


end
