(* ===== verification/Presence_Concurrent.thy ===== *)
theory Presence_Concurrent
  imports Presence
begin

text \<open>
  The presence service of \<open>src/presence.rs\<close> with its operations running at the same time. An operation is
  cut at every access to a shared map. \<open>subscribe\<close> and \<open>unsubscribe\<close> keep the guard of the subscriber's
  entry until they return, so the set behind it changes together with the access to \<open>watchers\<close> that
  follows; another operation on that entry waits. Any number of operations run in any interleaving,
  and new ones start at any time.
\<close>

datatype presence_pc =
    SubStart string "string list"
  | SubLoop string "string list"
  | UnsubStart string "string list"
  | UnsubLoop string "string list"
  | UnsubEmpty string string "string list"
  | ClearStart string
  | ClearLoop string "string list"
  | ClearEmpty string string "string list"
  | PresDone

text \<open>\<open>get_mut(t)\<close>, \<open>remove(subscriber)\<close> and \<open>is_empty()\<close>, under the guard of the entry of \<open>t\<close>: whether it is empty now.\<close>

definition take_out :: "string \<Rightarrow> string \<Rightarrow> presence_manager \<Rightarrow> bool \<times> presence_manager" where
  "take_out s t pm =
     (case dm_get (watchers pm) t of
        None \<Rightarrow> (False, pm)
      | Some w \<Rightarrow> let w' = hs_remove s w in (w' = [], pm\<lparr>watchers := dm_insert t w' (watchers pm)\<rparr>))"

definition set_subs :: "string \<Rightarrow> (string list \<Rightarrow> string list) \<Rightarrow> presence_manager \<Rightarrow> presence_manager" where
  "set_subs s f pm = pm\<lparr>subscriptions := dm_insert s (f (or_default (dm_get (subscriptions pm) s))) (subscriptions pm)\<rparr>"

definition drop_entry :: "string \<Rightarrow> presence_manager \<Rightarrow> presence_manager" where
  "drop_entry t pm = pm\<lparr>watchers := dm_remove t (watchers pm)\<rparr>"

fun presence_next :: "presence_pc \<Rightarrow> presence_manager \<Rightarrow> presence_pc \<times> presence_manager" where
  "presence_next (SubStart s ts) pm = (SubLoop s ts, set_subs s id pm)"
| "presence_next (SubLoop s []) pm = (PresDone, pm)"
| "presence_next (SubLoop s (t # ts)) pm =
     (let pm1 = set_subs s (hs_insert t) pm
      in (SubLoop s ts, pm1\<lparr>watchers := dm_insert t (hs_insert s (or_default (dm_get (watchers pm1) t))) (watchers pm1)\<rparr>))"
| "presence_next (UnsubStart s ts) pm =
     (case dm_get (subscriptions pm) s of None \<Rightarrow> (PresDone, pm) | Some _ \<Rightarrow> (UnsubLoop s ts, pm))"
| "presence_next (UnsubLoop s []) pm = (PresDone, pm)"
| "presence_next (UnsubLoop s (t # ts)) pm =
     (case take_out s t (set_subs s (hs_remove t) pm) of
        (True, pm1) \<Rightarrow> (UnsubEmpty s t ts, pm1) | (False, pm1) \<Rightarrow> (UnsubLoop s ts, pm1))"
| "presence_next (UnsubEmpty s t ts) pm = (UnsubLoop s ts, drop_entry t pm)"
| "presence_next (ClearStart s) pm =
     (case dm_get (subscriptions pm) s of
        None \<Rightarrow> (PresDone, pm)
      | Some targets \<Rightarrow> (ClearLoop s targets, pm\<lparr>subscriptions := dm_remove s (subscriptions pm)\<rparr>))"
| "presence_next (ClearLoop s []) pm = (PresDone, pm)"
| "presence_next (ClearLoop s (t # ts)) pm =
     (case take_out s t pm of (True, pm1) \<Rightarrow> (ClearEmpty s t ts, pm1) | (False, pm1) \<Rightarrow> (ClearLoop s ts, pm1))"
| "presence_next (ClearEmpty s t ts) pm = (ClearLoop s ts, drop_entry t pm)"
| "presence_next PresDone pm = (PresDone, pm)"

text \<open>The subscriber whose entry a task holds, and the one whose entry its next step needs.\<close>

fun holds :: "presence_pc \<Rightarrow> string option" where
  "holds (SubLoop s ts) = Some s"
| "holds (UnsubLoop s ts) = Some s"
| "holds (UnsubEmpty s t ts) = Some s"
| "holds _ = None"

fun needs :: "presence_pc \<Rightarrow> string option" where
  "needs (SubStart s ts) = Some s"
| "needs (UnsubStart s ts) = Some s"
| "needs (ClearStart s) = Some s"
| "needs _ = None"

definition may_run :: "presence_pc list \<Rightarrow> presence_pc \<Rightarrow> bool" where
  "may_run ts pc \<longleftrightarrow> (case needs pc of None \<Rightarrow> True | Some s \<Rightarrow> list_all (\<lambda>d. holds d \<noteq> Some s) ts)"

inductive presence_trans :: "presence_manager \<times> presence_pc list \<Rightarrow> presence_manager \<times> presence_pc list \<Rightarrow> bool" where
  run: "i < length ts \<Longrightarrow> may_run ts (ts ! i) \<Longrightarrow> presence_next (ts ! i) pm = (pc, pm') \<Longrightarrow>
    presence_trans (pm, ts) (pm', ts[i := pc])"
| spawn: "needs pc \<noteq> None \<Longrightarrow> presence_trans (pm, ts) (pm, ts @ [pc])"

section \<open>Nobody is told without having asked\<close>

text \<open>The pairs that a teardown in progress will still take out of \<open>watchers\<close>.\<close>

fun pending :: "presence_pc \<Rightarrow> (string \<times> string) set" where
  "pending (ClearLoop s ts) = {s} \<times> set ts"
| "pending (ClearEmpty s t ts) = {s} \<times> set ts"
| "pending _ = {}"

definition watch_pairs :: "presence_manager \<Rightarrow> (string \<times> string) set" where
  "watch_pairs pm = {(s, t). s \<in> set (watchers_of pm t)}"

fun no_ghosts :: "presence_manager \<times> presence_pc list \<Rightarrow> bool" where
  "no_ghosts (pm, ts) \<longleftrightarrow> watch_pairs pm \<subseteq> watches pm \<union> \<Union> (pending ` set ts)"

lemma pairs_set_subs [simp]:
  "watch_pairs (set_subs s f pm) = watch_pairs pm"
  "watches (set_subs s f pm) = (watches pm - {s} \<times> UNIV) \<union> {s} \<times> set (f (subs_of pm s))"
  by (auto simp: watch_pairs_def watchers_of_def watches_def set_subs_def subs_of_def split: if_splits)

lemma pairs_take_out:
  "take_out s t pm = (e, pm') \<Longrightarrow> watch_pairs pm' = watch_pairs pm - {(s, t)} \<and> watches pm' = watches pm"
  by (auto simp: take_out_def Let_def hs_remove_Nil watch_pairs_def watchers_of_def watches_def subs_of_def
      split: option.splits if_splits)

lemma pairs_drop_entry [simp]:
  "watch_pairs (drop_entry t pm) = watch_pairs pm - UNIV \<times> {t}" "watches (drop_entry t pm) = watches pm"
  by (auto simp: drop_entry_def watch_pairs_def watchers_of_def watches_def subs_of_def split: if_splits)

lemma pairs_watch:
  "watch_pairs (pm\<lparr>watchers := dm_insert t (hs_insert s (or_default (dm_get (watchers pm) t))) (watchers pm)\<rparr>) = insert (s, t) (watch_pairs pm)"
  "watches (pm\<lparr>watchers := ws\<rparr>) = watches pm"
  by (auto simp: watch_pairs_def watchers_of_def watches_def subs_of_def split: if_splits)

lemma subs_of_mem: "t \<in> set (subs_of pm s) \<longleftrightarrow> (s, t) \<in> watches pm"
  by (simp add: watches_def)

lemma next_no_ghosts:
  assumes "presence_next pc pm = (pc', pm')"
  shows "watch_pairs pm' - watches pm' - pending pc' \<subseteq> watch_pairs pm - watches pm - pending pc"
  using assms
proof (induction pc pm rule: presence_next.induct)
  case (6 s t ts pm)
  obtain e pm1 where e: "take_out s t (set_subs s (hs_remove t) pm) = (e, pm1)" by fastforce
  note sets = pairs_take_out [OF e, simplified]
  have "pm' = pm1" "pending pc' = {}" using 6 e by (auto split: bool.splits)
  with sets show ?case by (auto simp: subs_of_mem)
next
  case (8 s pm)
  have "watches (pm\<lparr>subscriptions := dm_remove s (subscriptions pm)\<rparr>) = watches pm - {s} \<times> UNIV"
    "watch_pairs (pm\<lparr>subscriptions := dm_remove s (subscriptions pm)\<rparr>) = watch_pairs pm"
    by (auto simp: watches_def subs_of_def watch_pairs_def watchers_of_def split: if_splits)
  with 8 show ?case by (auto simp: watches_def subs_of_def split: option.splits if_splits)
next
  case (10 s t ts pm)
  obtain e pm1 where e: "take_out s t pm = (e, pm1)" by fastforce
  have "pm' = pm1" "pending pc' = {s} \<times> set ts" using 10 e by (auto split: bool.splits)
  with pairs_take_out [OF e] show ?case by auto
qed (auto simp: subs_of_mem Let_def pairs_watch split: option.splits)

lemma ghosts_arith:
  "W' - S' - P' \<subseteq> W - S - P \<Longrightarrow> U \<subseteq> P \<union> U' \<Longrightarrow> P' \<subseteq> U' \<Longrightarrow> W \<subseteq> S \<union> U \<Longrightarrow> W' \<subseteq> S' \<union> U'"
  by blast

interpretation presence_tasks: transition_system presence_trans no_ghosts
proof
  fix a b
  assume "presence_trans a b" and inv: "no_ghosts a"
  then show "no_ghosts b"
  proof (cases rule: presence_trans.cases)
    case (run i ts pm pc pm')
    have "watch_pairs pm' - watches pm' - pending pc \<subseteq> watch_pairs pm - watches pm - pending (ts ! i)"
      by (rule next_no_ghosts [OF run(5)])
    moreover have "\<Union> (pending ` set ts) \<subseteq> pending (ts ! i) \<union> \<Union> (pending ` set (ts[i := pc]))"
    proof -
      have "ts ! j \<in> set (ts[i := pc])" if "j < length ts" "j \<noteq> i" for j
        using that by (metis length_list_update nth_list_update_neq nth_mem)
      then show ?thesis by (fastforce simp: in_set_conv_nth)
    qed
    moreover have "pending pc \<subseteq> \<Union> (pending ` set (ts[i := pc]))" using run(3) by (auto intro!: set_update_memI)
    ultimately show ?thesis using inv unfolding run(1,2) no_ghosts.simps by (rule ghosts_arith)
  next
    case (spawn pc pm ts)
    then show ?thesis using inv by auto
  qed
qed

text \<open>
  (C21) However the operations overlap, a presence change is told only to those who asked: when subscriptions and
  teardowns have run in any interleaving and a broadcast reads the index, a channel gets something only if it is
  that of a connected peer who is subscribed, or whose teardown is in progress and has yet to take this entry out; when no operation is
  in progress, only if the peer is subscribed.
\<close>
theorem told_only_if_subscribed:
  assumes "presence_trans\<^sup>*\<^sup>* (presence_new, []) (pm, ts)" and "chan_log (broadcast pm r t online cs) j \<noteq> chan_log cs j"
  shows "\<exists>s p. reg_get r s = Some p \<and> ph_tx p = j \<and> (t \<in> set (subs_of pm s) \<or> (\<exists>pc \<in> set ts. (s, t) \<in> pending pc)) \<and>
    (set ts \<subseteq> {PresDone} \<longrightarrow> t \<in> set (subs_of pm s))"
proof -
  have "no_ghosts (presence_new, [])" by (simp add: watch_pairs_def watchers_of_def presence_new_def)
  from presence_tasks.reach_inv [OF assms(1) this]
  have asked: "t \<in> set (subs_of pm s) \<or> (\<exists>pc \<in> set ts. (s, t) \<in> pending pc)" if "s \<in> set (watchers_of pm t)" for s
    using that by (auto simp: watch_pairs_def watches_def)
  from assms(2) have "j \<in> set (broadcast_targets r (watchers_of pm t))"
    by (auto simp: chan_log_broadcast count_list_0_iff split: if_splits)
  then obtain s p where s: "s \<in> set (watchers_of pm t)" "reg_get r s = Some p" "ph_tx p = j" by (auto simp: set_broadcast_targets)
  have "t \<in> set (subs_of pm s)" if "set ts \<subseteq> {PresDone}" using asked [OF s(1)] that by auto
  with s asked [OF s(1)] show ?thesis by blast
qed

section \<open>Alone, a task is the operation\<close>

fun presence_run :: "nat \<Rightarrow> presence_pc \<times> presence_manager \<Rightarrow> presence_pc \<times> presence_manager" where
  "presence_run 0 st = st"
| "presence_run (Suc k) st = presence_run k (presence_next (fst st) (snd st))"

definition runs_to :: "presence_pc \<Rightarrow> presence_manager \<Rightarrow> presence_manager \<Rightarrow> bool" where
  "runs_to pc pm pm' \<longleftrightarrow> (\<exists>k. presence_run k (pc, pm) = (PresDone, pm'))"

lemma runs_to_done [simp]: "runs_to PresDone pm pm"
  unfolding runs_to_def by (rule exI [of _ 0]) simp

lemma runs_to_step: "presence_next pc pm = (pc1, pm1) \<Longrightarrow> runs_to pc1 pm1 pm' \<Longrightarrow> runs_to pc pm pm'"
  unfolding runs_to_def by (metis fst_conv presence_run.simps(2) snd_conv)

text \<open>The same entries in both maps.\<close>

definition same_entries :: "presence_manager \<Rightarrow> presence_manager \<Rightarrow> bool" where
  "same_entries pm pm' \<longleftrightarrow> (\<forall>k. dm_get (subscriptions pm) k = dm_get (subscriptions pm') k \<and> dm_get (watchers pm) k = dm_get (watchers pm') k)"

lemma dm_remove_insert [simp]: "dm_remove k (dm_insert k v m) = dm_remove k m" "dm_insert k v (dm_insert k w m) = dm_insert k v m"
  by (simp_all add: dm_insert_def dm_remove_def)

lemma take_out_drop:
  "take_out s t pm = (e, pm1) \<Longrightarrow> (if e then drop_entry t pm1 else pm1) = pm\<lparr>watchers := drop_watcher s t (watchers pm)\<rparr>"
  by (auto simp: take_out_def drop_entry_def drop_watcher_def Let_def split: option.splits if_splits)

lemma clear_loop_runs: "runs_to (ClearLoop s ts) pm (pm\<lparr>watchers := fold (drop_watcher s) ts (watchers pm)\<rparr>)"
proof (induction ts arbitrary: pm)
  case (Cons t ts)
  obtain e pm1 where e: "take_out s t pm = (e, pm1)" by fastforce
  have IH: "runs_to (ClearLoop s ts) (pm\<lparr>watchers := drop_watcher s t (watchers pm)\<rparr>)
      (pm\<lparr>watchers := fold (drop_watcher s) (t # ts) (watchers pm)\<rparr>)"
    using Cons [of "pm\<lparr>watchers := drop_watcher s t (watchers pm)\<rparr>"] by simp
  show ?case
    using e take_out_drop [OF e] IH by (cases e) (auto intro: runs_to_step [OF _ runs_to_step] runs_to_step)
qed (auto intro: runs_to_step)


lemma eq_rhs: "runs_to pc pm pm1 \<Longrightarrow> pm1 = pm2 \<Longrightarrow> runs_to pc pm pm2"
  by simp

lemma runs_to_same:
  assumes "presence_next pc pm = presence_next pc pm2" and "runs_to pc pm2 pm'" and "pc \<noteq> PresDone"
  shows "runs_to pc pm pm'"
proof -
  from assms(2) obtain k where k: "presence_run k (pc, pm2) = (PresDone, pm')" unfolding runs_to_def by blast
  with assms(3) obtain k' where "k = Suc k'" by (cases k) auto
  with k assms(1) have "presence_run k (pc, pm) = (PresDone, pm')" by simp
  then show ?thesis unfolding runs_to_def by blast
qed

lemma presence_swap: "pm\<lparr>watchers := w, subscriptions := x\<rparr> = pm\<lparr>subscriptions := x, watchers := w\<rparr>"
  by (cases pm) simp

lemma sub_loop_runs:
  "runs_to (SubLoop s ts) (pm\<lparr>subscriptions := dm_insert s subs0 (subscriptions pm)\<rparr>)
     (case subscribe_loop s ts (subs0, watchers pm) of (subs, ws) \<Rightarrow>
        pm\<lparr>subscriptions := dm_insert s subs (subscriptions pm), watchers := ws\<rparr>)"
proof (induction ts arbitrary: pm subs0)
  case (Cons t ts)
  let ?pm = "pm\<lparr>watchers := dm_insert t (hs_insert s (or_default (dm_get (watchers pm) t))) (watchers pm)\<rparr>"
  have "presence_next (SubLoop s (t # ts)) (pm\<lparr>subscriptions := dm_insert s subs0 (subscriptions pm)\<rparr>) =
      (SubLoop s ts, ?pm\<lparr>subscriptions := dm_insert s (hs_insert t subs0) (subscriptions ?pm)\<rparr>)"
    by (simp add: set_subs_def Let_def presence_swap)
  from runs_to_step [OF this Cons [where pm = ?pm and ?subs0.0 = "hs_insert t subs0"]] show ?case by (simp add: presence_swap split_beta)
qed (auto intro: runs_to_step)

lemma unsub_loop_runs:
  "runs_to (UnsubLoop s ts) (pm\<lparr>subscriptions := dm_insert s subs0 (subscriptions pm)\<rparr>)
     (pm\<lparr>subscriptions := dm_insert s (fold hs_remove ts subs0) (subscriptions pm), watchers := fold (drop_watcher s) ts (watchers pm)\<rparr>)"
proof (induction ts arbitrary: pm subs0)
  case (Cons t ts)
  let ?pm = "pm\<lparr>subscriptions := dm_insert s (hs_remove t subs0) (subscriptions pm)\<rparr>"
  obtain e pm1 where e: "take_out s t ?pm = (e, pm1)" by fastforce
  have IH: "runs_to (UnsubLoop s ts) (?pm\<lparr>watchers := drop_watcher s t (watchers pm)\<rparr>)
      (pm\<lparr>subscriptions := dm_insert s (fold hs_remove (t # ts) subs0) (subscriptions pm), watchers := fold (drop_watcher s) (t # ts) (watchers pm)\<rparr>)"
    using Cons [where pm = "pm\<lparr>watchers := drop_watcher s t (watchers pm)\<rparr>" and ?subs0.0 = "hs_remove t subs0"] by (simp add: presence_swap)
  show ?case
    using e take_out_drop [OF e] IH
    by (cases e) (auto simp: set_subs_def intro: runs_to_step [OF _ runs_to_step] runs_to_step)
qed (auto intro: runs_to_step)

fun start_pc :: "presence_op \<Rightarrow> presence_pc" where
  "start_pc (Subscribe s ts) = SubStart s ts"
| "start_pc (Unsubscribe s ts) = UnsubStart s ts"
| "start_pc (ClearSubscriber s) = ClearStart s"

lemma same_entries_refl [simp]: "same_entries pm pm"
  by (simp add: same_entries_def)

text \<open>The steps of an operation that no other task interrupts end, with the entries that the sequential operation leaves.\<close>

theorem lone_presence_task: "\<exists>pm'. runs_to (start_pc e) pm pm' \<and> same_entries pm' (presence_step pm e)"
proof (cases e)
  case (Subscribe s ts)
  let ?subs = "or_default (dm_get (subscriptions pm) s)"
  have "runs_to (SubStart s ts) pm (subscribe s ts pm)"
  proof (rule runs_to_step)
    show "presence_next (SubStart s ts) pm = (SubLoop s ts, pm\<lparr>subscriptions := dm_insert s ?subs (subscriptions pm)\<rparr>)"
      by (simp add: set_subs_def)
    show "runs_to (SubLoop s ts) (pm\<lparr>subscriptions := dm_insert s ?subs (subscriptions pm)\<rparr>) (subscribe s ts pm)"
      using sub_loop_runs [of s ts ?subs pm] by (simp add: subscribe_def split_beta)
  qed
  with Subscribe show ?thesis by auto
next
  case (Unsubscribe s ts)
  show ?thesis
  proof (cases "dm_get (subscriptions pm) s")
    case None
    then have "runs_to (UnsubStart s ts) pm pm" by (auto intro: runs_to_step)
    with None Unsubscribe show ?thesis by (auto simp: unsubscribe_def)
  next
    case (Some subs)
    show ?thesis
    proof (cases ts)
      case Nil
      have "runs_to (UnsubStart s []) pm pm" using Some by (auto intro: runs_to_step [OF _ runs_to_step])
      with Some Nil Unsubscribe show ?thesis by (auto simp: unsubscribe_def same_entries_def)
    next
      case (Cons t ts')
      have "presence_next (UnsubLoop s (t # ts')) pm = presence_next (UnsubLoop s (t # ts')) (pm\<lparr>subscriptions := dm_insert s subs (subscriptions pm)\<rparr>)"
        using Some by (simp add: set_subs_def)
      moreover have "runs_to (UnsubLoop s ts) (pm\<lparr>subscriptions := dm_insert s subs (subscriptions pm)\<rparr>) (unsubscribe s ts pm)"
        using unsub_loop_runs [of s ts subs pm] Some by (simp add: unsubscribe_def unsubscribe_loop_eq)
      ultimately have "runs_to (UnsubLoop s ts) pm (unsubscribe s ts pm)"
        unfolding Cons by (rule runs_to_same) simp
      with Some Unsubscribe show ?thesis by (auto intro!: exI [of _ "unsubscribe s ts pm"] intro: runs_to_step)
    qed
  qed
next
  case (ClearSubscriber s)
  show ?thesis
  proof (cases "dm_get (subscriptions pm) s")
    case None
    then have "runs_to (ClearStart s) pm pm" by (auto intro: runs_to_step)
    with None ClearSubscriber show ?thesis by (auto simp: clear_subscriber_def)
  next
    case (Some targets)
    have "runs_to (ClearStart s) pm (clear_subscriber s pm)"
      by (rule runs_to_step [OF _ clear_loop_runs [of s targets "pm\<lparr>subscriptions := dm_remove s (subscriptions pm)\<rparr>"], THEN eq_rhs])
        (simp_all add: Some clear_subscriber_def)
    with ClearSubscriber show ?thesis by auto
  qed
qed


section \<open>The race\<close>

lemma runs_one:
  "may_run (xs @ pc # ys) pc \<Longrightarrow> presence_next pc pm = (pc', pm') \<Longrightarrow> presence_trans (pm, xs @ pc # ys) (pm', xs @ pc' # ys)"
  using presence_trans.run [where i = "length xs" and ts = "xs @ pc # ys"] by simp

lemmas entry_defs = presence_new_def dm_empty_def dm_insert_def dm_remove_def dm_get_def set_subs_def take_out_def drop_entry_def
  hs_insert_def hs_remove_def may_run_def Let_def

lemma last_watcher_leaves:
  "presence_trans\<^sup>*\<^sup>* (presence_new, [SubStart s1 [t], ClearStart s1, SubStart s2 [t]])
     (\<lparr>subscriptions = [], watchers = [(t, [])]\<rparr>, [PresDone, ClearEmpty s1 t [], SubStart s2 [t]])"
proof -
  have "presence_trans\<^sup>*\<^sup>* (presence_new, [SubStart s1 [t], ClearStart s1, SubStart s2 [t]])
      (presence_new, [SubStart s1 [t], ClearStart s1, SubStart s2 [t]])" by simp
  also have "presence_trans (presence_new, [SubStart s1 [t], ClearStart s1, SubStart s2 [t]])
      (\<lparr>subscriptions = [(s1, [])], watchers = []\<rparr>, [SubLoop s1 [t], ClearStart s1, SubStart s2 [t]])"
    using runs_one [where xs = "[]" and ys = "[ClearStart s1, SubStart s2 [t]]"] by (simp add: entry_defs)
  also have "presence_trans (\<lparr>subscriptions = [(s1, [])], watchers = []\<rparr>, [SubLoop s1 [t], ClearStart s1, SubStart s2 [t]])
      (\<lparr>subscriptions = [(s1, [t])], watchers = [(t, [s1])]\<rparr>, [SubLoop s1 [], ClearStart s1, SubStart s2 [t]])"
    using runs_one [where xs = "[]" and ys = "[ClearStart s1, SubStart s2 [t]]"] by (simp add: entry_defs)
  also have "presence_trans (\<lparr>subscriptions = [(s1, [t])], watchers = [(t, [s1])]\<rparr>, [SubLoop s1 [], ClearStart s1, SubStart s2 [t]])
      (\<lparr>subscriptions = [(s1, [t])], watchers = [(t, [s1])]\<rparr>, [PresDone, ClearStart s1, SubStart s2 [t]])"
    using runs_one [where xs = "[]" and ys = "[ClearStart s1, SubStart s2 [t]]"] by (simp add: entry_defs)
  also have "presence_trans (\<lparr>subscriptions = [(s1, [t])], watchers = [(t, [s1])]\<rparr>, [PresDone, ClearStart s1, SubStart s2 [t]])
      (\<lparr>subscriptions = [], watchers = [(t, [s1])]\<rparr>, [PresDone, ClearLoop s1 [t], SubStart s2 [t]])"
    using runs_one [where xs = "[PresDone]" and ys = "[SubStart s2 [t]]"] by (simp add: entry_defs)
  also have "presence_trans (\<lparr>subscriptions = [], watchers = [(t, [s1])]\<rparr>, [PresDone, ClearLoop s1 [t], SubStart s2 [t]])
      (\<lparr>subscriptions = [], watchers = [(t, [])]\<rparr>, [PresDone, ClearEmpty s1 t [], SubStart s2 [t]])"
    using runs_one [where xs = "[PresDone]" and ys = "[SubStart s2 [t]]"] by (simp add: entry_defs)
  finally show ?thesis .
qed

lemma other_subscribes:
  "presence_trans\<^sup>*\<^sup>* (\<lparr>subscriptions = [], watchers = [(t, [])]\<rparr>, [PresDone, ClearEmpty s1 t [], SubStart s2 [t]])
     (\<lparr>subscriptions = [(s2, [t])], watchers = []\<rparr>, [PresDone, PresDone, PresDone])"
proof -
  have "presence_trans\<^sup>*\<^sup>* (\<lparr>subscriptions = [], watchers = [(t, [])]\<rparr>, [PresDone, ClearEmpty s1 t [], SubStart s2 [t]])
      (\<lparr>subscriptions = [], watchers = [(t, [])]\<rparr>, [PresDone, ClearEmpty s1 t [], SubStart s2 [t]])" by simp
  also have "presence_trans (\<lparr>subscriptions = [], watchers = [(t, [])]\<rparr>, [PresDone, ClearEmpty s1 t [], SubStart s2 [t]])
      (\<lparr>subscriptions = [(s2, [])], watchers = [(t, [])]\<rparr>, [PresDone, ClearEmpty s1 t [], SubLoop s2 [t]])"
    using runs_one [where xs = "[PresDone, ClearEmpty s1 t []]" and ys = "[]"] by (simp add: entry_defs)
  also have "presence_trans (\<lparr>subscriptions = [(s2, [])], watchers = [(t, [])]\<rparr>, [PresDone, ClearEmpty s1 t [], SubLoop s2 [t]])
      (\<lparr>subscriptions = [(s2, [t])], watchers = [(t, [s2])]\<rparr>, [PresDone, ClearEmpty s1 t [], SubLoop s2 []])"
    using runs_one [where xs = "[PresDone, ClearEmpty s1 t []]" and ys = "[]"] by (simp add: entry_defs)
  also have "presence_trans (\<lparr>subscriptions = [(s2, [t])], watchers = [(t, [s2])]\<rparr>, [PresDone, ClearEmpty s1 t [], SubLoop s2 []])
      (\<lparr>subscriptions = [(s2, [t])], watchers = [(t, [s2])]\<rparr>, [PresDone, ClearEmpty s1 t [], PresDone])"
    using runs_one [where xs = "[PresDone, ClearEmpty s1 t []]" and ys = "[]"] by (simp add: entry_defs)
  also have "presence_trans (\<lparr>subscriptions = [(s2, [t])], watchers = [(t, [s2])]\<rparr>, [PresDone, ClearEmpty s1 t [], PresDone])
      (\<lparr>subscriptions = [(s2, [t])], watchers = []\<rparr>, [PresDone, ClearLoop s1 [], PresDone])"
    using runs_one [where xs = "[PresDone]" and ys = "[PresDone]"] by (simp add: entry_defs)
  also have "presence_trans (\<lparr>subscriptions = [(s2, [t])], watchers = []\<rparr>, [PresDone, ClearLoop s1 [], PresDone])
      (\<lparr>subscriptions = [(s2, [t])], watchers = []\<rparr>, [PresDone, PresDone, PresDone])"
    using runs_one [where xs = "[PresDone]" and ys = "[PresDone]"] by (simp add: entry_defs)
  finally show ?thesis .
qed

text \<open>
  (C34) A subscription can be lost: when the last watcher of a peer disconnects, the empty watcher set is found and
  then removed in two accesses; a subscription of anyone else to that peer in between is removed with
  it. It stays in the subscriber's own set and was acknowledged, but the subscriber is never told of
  the peer: a broadcast for it sends nothing.
\<close>
theorem subscription_lost:
  "\<exists>pm. presence_trans\<^sup>*\<^sup>* (presence_new, [SubStart s1 [t], ClearStart s1, SubStart s2 [t]]) (pm, [PresDone, PresDone, PresDone]) \<and>
     t \<in> set (subs_of pm s2) \<and> s2 \<notin> set (watchers_of pm t) \<and> (\<forall>r online cs. broadcast pm r t online cs = cs)"
proof -
  have "presence_trans\<^sup>*\<^sup>* (presence_new, [SubStart s1 [t], ClearStart s1, SubStart s2 [t]])
      (\<lparr>subscriptions = [(s2, [t])], watchers = []\<rparr>, [PresDone, PresDone, PresDone])"
    using last_watcher_leaves other_subscribes by (rule rtranclp_trans)
  then show ?thesis
    by (intro exI [of _ "\<lparr>subscriptions = [(s2, [t])], watchers = []\<rparr>"])
      (simp add: subs_of_def watchers_of_def broadcast_def dm_get_def)
qed

theorem told_only_if_subscribed_witness:
  "\<exists>pm ts. presence_trans\<^sup>*\<^sup>* (presence_new, []) (pm, ts) \<and>
     chan_log (broadcast pm demo_registry ''t'' True demo_channels) 1 \<noteq> chan_log demo_channels 1 \<and>
     (\<exists>s. ''t'' \<in> set (subs_of pm s) \<or> (\<exists>pc \<in> set ts. (s, ''t'') \<in> pending pc))"
proof -
  let ?pm = "\<lparr>subscriptions = [((demo_key CHR ''1''), [''t''])], watchers = [(''t'', [(demo_key CHR ''1'')])]\<rparr>"
  have "presence_trans\<^sup>*\<^sup>* (presence_new, []) (presence_new, [])" by simp
  also have "presence_trans (presence_new, []) (presence_new, [SubStart (demo_key CHR ''1'') [''t'']])"
    using presence_trans.spawn [where ts = "[]" and pc = "SubStart (demo_key CHR ''1'') [''t'']"] by simp
  also have "presence_trans (presence_new, [SubStart (demo_key CHR ''1'') [''t'']]) (\<lparr>subscriptions = [((demo_key CHR ''1''), [])], watchers = []\<rparr>, [SubLoop (demo_key CHR ''1'') [''t'']])"
    using runs_one [where xs = "[]" and ys = "[]"] by (simp add: entry_defs)
  also have "presence_trans (\<lparr>subscriptions = [((demo_key CHR ''1''), [])], watchers = []\<rparr>, [SubLoop (demo_key CHR ''1'') [''t'']]) (?pm, [SubLoop (demo_key CHR ''1'') []])"
    using runs_one [where xs = "[]" and ys = "[]"] by (simp add: entry_defs)
  finally have r: "presence_trans\<^sup>*\<^sup>* (presence_new, []) (?pm, [SubLoop (demo_key CHR ''1'') []])" .
  have "chan_log (broadcast ?pm demo_registry ''t'' True demo_channels) 1 \<noteq> chan_log demo_channels 1"
    by (simp add: chan_log_broadcast watchers_of_def dm_get_def demo_registry_def chan_alive_def demo_channels_def)
  with told_only_if_subscribed [OF r this] r show ?thesis by blast
qed

end
