(* ===== verification/Presence_Order.thy ===== *)
theory Presence_Order
  imports Server_Invariant
begin

text \<open>
  Subscribing, joining and leaving at the same time: the handler of \<open>SubscribePresence\<close>, the end of a
  registration and the teardown of \<open>serve_socket\<close> (\<open>src/server.rs\<close>) with \<open>broadcast\<close> (\<open>src/presence.rs\<close>), cut
  at every access to a shared map and every await. Each of \<open>subscribe\<close>, \<open>clear_subscriber\<close> and
  \<open>drop_sessions_for\<close> is one step here; \<open>Presence_Concurrent\<close> and \<open>Relay_Concurrent\<close> take them apart.
\<close>

datatype notify_pc =
    AskStart string "string list" "string option" chan_id
  | AskLook "string list" "string option" chan_id "(string \<times> bool) list" "string list"
  | AskTell "(string \<times> bool) list" chan_id
  | JoinStart peer_handle bool "string option"
  | JoinIn peer_handle bool "string option"
  | LeaveStart string
  | LeaveGone string
  | LeaveCleared string
  | CastStart string bool
  | CastRest string bool "string list"
  | CastSend string bool chan_id "string list"
  | NotifyDone

fun notify_next :: "notify_pc \<Rightarrow> broker \<Rightarrow> notify_pc \<times> broker" where
  "notify_next (AskStart s peers rid tx) b =
     (let b1 = b\<lparr>b_presence := subscribe s peers (b_presence b)\<rparr>; m = b_metrics b1
      in (AskLook peers rid tx [] peers,
          b1\<lparr>b_metrics := m\<lparr>presence_subscriptions := presence_subscriptions m + of_nat (length peers)\<rparr>\<rparr>))"
| "notify_next (AskLook peers rid tx seen (pk # pks)) b =
     (AskLook peers rid tx (seen @ [(pk, reg_is_online (b_registry b) pk)]) pks, b)"
| "notify_next (AskLook peers rid tx seen []) b = (AskTell seen tx, send_tx tx (SubscribePresenceAck peers rid) b)"
| "notify_next (AskTell ((pk, on) # online) tx) b = (AskTell online tx, send_tx tx (PresenceUpdate pk on) b)"
| "notify_next (AskTell [] tx) b = (NotifyDone, b)"
| "notify_next (JoinStart peer hc rid) b =
     (let m = b_metrics b
      in (JoinIn peer hc rid,
          b\<lparr>b_registry := reg_insert peer (b_registry b),
            b_metrics := m\<lparr>connected_peers := connected_peers m + 1, registrations_total := registrations_total m + 1\<rparr>\<rparr>))"
| "notify_next (JoinIn peer hc rid) b =
     (CastStart (ph_pubkey peer) True,
      send_tx (ph_tx peer) (Registered (ph_pubkey peer) (format_reflected (ph_reflected peer)) hc rid) b)"
| "notify_next (LeaveStart pk) b =
     (let m = b_metrics b
      in (LeaveGone pk,
          b\<lparr>b_registry := snd (reg_remove pk (b_registry b)), b_metrics := m\<lparr>connected_peers := connected_peers m - 1\<rparr>\<rparr>))"
| "notify_next (LeaveGone pk) b = (LeaveCleared pk, b\<lparr>b_presence := clear_subscriber pk (b_presence b)\<rparr>)"
| "notify_next (LeaveCleared pk) b = (CastStart pk False, b\<lparr>b_relay := drop_sessions_for pk (b_relay b)\<rparr>)"
| "notify_next (CastStart pk on) b =
     (case dm_get (watchers (b_presence b)) pk of None \<Rightarrow> (NotifyDone, b) | Some w \<Rightarrow> (CastRest pk on w, b))"
| "notify_next (CastRest pk on []) b = (NotifyDone, b)"
| "notify_next (CastRest pk on (w # ws)) b =
     (case reg_get (b_registry b) w of None \<Rightarrow> (CastRest pk on ws, b) | Some p \<Rightarrow> (CastSend pk on (ph_tx p) ws, b))"
| "notify_next (CastSend pk on tx ws) b =
     (CastRest pk on ws, b\<lparr>b_channels := snd (try_send tx (PresenceUpdate pk on) (b_channels b))\<rparr>)"
| "notify_next NotifyDone b = (NotifyDone, b)"

text \<open>Two tasks, in any interleaving.\<close>

inductive notify_trans :: "broker \<times> notify_pc \<times> notify_pc \<Rightarrow> broker \<times> notify_pc \<times> notify_pc \<Rightarrow> bool" where
  first: "notify_next p b = (p', b') \<Longrightarrow> notify_trans (b, p, q) (b', p', q)"
| second: "notify_next q b = (q', b') \<Longrightarrow> notify_trans (b, p, q) (b', p, q')"

section \<open>Alone, a task is the code of the sequential model\<close>

fun notify_run :: "nat \<Rightarrow> notify_pc \<times> broker \<Rightarrow> notify_pc \<times> broker" where
  "notify_run 0 st = st"
| "notify_run (Suc k) st = notify_run k (notify_next (fst st) (snd st))"

definition ends_in :: "notify_pc \<Rightarrow> broker \<Rightarrow> broker \<Rightarrow> bool" where
  "ends_in pc b b' \<longleftrightarrow> (\<exists>k. notify_run k (pc, b) = (NotifyDone, b'))"

lemma ends_in_done [simp]: "ends_in NotifyDone b b"
  unfolding ends_in_def by (rule exI [of _ 0]) simp

lemma ends_in_step: "notify_next pc b = (pc1, b1) \<Longrightarrow> ends_in pc1 b1 b' \<Longrightarrow> ends_in pc b b'"
  unfolding ends_in_def by (metis fst_conv notify_run.simps(2) snd_conv)

lemma tell_ends: "ends_in (AskTell online tx) b (fold (\<lambda>(pk, on) b. send_tx tx (PresenceUpdate pk on) b) online b)"
  by (induction online arbitrary: b) (auto intro: ends_in_step)

lemma look_ends:
  "ends_in (AskLook peers rid tx seen pks) b (fold (\<lambda>(pk, on) b. send_tx tx (PresenceUpdate pk on) b)
     (seen @ reg_online_set (b_registry b) pks) (send_tx tx (SubscribePresenceAck peers rid) b))"
proof (induction pks arbitrary: seen)
  case Nil
  then show ?case by (auto simp: reg_online_set_def intro: ends_in_step [OF _ tell_ends])
next
  case (Cons pk pks)
  have "notify_next (AskLook peers rid tx seen (pk # pks)) b =
      (AskLook peers rid tx (seen @ [(pk, reg_is_online (b_registry b) pk)]) pks, b)" by simp
  from ends_in_step [OF this Cons] show ?case by (simp add: reg_online_set_def reg_is_online_def)
qed

lemma rest_ends: "ends_in (CastRest pk on ws) b (b\<lparr>b_channels := broadcast_loop (b_registry b) (PresenceUpdate pk on) ws (b_channels b)\<rparr>)"
proof (induction ws arbitrary: b)
  case (Cons w ws)
  show ?case
  proof (cases "reg_get (b_registry b) w")
    case None
    then show ?thesis using Cons [of b] by (auto intro: ends_in_step)
  next
    case (Some p)
    let ?b = "b\<lparr>b_channels := snd (try_send (ph_tx p) (PresenceUpdate pk on) (b_channels b))\<rparr>"
    show ?thesis using Some Cons [of ?b] by (auto intro: ends_in_step [OF _ ends_in_step])
  qed
qed (auto intro: ends_in_step)

lemma cast_ends: "ends_in (CastStart pk on) b (b\<lparr>b_channels := broadcast (b_presence b) (b_registry b) pk on (b_channels b)\<rparr>)"
  by (cases "dm_get (watchers (b_presence b)) pk") (auto simp: broadcast_def intro: ends_in_step ends_in_step [OF _ rest_ends])


text \<open>
  The steps of each, run without interruption, end in the state that the handler, the registration and the
  teardown of the sequential model give.
\<close>
theorem lone_notify_task:
  "ends_in (AskStart s peers rid tx) b (snd (on_subscribe s peers rid tx b))"
  "ends_in (LeaveStart pk) b (serve_end pk b)"
  "b_db b = None \<Longrightarrow> ends_in (JoinStart \<lparr>ph_pubkey = pk, ph_handle = None, ph_addresses = a, ph_reflected = addr, ph_tx = tx\<rparr> False rid) b
     (register_peer cr tk addr pk None a kd rid tx b)"
proof -
  show "ends_in (AskStart s peers rid tx) b (snd (on_subscribe s peers rid tx b))"
    by (rule ends_in_step [OF notify_next.simps(1) [unfolded Let_def] look_ends, THEN back_subst [of "ends_in _ _"]])
      (simp add: on_subscribe_def Let_def)
  show "ends_in (LeaveStart pk) b (serve_end pk b)"
    by (rule ends_in_step [OF notify_next.simps(8) [unfolded Let_def]
          ends_in_step [OF notify_next.simps(9) ends_in_step [OF notify_next.simps(10) cast_ends]], THEN back_subst [of "ends_in _ _"]])
      (simp add: serve_end_def Let_def)
  assume "b_db b = None"
  then show "ends_in (JoinStart \<lparr>ph_pubkey = pk, ph_handle = None, ph_addresses = a, ph_reflected = addr, ph_tx = tx\<rparr> False rid) b
     (register_peer cr tk addr pk None a kd rid tx b)"
    by (intro ends_in_step [OF notify_next.simps(6) [unfolded Let_def] ends_in_step [OF notify_next.simps(7) cast_ends], THEN back_subst [of "ends_in _ _"]])
      (simp add: register_peer_def register_db_def Let_def)
qed


section \<open>Nobody misses a peer that joins\<close>

text \<open>A subscription of \<open>s\<close> on \<open>tx\<close> that names \<open>t\<close>, and the registration of \<open>t\<close>, at any of their points.\<close>

fun asks :: "string \<Rightarrow> string \<Rightarrow> chan_id \<Rightarrow> notify_pc \<Rightarrow> bool" where
  "asks s t tx (AskStart s' peers rid tx') = (s' = s \<and> tx' = tx \<and> t \<in> set peers)"
| "asks s t tx (AskLook peers rid tx' seen todo) = (tx' = tx)"
| "asks s t tx (AskTell online tx') = (tx' = tx)"
| "asks s t tx pc = (pc = NotifyDone)"

fun asked :: "notify_pc \<Rightarrow> bool" where
  "asked (AskStart s peers rid tx) = False"
| "asked _ = True"

fun joins :: "string \<Rightarrow> notify_pc \<Rightarrow> bool" where
  "joins t (JoinStart p hc rid) = (ph_pubkey p = t)"
| "joins t (JoinIn p hc rid) = (ph_pubkey p = t)"
| "joins t (CastStart pk on) = (pk = t \<and> on)"
| "joins t (CastRest pk on ws) = (pk = t \<and> on)"
| "joins t (CastSend pk on tx ws) = (pk = t \<and> on)"
| "joins t pc = (pc = NotifyDone)"

fun joined :: "notify_pc \<Rightarrow> bool" where
  "joined (JoinStart p hc rid) = False"
| "joined _ = True"

text \<open>The subscription has yet to look the peer up, or has seen it and has yet to say so.\<close>

fun will_answer :: "string \<Rightarrow> notify_pc \<Rightarrow> bool" where
  "will_answer t (AskStart s peers rid tx) = (t \<in> set peers)"
| "will_answer t (AskLook peers rid tx seen todo) = (t \<in> set todo \<or> (t, True) \<in> set seen)"
| "will_answer t (AskTell online tx) = ((t, True) \<in> set online)"
| "will_answer t pc = False"

text \<open>The registration has yet to tell \<open>s\<close>.\<close>

fun will_cast :: "string \<Rightarrow> chan_id \<Rightarrow> notify_pc \<Rightarrow> bool" where
  "will_cast s tx (CastRest pk on ws) = (s \<in> set ws)"
| "will_cast s tx (CastSend pk on tx' ws) = (tx' = tx \<or> s \<in> set ws)"
| "will_cast s tx NotifyDone = False"
| "will_cast s tx pc = True"

definition reachable_watcher :: "string \<Rightarrow> string \<Rightarrow> chan_id \<Rightarrow> broker \<Rightarrow> bool" where
  "reachable_watcher s t tx b \<longleftrightarrow> (\<exists>q. reg_get (b_registry b) s = Some q \<and> ph_tx q = tx) \<and> chan_alive (b_channels b) tx \<and> s \<noteq> t"

definition told_online :: "string \<Rightarrow> chan_id \<Rightarrow> broker \<Rightarrow> bool" where
  "told_online t tx b \<longleftrightarrow> PresenceUpdate t True \<in> set (chan_log (b_channels b) tx)"

fun join_inv :: "string \<Rightarrow> string \<Rightarrow> chan_id \<Rightarrow> broker \<times> notify_pc \<times> notify_pc \<Rightarrow> bool" where
  "join_inv s t tx (b, p, q) \<longleftrightarrow> reachable_watcher s t tx b \<and> asks s t tx p \<and> joins t q \<and>
     (asked p \<longrightarrow> s \<in> set (watchers_of (b_presence b) t)) \<and> (joined q \<longrightarrow> reg_is_online (b_registry b) t) \<and>
     (will_answer t p \<or> will_cast s tx q \<or> told_online t tx b)"

lemma keeps_sent [simp]:
  "reachable_watcher s t tx (send_tx tx' m b) = reachable_watcher s t tx b"
  "told_online t tx b \<Longrightarrow> told_online t tx (send_tx tx' m b)"
  by (simp_all add: reachable_watcher_def told_online_def send_tx_log)

lemma told_now: "reachable_watcher s t tx b \<Longrightarrow> told_online t tx (send_tx tx (PresenceUpdate t True) b)"
  by (simp add: reachable_watcher_def told_online_def send_tx_log)

lemma try_send_is_send: "b\<lparr>b_channels := snd (try_send tx m (b_channels b))\<rparr> = send_tx tx m b"
  by (simp add: send_tx_def try_send_eq)

lemma join_inv_first:
  assumes "notify_next p b = (p', b')" and "join_inv s t tx (b, p, q)"
  shows "join_inv s t tx (b', p', q)"
  using assms
proof (induction p b rule: notify_next.induct)
  case (1 s' peers rid tx' b)
  then show ?case by (auto simp: Let_def reachable_watcher_def told_online_def subscribe_sets)
next
  case (2 peers rid tx' seen pk pks b)
  then show ?case by (cases q) auto
next
  case (4 pk on online tx' b)
  then show ?case using told_now [of s t tx b] by (cases on) auto
qed auto

lemma join_inv_second:
  assumes "notify_next q b = (q', b')" and "join_inv s t tx (b, p, q)"
  shows "join_inv s t tx (b', p, q')"
  using assms
proof (induction q b rule: notify_next.induct)
  case (6 peer hc rid b)
  then show ?case by (auto simp: Let_def reachable_watcher_def told_online_def reg_is_online_iff)
next
  case (11 pk on b)
  have "asked p \<or> will_answer t p" if "asks s t tx p" using that by (cases p) auto
  with 11 show ?case by (auto simp: watchers_of_def split: option.splits)
next
  case (13 pk on w ws b)
  then show ?case by (auto simp: reachable_watcher_def split: option.splits)
next
  case (14 pk on tx' ws b)
  then show ?case using told_now [of s t tx b] unfolding notify_next.simps try_send_is_send by auto
qed auto

interpretation joining: transition_system notify_trans "join_inv s t tx" for s t tx
proof
  fix x y
  assume "notify_trans x y" and "join_inv s t tx x"
  then show "join_inv s t tx y"
    by (cases rule: notify_trans.cases) (auto simp only: intro: join_inv_first join_inv_second)
qed

text \<open>
  (C37) A subscription and a registration that overlap never miss each other: whatever the interleaving, a connected
  peer that subscribes to another while that one registers has been told that it is online once both are
  done. The handler stores the subscription before it looks, the registration enters the registry
  before it broadcasts.
\<close>
theorem joining_peer_is_seen:
  assumes "reg_get (b_registry b) s = Some q" and "ph_tx q = tx" and "chan_alive (b_channels b) tx" and "t \<in> set peers"
    and "ph_pubkey p = t" and "s \<noteq> t"
    and "notify_trans\<^sup>*\<^sup>* (b, AskStart s peers rid tx, JoinStart p hc rid') (b', NotifyDone, NotifyDone)"
  shows "PresenceUpdate t True \<in> set (chan_log (b_channels b') tx)"
proof -
  have "join_inv s t tx (b, AskStart s peers rid tx, JoinStart p hc rid')"
    using assms(1-6) by (simp add: reachable_watcher_def)
  from joining.reach_inv [OF assms(7) this] show ?thesis by (simp add: told_online_def)
qed


section \<open>A stale answer\<close>

lemma run_first: "notify_run k (p, b) = (p', b') \<Longrightarrow> notify_trans\<^sup>*\<^sup>* (b, p, q) (b', p', q)"
proof (induction k arbitrary: p b)
  case (Suc k)
  obtain p1 b1 where n: "notify_next p b = (p1, b1)" by fastforce
  with Suc have "notify_trans\<^sup>*\<^sup>* (b1, p1, q) (b', p', q)" by simp
  with notify_trans.first [OF n] show ?case by (rule converse_rtranclp_into_rtranclp)
qed simp

lemma run_second: "notify_run k (q, b) = (q', b') \<Longrightarrow> notify_trans\<^sup>*\<^sup>* (b, p, q) (b', p, q')"
proof (induction k arbitrary: q b)
  case (Suc k)
  obtain q1 b1 where n: "notify_next q b = (q1, b1)" by fastforce
  with Suc have "notify_trans\<^sup>*\<^sup>* (b1, p, q1) (b', p, q')" by simp
  with notify_trans.second [OF n] show ?case by (rule converse_rtranclp_into_rtranclp)
qed simp

lemma own_channels_remove: "own_channels r \<Longrightarrow> own_channels (snd (reg_remove pk r))"
  by (auto simp: own_channels_def split: if_splits)

lemma leave_tells:
  assumes "presence_inv (b_presence b)" and "own_channels (b_registry b)" and "reachable_watcher s t tx b"
    and "(s, t) \<in> watches (b_presence b)"
  shows "chan_log (b_channels (serve_end t b)) tx = chan_log (b_channels b) tx @ [PresenceUpdate t False]"
    and "chan_alive (b_channels (serve_end t b)) tx" and "\<not> reg_is_online (b_registry (serve_end t b)) t"
proof -
  have "(s, t) \<in> watches (clear_subscriber t (b_presence b))"
    using assms(1,3,4) by (auto simp: presence_inv_clear reachable_watcher_def)
  then show "chan_log (b_channels (serve_end t b)) tx = chan_log (b_channels b) tx @ [PresenceUpdate t False]"
    using assms(3) by (auto simp: serve_end_def Let_def reachable_watcher_def
        broadcast_exact [OF presence_inv_clear(1) [OF assms(1)] own_channels_remove [OF assms(2)]])
qed (use assms(3) in \<open>simp_all add: serve_end_def Let_def reachable_watcher_def reg_is_online_iff\<close>)

text \<open>
  (C30) A subscription can be answered with a state that is no longer true: the handler looks all peers up before it
  sends the acknowledgement, so when a peer leaves in between, its subscriber is told first that the
  peer is offline and then, last of all, that it is online.
\<close>
theorem stale_presence_answer:
  assumes "reg_get (b_registry b) s = Some q" and "ph_tx q = tx" and "chan_alive (b_channels b) tx" and "s \<noteq> t"
    and "reg_is_online (b_registry b) t" and "presence_inv (b_presence b)" and "own_channels (b_registry b)"
  shows "\<exists>b'. notify_trans\<^sup>*\<^sup>* (b, AskStart s [t] rid tx, LeaveStart t) (b', NotifyDone, NotifyDone) \<and>
    chan_log (b_channels b') tx = chan_log (b_channels b) tx @
      [PresenceUpdate t False, SubscribePresenceAck [t] rid, PresenceUpdate t True] \<and> \<not> reg_is_online (b_registry b') t"
proof -
  let ?b1 = "snd (notify_next (AskStart s [t] rid tx) b)" and ?look = "AskLook [t] rid tx [(t, True)] []"
  have 1: "notify_trans\<^sup>*\<^sup>* (b, AskStart s [t] rid tx, LeaveStart t) (?b1, ?look, LeaveStart t)"
    by (rule run_first [where k = "Suc (Suc 0)"]) (simp add: Let_def assms(5))
  obtain k where "notify_run k (LeaveStart t, ?b1) = (NotifyDone, serve_end t ?b1)"
    using lone_notify_task(2) [of t ?b1] unfolding ends_in_def by blast
  note 2 = run_second [OF this, of ?look]
  let ?b' = "fold (\<lambda>(pk, on) b. send_tx tx (PresenceUpdate pk on) b) [(t, True)] (send_tx tx (SubscribePresenceAck [t] rid) (serve_end t ?b1))"
  obtain k' where "notify_run k' (?look, serve_end t ?b1) = (NotifyDone, ?b')"
    using look_ends [of "[t]" rid tx "[(t, True)]" "[]" "serve_end t ?b1"] unfolding ends_in_def by (auto simp: reg_online_set_def)
  note 3 = run_first [OF this, of NotifyDone]
  have inv: "presence_inv (b_presence ?b1)" "own_channels (b_registry ?b1)" "reachable_watcher s t tx ?b1" "(s, t) \<in> watches (b_presence ?b1)"
    using assms presence_inv_subscribe [OF assms(6), of s "[t]"] by (auto simp: Let_def reachable_watcher_def)
  have "chan_log (b_channels ?b1) tx = chan_log (b_channels b) tx" by (simp add: Let_def)
  then have "chan_log (b_channels ?b') tx = chan_log (b_channels b) tx @
      [PresenceUpdate t False, SubscribePresenceAck [t] rid, PresenceUpdate t True]" "\<not> reg_is_online (b_registry ?b') t"
    using leave_tells [OF inv] by (simp_all add: send_tx_log)
  with rtranclp_trans [OF 1 rtranclp_trans [OF 2 3]] show ?thesis by blast
qed


definition demo_broker :: broker where
  "demo_broker = in_memory\<lparr>b_registry := demo_registry, b_channels := demo_channels\<rparr>"

lemma demo_broker_simps [simp]:
  "b_registry demo_broker = demo_registry" "b_channels demo_broker = demo_channels" "b_presence demo_broker = presence_new"
  by (simp_all add: demo_broker_def in_memory_def)

theorem stale_presence_answer_witness:
  "\<exists>b'. notify_trans\<^sup>*\<^sup>* (demo_broker, AskStart (demo_key CHR ''1'') [demo_key CHR ''2''] None 1, LeaveStart (demo_key CHR ''2''))
       (b', NotifyDone, NotifyDone) \<and> \<not> reg_is_online (b_registry b') (demo_key CHR ''2'') \<and>
     last (chan_log (b_channels b') 1) = PresenceUpdate (demo_key CHR ''2'') True"
proof -
  have "reg_get (b_registry demo_broker) (demo_key CHR ''1'') = Some (demo_peer CHR ''1'' None 1)"
    "reg_is_online (b_registry demo_broker) (demo_key CHR ''2'')" by (simp_all add: reg_is_online_iff)
  from stale_presence_answer [OF this(1) _ _ _ this(2), where tx = 1 and rid = None] presence_inv_new own_channels_demo
  show ?thesis by (auto simp del: One_nat_def)
qed

theorem joining_peer_is_seen_witness:
  "\<exists>b'. notify_trans\<^sup>*\<^sup>* (demo_broker, AskStart (demo_key CHR ''1'') [demo_key CHR ''3''] None 1, JoinStart (demo_peer CHR ''3'' None 3) False None)
       (b', NotifyDone, NotifyDone) \<and> PresenceUpdate (demo_key CHR ''3'') True \<in> set (chan_log (b_channels b') 1)"
proof -
  let ?ask = "AskStart (demo_key CHR ''1'') [demo_key CHR ''3''] None 1" and ?join = "JoinStart (demo_peer CHR ''3'' None 3) False None"
  have r: "reg_get (b_registry demo_broker) (demo_key CHR ''1'') = Some (demo_peer CHR ''1'' None 1)" by simp
  obtain k b1 where 1: "notify_run k (?ask, demo_broker) = (NotifyDone, b1)"
    using lone_notify_task(1) unfolding ends_in_def by blast
  obtain k' b' where 2: "notify_run k' (?join, b1) = (NotifyDone, b')"
    using ends_in_step [OF notify_next.simps(6) [unfolded Let_def] ends_in_step [OF notify_next.simps(7) cast_ends]]
    unfolding ends_in_def by blast
  note reach = rtranclp_trans [OF run_first [OF 1] run_second [OF 2]]
  from joining_peer_is_seen [OF r _ _ _ _ _ reach] reach show ?thesis by (auto simp del: One_nat_def)
qed

end
