(* ===== verification/Metrics_Registry.thy ===== *)
theory Metrics_Registry
  imports Metrics
begin

text \<open>
  The rest of \<open>src/metrics.rs\<close>: \<open>Metrics::new\<close> makes ten metrics and registers them, \<open>encode\<close> gathers the registry
  and prints it. Both unwrap what the \<open>prometheus\<close> crate returns; the crate is an argument, and a panic
  is \<open>None\<close>.
\<close>

datatype metric_kind = IntGauge | IntCounter | IntCounterVec string | Histogram

record metric_desc =
  md_name :: string
  md_help :: string
  md_kind :: metric_kind

definition metric :: "metric_kind \<Rightarrow> string \<Rightarrow> string \<Rightarrow> metric_desc" where
  "metric k n h = \<lparr>md_name = n, md_help = h, md_kind = k\<rparr>"

text \<open>The crate: making a metric, an empty registry, registering a metric, gathering a registry with the present
  values, and the text encoder.\<close>

record ('r, 'f) prom =
  prom_make :: "metric_desc \<Rightarrow> string + unit"
  prom_empty :: 'r
  prom_register :: "metric_desc \<Rightarrow> 'r \<Rightarrow> string + 'r"
  prom_gather :: "'r \<Rightarrow> metrics \<Rightarrow> 'f"
  prom_text :: "'f \<Rightarrow> string + u8 list"

definition metric_descs :: "metric_desc list" where
  "metric_descs =
     [metric IntGauge ''broker_connected_peers'' ''currently-connected peers'',
      metric IntCounter ''broker_registrations_total'' ''successful registrations'',
      metric (IntCounterVec ''outcome'') ''broker_handle_claims_total'' ''handle claim attempts'',
      metric IntCounter ''broker_signaling_messages_total'' ''signaling messages relayed'',
      metric (IntCounterVec ''reason'') ''broker_signaling_rejected_total'' ''signaling messages rejected'',
      metric IntCounter ''broker_relay_bytes_total'' ''bytes forwarded via relay'',
      metric IntCounter ''broker_relay_sessions_total'' ''relay sessions established'',
      metric IntCounter ''broker_team_announces_total'' ''team membership announces'',
      metric IntGauge ''broker_presence_subscriptions'' ''active presence watchers'',
      metric Histogram ''broker_message_handle_seconds'' ''time spent handling one client message'']"

fun make_all :: "('r, 'f) prom \<Rightarrow> metric_desc list \<Rightarrow> unit option" where
  "make_all p [] = Some ()"
| "make_all p (d # ds) = (case prom_make p d of Inl _ \<Rightarrow> None | Inr _ \<Rightarrow> make_all p ds)"

fun register_all :: "('r, 'f) prom \<Rightarrow> metric_desc list \<Rightarrow> 'r \<Rightarrow> 'r option" where
  "register_all p [] r = Some r"
| "register_all p (d # ds) r = (case prom_register p d r of Inl _ \<Rightarrow> None | Inr r' \<Rightarrow> register_all p ds r')"

definition metrics_registry_new :: "('r, 'f) prom \<Rightarrow> ('r \<times> metrics) option" where
  "metrics_registry_new p =
     (case make_all p metric_descs of
        None \<Rightarrow> None
      | Some _ \<Rightarrow> (case register_all p metric_descs (prom_empty p) of None \<Rightarrow> None | Some r \<Rightarrow> Some (r, metrics_new)))"

definition metrics_encode :: "('r, 'f) prom \<Rightarrow> 'r \<Rightarrow> metrics \<Rightarrow> u8 list option" where
  "metrics_encode p r m = (case prom_text p (prom_gather p r m) of Inl _ \<Rightarrow> None | Inr buf \<Rightarrow> Some buf)"

section \<open>Neither panics\<close>

text \<open>What the crate documents: a metric can be made when its name and its label are of the Prometheus alphabet,
  and registered when no other metric of the registry has its name. \<open>names\<close> is what a registry holds.\<close>

definition word_char :: "char \<Rightarrow> bool" where
  "word_char c = (let n = of_char c :: nat in n = 95 \<or> n \<in> {65..90} \<or> n \<in> {97..122})"

definition digit :: "char \<Rightarrow> bool" where
  "digit c = ((of_char c :: nat) \<in> {48..57})"

fun valid_name :: "string \<Rightarrow> bool" where
  "valid_name [] = False"
| "valid_name (c # cs) = ((word_char c \<or> c = CHR '':'') \<and> list_all (\<lambda>d. word_char d \<or> digit d \<or> d = CHR '':'') cs)"

fun valid_label :: "string \<Rightarrow> bool" where
  "valid_label [] = False"
| "valid_label (c # cs) = (word_char c \<and> list_all (\<lambda>d. word_char d \<or> digit d) cs)"

fun valid_metric :: "metric_desc \<Rightarrow> bool" where
  "valid_metric d = (valid_name (md_name d) \<and> md_help d \<noteq> [] \<and> (case md_kind d of IntCounterVec l \<Rightarrow> valid_label l | _ \<Rightarrow> True))"

definition prom_documented :: "('r, 'f) prom \<Rightarrow> ('r \<Rightarrow> string set) \<Rightarrow> bool" where
  "prom_documented p names \<longleftrightarrow>
     (\<forall>d. valid_metric d \<longrightarrow> prom_make p d = Inr ()) \<and> names (prom_empty p) = {} \<and>
     (\<forall>d r. md_name d \<notin> names r \<longrightarrow> (\<exists>r'. prom_register p d r = Inr r' \<and> names r' = insert (md_name d) (names r)))"

lemma make_all_ok: "prom_documented p names \<Longrightarrow> list_all valid_metric ds \<Longrightarrow> make_all p ds = Some ()"
  by (induction ds) (auto simp: prom_documented_def)

lemma register_all_ok:
  assumes "prom_documented p names"
  shows "distinct (map md_name ds) \<Longrightarrow> md_name ` set ds \<inter> names r = {} \<Longrightarrow>
    \<exists>r'. register_all p ds r = Some r' \<and> names r' = md_name ` set ds \<union> names r"
proof (induction ds arbitrary: r)
  case (Cons d ds)
  have "md_name d \<notin> names r" using Cons.prems by simp
  with assms obtain r1 where r1: "prom_register p d r = Inr r1" "names r1 = insert (md_name d) (names r)"
    unfolding prom_documented_def by blast
  moreover have "md_name ` set ds \<inter> names r1 = {}" using Cons.prems by (auto simp: r1(2))
  ultimately show ?case using Cons.IH [of r1] Cons.prems by auto
qed simp

lemma metric_descs_ok: "list_all valid_metric metric_descs" "distinct (map md_name metric_descs)"
  by (simp_all add: metric_descs_def metric_def word_char_def)

text \<open>
  \<open>Metrics::new\<close> does not panic: the ten metrics have names and labels of the Prometheus alphabet and no two have
  the same name, so every one is made and registered, and the registry then holds exactly these ten.
\<close>
theorem metrics_new_registers:
  assumes "prom_documented p names"
  shows "\<exists>r. metrics_registry_new p = Some (r, metrics_new) \<and> names r = md_name ` set metric_descs \<and> card (names r) = 10"
proof -
  have "names (prom_empty p) = {}" using assms by (simp add: prom_documented_def)
  then obtain r where r: "register_all p metric_descs (prom_empty p) = Some r" "names r = md_name ` set metric_descs"
    using register_all_ok [OF assms metric_descs_ok(2), of "prom_empty p"] by auto
  moreover have "card (md_name ` set metric_descs) = length metric_descs"
    using distinct_card [OF metric_descs_ok(2)] by simp
  moreover have "length metric_descs = 10" by (simp add: metric_descs_def)
  ultimately show ?thesis using make_all_ok [OF assms metric_descs_ok(1)] by (simp add: metrics_registry_new_def)
qed

definition demo_prom :: "(metric_desc list, string list) prom" where
  "demo_prom = \<lparr>prom_make = (\<lambda>d. if valid_metric d then Inr () else Inl ''invalid''), prom_empty = [],
     prom_register = (\<lambda>d r. if md_name d \<in> md_name ` set r then Inl ''duplicate'' else Inr (r @ [d])),
     prom_gather = (\<lambda>r m. map md_name r), prom_text = (\<lambda>f. Inr (map byte_of (concat f)))\<rparr>"

theorem metrics_new_registers_witness:
  "\<exists>r. metrics_registry_new demo_prom = Some (r, metrics_new) \<and> card (md_name ` set r) = 10 \<and>
     metrics_encode demo_prom r metrics_new \<noteq> None"
proof -
  have "prom_documented demo_prom (\<lambda>r. md_name ` set r)" by (auto simp: prom_documented_def demo_prom_def)
  from metrics_new_registers [OF this] show ?thesis by (auto simp: metrics_encode_def demo_prom_def)
qed

end
