(* ===== verification/Unit_Tests.thy ===== *)
theory Unit_Tests
  imports Smoke_Client
begin

text \<open>
  The unit tests that the sources carry (the \<open>tests\<close> modules of \<open>auth.rs\<close>, \<open>handles.rs\<close>, \<open>relay.rs\<close>
  and \<open>teams.rs\<close>), each as a predicate that holds when the test passes, and the theorems that the
  model passes them. The readings of the clocks a test makes, directly or through the code it
  tests, are its arguments, and so is the key that it generates: the theorems say for which
  readings it passes. A panic of \<open>expect\<close> or \<open>unwrap\<close> and a failed \<open>assert\<close> fail the test.
\<close>

section \<open>The tests of auth.rs\<close>

definition sign_register :: "crates \<Rightarrow> signing_key \<Rightarrow> i64 \<Rightarrow> client_message" where
  "sign_register cr sk ts =
     (let pubkey_hex = hex_encode cr (vk_to_bytes cr (sk_public cr sk));
          msg = Register pubkey_hex (Some ''alice'') \<lparr>lan = [''192.168.1.42:51820''], public_addr = None\<rparr> None ts [] (Some ''req-1'');
          bytes = canonical_bytes (json_to_vec cr) msg;
          sig = sk_sign cr sk bytes
      in with_signature (hex_encode cr sig) msg)"

definition valid_register_verifies :: "crates \<Rightarrow> signing_key \<Rightarrow> i64 \<Rightarrow> i64 \<Rightarrow> bool" where
  "valid_register_verifies cr sk t1 t2 = (case verify_signed_message cr t2 (sign_register cr sk t1) of Inr _ \<Rightarrow> True | Inl _ \<Rightarrow> False)"

fun tamper :: "client_message \<Rightarrow> client_message" where
  "tamper (Register pk h a k ts sg rid) = Register pk (Some ''bob'') a k ts sg rid"
| "tamper m = m"

definition tampered_register_rejected :: "crates \<Rightarrow> signing_key \<Rightarrow> i64 \<Rightarrow> i64 \<Rightarrow> bool" where
  "tampered_register_rejected cr sk t1 t2 =
     (case verify_signed_message cr t2 (tamper (sign_register cr sk t1)) of Inl SignatureVerifyFailed \<Rightarrow> True | _ \<Rightarrow> False)"

definition stale_message_rejected :: "crates \<Rightarrow> signing_key \<Rightarrow> i64 \<Rightarrow> i64 \<Rightarrow> bool" where
  "stale_message_rejected cr sk t1 t2 =
     (case verify_signed_message cr t2 (sign_register cr sk (t1 - 120)) of Inl (StaleMessage _) \<Rightarrow> True | _ \<Rightarrow> False)"

definition future_message_rejected :: "crates \<Rightarrow> signing_key \<Rightarrow> i64 \<Rightarrow> i64 \<Rightarrow> bool" where
  "future_message_rejected cr sk t1 t2 =
     (case verify_signed_message cr t2 (sign_register cr sk (t1 + 120)) of Inl (FutureMessage _) \<Rightarrow> True | _ \<Rightarrow> False)"

lemma sign_register_eq:
  "sign_register cr sk ts = signed_by cr sk (Register (peer_pubkey cr sk) (Some ''alice'')
     \<lparr>lan = [''192.168.1.42:51820''], public_addr = None\<rparr> None ts [] (Some ''req-1''))"
  by (simp add: sign_register_def signed_by_def peer_pubkey_def Let_def)

text \<open>What the tampering test relies on: among the byte strings of \<open>S\<close>, the signature a key makes on one
  does not verify for another.\<close>

definition binding_on :: "crates \<Rightarrow> u8 list set \<Rightarrow> bool" where
  "binding_on cr S \<longleftrightarrow> (\<forall>sk. \<forall>m \<in> S. \<forall>m' \<in> S. vk_verify cr (sk_public cr sk) m' (sk_sign cr sk m) \<longrightarrow> m' = m)"

text \<open>The clock moves by less than a minute while a test runs.\<close>

definition quick :: "i64 \<Rightarrow> i64 \<Rightarrow> bool" where
  "quick t1 t2 \<longleftrightarrow> 120 \<le> sint t1 \<and> sint t1 \<le> sint t2 \<and> sint t2 < sint t1 + 60 \<and> sint t2 < 2 ^ 62"

lemma sint_shift:
  assumes "quick t1 t2"
  shows "sint (t1 - 120) = sint t1 - 120" and "sint (t1 + 120) = sint t1 + 120"
proof -
  have 1: "sint (120 :: i64) = 120" "sint (- 120 :: i64) = - 120" by simp_all
  show "sint (t1 - 120) = sint t1 - 120" using assms 1(1) by (simp add: sint_diff_i64 quick_def)
  have "sint (t1 - (- 120)) = sint t1 + 120" using assms 1(2) unfolding sint_diff_i64 quick_def by simp
  then show "sint (t1 + 120) = sint t1 + 120" by simp
qed

lemma verify_bad_time:
  assumes "hex_faithful cr" and "ed25519_correct cr" and "check_timestamp t2 ts = Inl e"
  shows "verify_signed_message cr t2 (sign_register cr sk ts) = Inl e"
  using assms(3) peer_pubkey_parses [OF assms(1,2)]
  by (simp add: verify_signed_message_def sign_register_eq signed_by_def)

lemma tampered_bytes_differ:
  assumes "json_faithful cr"
  shows "canonical_bytes (json_to_vec cr) (tamper (sign_register cr sk ts)) \<noteq> canonical_bytes (json_to_vec cr) (sign_register cr sk ts)"
proof
  assume "canonical_bytes (json_to_vec cr) (tamper (sign_register cr sk ts)) = canonical_bytes (json_to_vec cr) (sign_register cr sk ts)"
  from canonical_bytes_inject [OF assms this] show False by (simp add: sign_register_eq signed_by_def)
qed

lemma tampered_rejected:
  assumes "hex_faithful cr" and "ed25519_correct cr" and "json_faithful cr" and "check_timestamp t2 t1 = Inr ()"
    and bind: "binding_on cr S" "canonical_bytes (json_to_vec cr) (sign_register cr sk t1) \<in> S"
      "canonical_bytes (json_to_vec cr) (tamper (sign_register cr sk t1)) \<in> S"
  shows "verify_signed_message cr t2 (tamper (sign_register cr sk t1)) = Inl SignatureVerifyFailed"
proof -
  let ?m = "Register (peer_pubkey cr sk) (Some ''alice'') \<lparr>lan = [''192.168.1.42:51820''], public_addr = None\<rparr> None t1 [] (Some ''req-1'')"
  let ?sig = "sk_sign cr sk (canonical_bytes (json_to_vec cr) ?m)"
  have "canonical_bytes (json_to_vec cr) (sign_register cr sk t1) = canonical_bytes (json_to_vec cr) ?m"
    by (simp add: sign_register_eq signed_by_def canonical_bytes_def canonical_value_signature del: with_signature.simps)
  with bind tampered_bytes_differ [OF assms(3), of sk t1]
  have "\<not> vk_verify cr (sk_public cr sk) (canonical_bytes (json_to_vec cr) (tamper (sign_register cr sk t1))) ?sig"
    unfolding binding_on_def by metis
  moreover have "parse_signature cr (hex_encode cr ?sig) = Inr ?sig"
    using assms(1,2) by (simp add: parse_signature_ok hex_faithful_def ed25519_correct_def)
  ultimately show ?thesis using assms(4) peer_pubkey_parses [OF assms(1,2)]
    by (simp add: verify_signed_message_def sign_register_eq signed_by_def Let_def)
qed

lemma auth_tests:
  assumes "hex_faithful cr" and "ed25519_correct cr" and "json_faithful cr" and "quick t1 t2"
    and "binding_on cr S" and "canonical_bytes (json_to_vec cr) (sign_register cr sk t1) \<in> S"
    and "canonical_bytes (json_to_vec cr) (tamper (sign_register cr sk t1)) \<in> S"
  shows "valid_register_verifies cr sk t1 t2 \<and> tampered_register_rejected cr sk t1 t2 \<and>
    stale_message_rejected cr sk t1 t2 \<and> future_message_rejected cr sk t1 t2"
proof -
  have now: "0 \<le> sint t2" "sint t2 < 2 ^ 62" using assms(4) by (simp_all add: quick_def)
  have ok: "check_timestamp t2 t1 = Inr ()" using assms(4) check_timestamp_ok [OF now, of t1] by (simp add: quick_def)
  have "valid_register_verifies cr sk t1 t2"
    using signed_by_verifies [OF assms(1,2), where m = "Register (peer_pubkey cr sk) (Some ''alice'')
      \<lparr>lan = [''192.168.1.42:51820''], public_addr = None\<rparr> None t1 [] (Some ''req-1'')" and sk = sk and now = t2] ok
    by (simp add: valid_register_verifies_def sign_register_eq)
  moreover have "tampered_register_rejected cr sk t1 t2"
    using tampered_rejected [OF assms(1-3) ok assms(5-7)] by (simp add: tampered_register_rejected_def)
  moreover have "check_timestamp t2 (t1 - 120) = Inl (StaleMessage (t2 - (t1 - 120)))"
    using assms(4) sint_shift [OF assms(4)] by (intro check_timestamp_cases(1) [OF now]) (simp_all add: quick_def)
  moreover have "check_timestamp t2 (t1 + 120) = Inl (FutureMessage (t1 + 120 - t2))"
    using assms(4) sint_shift [OF assms(4)] by (intro check_timestamp_cases(2) [OF now]) (simp add: quick_def)
  ultimately show ?thesis
    by (simp add: stale_message_rejected_def future_message_rejected_def verify_bad_time [OF assms(1,2)])
qed

text \<open>An instance in which two byte strings have different signatures.\<close>

definition demo_binding :: "u8 list \<Rightarrow> crates" where
  "demo_binding B = demo_crates\<lparr>sk_sign := (\<lambda>_ bytes. replicate 64 (if bytes = B then 1 else 0)),
     vk_verify := (\<lambda>_ bytes sig. sig = replicate 64 (if bytes = B then 1 else 0))\<rparr>"

lemma demo_binding_hypotheses:
  "hex_faithful (demo_binding B)" "ed25519_correct (demo_binding B)" "json_faithful (demo_binding B)" "uuid_faithful (demo_binding B)"
  "binding_on (demo_binding B) {B, C}"
  using demo_hex_faithful demo_ed25519_correct demo_json_faithful demo_uuid_faithful
  by (auto simp: demo_binding_def hex_faithful_def ed25519_correct_def json_faithful_def uuid_faithful_def binding_on_def)

section \<open>The tests of handles.rs\<close>

definition valid_handles_accept :: "crates \<Rightarrow> bool" where
  "valid_handles_accept cr =
     list_all (\<lambda>h. case validate_handle cr h of Inr _ \<Rightarrow> True | Inl _ \<Rightarrow> False)
       [''alice'', ''ali_ce'', ''alice.bob'', ''alice-bob'', ''alice@org'', ''a1'']"

definition invalid_handles_reject :: "crates \<Rightarrow> bool" where
  "invalid_handles_reject cr =
     list_all (\<lambda>h. case validate_handle cr h of Inl _ \<Rightarrow> True | Inr _ \<Rightarrow> False)
       [''a'', ''Alice'', ''alice org'', ''al ice'', ''al!ce'', ''a@b@c'', replicate 65 CHR ''x'']"

lemma handle_tests: "valid_handles_accept cr \<and> invalid_handles_reject cr"
  by (simp add: valid_handles_accept_def invalid_handles_reject_def validate_handle_def plain_char_def in_range_def)

section \<open>The test of teams.rs\<close>

definition admin_signed_bytes_layout :: "crates \<Rightarrow> bool" where
  "admin_signed_bytes_layout cr =
     (let team_id = 0; pk = hex_encode cr (replicate 32 1)
      in case admin_signed_bytes cr team_id pk of
           Inl _ \<Rightarrow> False
         | Inr bytes \<Rightarrow> length bytes = 16 + 32 \<and> take 16 bytes = uuid_bytes cr team_id \<and> list_all (\<lambda>b. b = 1) (drop 16 bytes))"

lemma team_test: "hex_faithful cr \<Longrightarrow> uuid_faithful cr \<Longrightarrow> admin_signed_bytes_layout cr"
  by (simp add: admin_signed_bytes_layout_def admin_signed_bytes_def hex_encode_no_prefix hex_faithful_def uuid_faithful_def list_all_iff)

section \<open>The tests of relay.rs\<close>

text \<open>\<open>PeerQuota::new\<close> reads the clock twice, each \<open>try_consume\<close> once.\<close>

definition quota_token_bucket_refills :: "instant \<Rightarrow> instant \<Rightarrow> instant \<Rightarrow> instant \<Rightarrow> instant \<Rightarrow> bool" where
  "quota_token_bucket_refills ta tb t1 t2 t3 =
     (case try_consume t1 (1024 * 1024) (quota_new ta tb) of
        (q1, Inl _) \<Rightarrow> False
      | (q1, Inr _) \<Rightarrow>
          (case try_consume t2 1024 q1 of
             (q2, Inr _) \<Rightarrow> False
           | (q2, Inl _) \<Rightarrow> (case try_consume t3 50000 q2 of (q3, Inr _) \<Rightarrow> True | (q3, Inl _) \<Rightarrow> False)))"

definition quota_daily_limit :: "instant \<Rightarrow> instant \<Rightarrow> instant \<Rightarrow> instant \<Rightarrow> bool" where
  "quota_daily_limit ta tb t1 t2 =
     (case try_consume t1 100 ((quota_new ta tb)\<lparr>day_used := BYTES_PER_DAY - 100\<rparr>) of
        (q1, Inl _) \<Rightarrow> False
      | (q1, Inr _) \<Rightarrow> (case try_consume t2 1 q1 of (q2, Inl RelayQuotaExceeded) \<Rightarrow> True | _ \<Rightarrow> False))"

lemma within_day:
  assumes "unat (day_used q) + unat b \<le> 2 ^ 30" and "day_used q' = day_used q"
  shows "\<not> BYTES_PER_DAY < day_used (reset_day now q') + b"
proof -
  have "unat (day_used (reset_day now q')) + unat b \<le> 2 ^ 30" using assms by simp
  moreover from this have "unat (day_used (reset_day now q') + b) = unat (day_used (reset_day now q')) + unat b"
    by (intro unat_add_lem [THEN iffD1]) simp
  ultimately show ?thesis unfolding word_less_nat_alt unat_day by simp
qed

lemma consume_empty:
  assumes "tokens q = 0" and "unat (day_used q) = 2 ^ 20" and "now - last_refill q < 900000"
  shows "try_consume now 1024 q = (reset_day now (refill now q), Inl RateLimited)"
proof -
  have "(of_nat (now - last_refill q) :: rat) \<le> of_nat 900000" using assms(3) by (simp only: of_nat_le_iff)
  then have "tokens (refill now q) < 1024" using refill_upper [of q now] assms(1) by simp
  then show ?thesis using within_day [of q 1024 "refill now q" now] assms(2)
    by (simp add: try_consume_def Let_def u64_as_f64_small)
qed

lemma consume_refilled:
  assumes "0 \<le> tokens q" and "unat (day_used q) \<le> 2 ^ 20" and "150000000 \<le> now - last_refill q"
  shows "\<exists>q'. try_consume now 50000 q = (q', Inr ())"
proof -
  have "(of_nat 150000000 :: rat) \<le> of_nat (now - last_refill q)" using assms(3) by (simp only: of_nat_le_iff)
  then have "50000 \<le> tokens (refill now q)" using refill_lower [of q now] assms(1) by (simp add: min_def split: if_splits)
  then show ?thesis using within_day [of q 50000 "refill now q" now] assms(2)
    by (simp add: try_consume_def Let_def u64_as_f64_small)
qed

lemma quota_tests:
  assumes "t2 < t1 + 900000" and "t2 + 150000000 \<le> t3"
    and "t4 < tb + from_secs 86400" and "t5 < tb + from_secs 86400"
  shows "quota_token_bucket_refills ta tb t1 t2 t3 \<and> quota_daily_limit ta tb t4 t5"
proof
  let ?q = "quota_new ta tb"
  have q: "tokens ?q = 2 ^ 20" "day_used ?q = 0" "day_window_start ?q = tb" by (simp_all add: quota_new_def)
  have d0: "day_used (reset_day now ?q) = 0" for now by (simp add: q)
  obtain q1 where c1: "try_consume t1 (1024 * 1024) ?q = (q1, Inr ())"
    and q1: "tokens q1 = 0" "unat (day_used q1) = 2 ^ 20" "last_refill q1 = t1"
    using consume_full [OF refill_full [OF q(1)], of t1] d0 by simp
  have c2: "try_consume t2 1024 q1 = (reset_day t2 (refill t2 q1), Inl RateLimited)"
    using consume_empty [of q1 t2] q1 assms(1) by simp
  have "0 \<le> tokens (reset_day t2 (refill t2 q1))" using refill_bounds(1) [of q1 t2] q1(1) by simp
  moreover have "unat (day_used (reset_day t2 (refill t2 q1))) \<le> 2 ^ 20"
    unfolding reset_day_fields refill_fields using q1(2) by simp
  moreover have "150000000 \<le> t3 - last_refill (reset_day t2 (refill t2 q1))" using assms(2) by simp
  ultimately obtain q3 where "try_consume t3 50000 (reset_day t2 (refill t2 q1)) = (q3, Inr ())"
    using consume_refilled by blast
  with c1 c2 show "quota_token_bucket_refills ta tb t1 t2 t3" by (simp add: quota_token_bucket_refills_def)
next
  let ?q = "(quota_new ta tb)\<lparr>day_used := BYTES_PER_DAY - 100\<rparr>"
  have same_day: "\<not> from_secs 86400 \<le> t4 - tb" "\<not> from_secs 86400 \<le> t5 - tb" using assms(3,4) by (auto simp: from_secs_def)
  have full: "tokens (refill t4 ?q) = 2 ^ 20" by (rule refill_full) (simp add: quota_new_def)
  have "try_consume t4 100 ?q = ((reset_day t4 (refill t4 ?q))\<lparr>tokens := f64_round (2 ^ 20 - 100), day_used := BYTES_PER_DAY\<rparr>, Inr ())"
    using full same_day(1) by (simp add: try_consume_def Let_def u64_as_f64_small quota_new_def)
  moreover have "BYTES_PER_DAY < BYTES_PER_DAY + 1" by (simp add: BYTES_PER_DAY_def)
  ultimately show "quota_daily_limit ta tb t4 t5"
    using same_day by (simp add: quota_daily_limit_def try_consume_def Let_def quota_new_def)
qed

section \<open>All of them\<close>

text \<open>
  (C39) The repository's unit tests pass. For every key and whenever the clock moves by less than a
  minute in between, a signed registration verifies, the same one with another handle is refused
  as badly signed, one from two minutes ago as stale and one from two minutes ahead as a future
  one; the listed handles are accepted and refused; the signed bytes of a team have their layout; the
  bucket holds one MiB, refuses an attempt within 0.9 milliseconds and has 50 kB after 150
  milliseconds; the last hundred bytes of the day are granted and the next byte is refused while the
  day lasts. The bucket's test depends on its timing: nothing keeps the second attempt within the
  millisecond it needs.
\<close>
theorem repository_tests_pass:
  assumes "hex_faithful cr" and "ed25519_correct cr" and "json_faithful cr" and "uuid_faithful cr" and "quick t1 t2"
    and "binding_on cr S" and "canonical_bytes (json_to_vec cr) (sign_register cr sk t1) \<in> S"
    and "canonical_bytes (json_to_vec cr) (tamper (sign_register cr sk t1)) \<in> S"
    and "u2 < u1 + 900000" and "u2 + 150000000 \<le> u3" and "u4 < ub + from_secs 86400" and "u5 < ub + from_secs 86400"
  shows "(valid_register_verifies cr sk t1 t2 \<and> tampered_register_rejected cr sk t1 t2 \<and>
      stale_message_rejected cr sk t1 t2 \<and> future_message_rejected cr sk t1 t2) \<and>
    (valid_handles_accept cr \<and> invalid_handles_reject cr) \<and> admin_signed_bytes_layout cr \<and>
    (quota_token_bucket_refills ua ub u1 u2 u3 \<and> quota_daily_limit ua ub u4 u5)"
  by (intro conjI [OF auth_tests [OF assms(1-3,5-8)]] conjI [OF handle_tests] conjI [OF team_test [OF assms(1,4)]] quota_tests [OF assms(9-12)])

theorem repository_tests_pass_witness:
  "\<exists>cr sk. valid_register_verifies cr sk 1731340000 1731340001 \<and> tampered_register_rejected cr sk 1731340000 1731340001 \<and>
     stale_message_rejected cr sk 1731340000 1731340001 \<and> future_message_rejected cr sk 1731340000 1731340001 \<and>
     admin_signed_bytes_layout cr \<and> quota_token_bucket_refills 0 0 1000 51000 150100000 \<and> quota_daily_limit 0 0 1000 2000"
proof -
  let ?sk = "SigningKey [7]" and ?bytes = "\<lambda>cr. canonical_bytes (json_to_vec cr) (sign_register cr (SigningKey [7]) 1731340000)"
  let ?cr = "demo_binding (?bytes demo_crates)"
  have same: "?bytes ?cr = ?bytes demo_crates"
    by (simp add: canonical_bytes_def sign_register_eq signed_by_def peer_pubkey_def canonical_value_signature demo_binding_def
        del: with_signature.simps)
  have q: "quick 1731340000 1731340001" by (simp add: quick_def)
  have t: "(51000::nat) < 1000 + 900000" "(51000::nat) + 150000000 \<le> 150100000" "1000 < 0 + from_secs 86400" "2000 < 0 + from_secs 86400"
    by (simp_all add: from_secs_def)
  from repository_tests_pass [OF demo_binding_hypotheses(1-4) q demo_binding_hypotheses(5) _ _ t, where sk = ?sk and ua = 0] same
  show ?thesis by blast
qed

end
