(* ===== verification/Integration_Tests.thy ===== *)
theory Integration_Tests
  imports Smoke_Client "HOL-Library.Sublist"
begin

text \<open>
  \<open>tests/integration.rs\<close>: the five end-to-end tests, as scripts of peers against a broker without a
  database, and the theorem that all of them pass. A panic of \<open>unwrap\<close> or \<open>expect\<close>, a failed \<open>assert\<close>
  and a wait for a message that never comes are \<open>None\<close>.

  The peers are those of \<open>Smoke_Client\<close>, whose \<open>Peer::sign\<close> is the same: Alice has channel 1 and Bob
  channel 2, and a connection is opened with its first message. The keys, the addresses, and the clocks
  of the peers and of the broker are arguments.
\<close>

section \<open>Peers\<close>

definition spawn_broker :: server where
  "spawn_broker = \<lparr>srv_broker = in_memory, srv_conns = dm_empty\<rparr>"

text \<open>\<open>Peer::expect\<close> for the \<open>k\<close>-th message of a channel.\<close>

definition peer_expect :: "crates \<Rightarrow> server \<Rightarrow> chan_id \<Rightarrow> nat \<Rightarrow> string \<Rightarrow> json option" where
  "peer_expect cr s tx k ty =
     do { v \<leftarrow> recv cr s tx k;
          let got = unwrap_or [] (str_field v ''type'');
          guard (got = ty);
          Some v }"

fun as_bool :: "json \<Rightarrow> bool option" where
  "as_bool (JBool b) = Some b"
| "as_bool _ = None"

definition bool_field :: "json \<Rightarrow> string \<Rightarrow> bool option" where
  "bool_field v k = Option.bind (json_field v k) as_bool"

text \<open>The bodies that the smoke client does not send.\<close>

definition plain_register_body :: "string list \<Rightarrow> json" where
  "plain_register_body addrs = JObj (object_of
     [(''type'', JStr ''register''), (''addresses'', JObj (object_of [(''lan'', JArr (map JStr addrs)), (''public'', JNull)]))])"

definition plain_signal_body :: "string \<Rightarrow> string \<Rightarrow> json" where
  "plain_signal_body dest payload = JObj (object_of
     [(''type'', JStr ''signal''), (''to'', JStr dest), (''payload'', JStr payload)])"

definition lookup_peer_body :: "string \<Rightarrow> string \<Rightarrow> json" where
  "lookup_peer_body target rid = JObj (object_of
     [(''type'', JStr ''lookup_peer''), (''target_pubkey'', JStr target), (''request_id'', JStr rid)])"

definition subscribe_body :: "string list \<Rightarrow> string \<Rightarrow> json" where
  "subscribe_body peers rid = JObj (object_of
     [(''type'', JStr ''subscribe_presence''), (''peers'', JArr (map JStr peers)), (''request_id'', JStr rid)])"

section \<open>The tests\<close>

definition registration_and_lookup :: "crates \<Rightarrow> smoke_env \<Rightarrow> server option" where
  "registration_and_lookup cr env =
     do { let alice = peer_pubkey cr (env_alice env);
          s1 \<leftarrow> open_alice cr env 0 (register_body ''192.168.1.42:51820'' ''r1'') spawn_broker;
          reg \<leftarrow> peer_expect cr s1 1 0 ''registered'';
          peer_id \<leftarrow> str_field reg ''peer_id'';
          guard (peer_id = alice);
          reflected \<leftarrow> str_field reg ''reflected_address'';
          guard (prefix ''127.0.0.1:'' reflected);
          s2 \<leftarrow> alice_send cr env 1 (lookup_peer_body alice ''l1'') s1;
          info \<leftarrow> peer_expect cr s2 1 1 ''peer_info'';
          online \<leftarrow> bool_field info ''online'';
          guard online;
          Some s2 }"

definition signal_delivers_between_peers :: "crates \<Rightarrow> smoke_env \<Rightarrow> server option" where
  "signal_delivers_between_peers cr env =
     do { let alice = peer_pubkey cr (env_alice env);
          let bob = peer_pubkey cr (env_bob env);
          s1 \<leftarrow> open_alice cr env 0 (plain_register_body [''10.0.0.1:51820'']) spawn_broker;
          _ \<leftarrow> peer_expect cr s1 1 0 ''registered'';
          s2 \<leftarrow> open_bob cr env 1 (plain_register_body [''10.0.0.2:51820'']) s1;
          _ \<leftarrow> peer_expect cr s2 2 0 ''registered'';
          let payload = b64_encode cr (map byte_of ''hello bob'');
          s3 \<leftarrow> alice_send cr env 2 (plain_signal_body bob payload) s2;
          got \<leftarrow> peer_expect cr s3 2 1 ''signal'';
          from_pk \<leftarrow> str_field got ''from'';
          guard (from_pk = alice);
          got_payload \<leftarrow> str_field got ''payload'';
          guard (got_payload = payload);
          Some s3 }"

text \<open>The loop that registers both peers, in the next two tests.\<close>

definition register_both :: "crates \<Rightarrow> smoke_env \<Rightarrow> server option" where
  "register_both cr env =
     do { s1 \<leftarrow> open_alice cr env 0 (plain_register_body [''127.0.0.1:0'']) spawn_broker;
          _ \<leftarrow> peer_expect cr s1 1 0 ''registered'';
          s2 \<leftarrow> open_bob cr env 1 (plain_register_body [''127.0.0.1:0'']) s1;
          _ \<leftarrow> peer_expect cr s2 2 0 ''registered'';
          Some s2 }"

definition relay_round_trip :: "crates \<Rightarrow> smoke_env \<Rightarrow> server option" where
  "relay_round_trip cr env =
     do { let bob = peer_pubkey cr (env_bob env);
          s2 \<leftarrow> register_both cr env;
          s3 \<leftarrow> alice_send cr env 2 (request_relay_body bob ''rq1'') s2;
          session \<leftarrow> peer_expect cr s3 1 1 ''relay_session_established'';
          session_id \<leftarrow> str_field session ''session_id'';
          offer \<leftarrow> peer_expect cr s3 2 1 ''relay_offer'';
          offered_id \<leftarrow> str_field offer ''session_id'';
          guard (offered_id = session_id);
          s4 \<leftarrow> bob_send cr env 3 (accept_relay_body session_id ''ac1'') s3;
          _ \<leftarrow> peer_expect cr s4 2 2 ''relay_session_established'';
          _ \<leftarrow> peer_expect cr s4 1 2 ''relay_session_established'';
          let pa = b64_encode cr (map byte_of ''frame A'');
          s5 \<leftarrow> alice_send cr env 4 (relay_body session_id pa) s4;
          got_b \<leftarrow> peer_expect cr s5 2 3 ''relay_data'';
          data_b \<leftarrow> str_field got_b ''data'';
          guard (data_b = pa);
          let pb = b64_encode cr (map byte_of ''frame B'');
          s6 \<leftarrow> bob_send cr env 5 (relay_body session_id pb) s5;
          got_a \<leftarrow> peer_expect cr s6 1 3 ''relay_data'';
          data_a \<leftarrow> str_field got_a ''data'';
          guard (data_a = pb);
          Some s6 }"

text \<open>Dropping a peer closes its socket without a closing handshake; \<open>gone\<close> is what the stream of the
  broker then gives, the end or an error.\<close>

definition presence_subscription_emits_online_offline :: "crates \<Rightarrow> smoke_env \<Rightarrow> stream_item \<Rightarrow> server option" where
  "presence_subscription_emits_online_offline cr env gone =
     do { let bob = peer_pubkey cr (env_bob env);
          s2 \<leftarrow> register_both cr env;
          s3 \<leftarrow> alice_send cr env 2 (subscribe_body [bob] ''sp1'') s2;
          _ \<leftarrow> peer_expect cr s3 1 1 ''subscribe_presence_ack'';
          pu \<leftarrow> peer_expect cr s3 1 2 ''presence_update'';
          peer_id \<leftarrow> str_field pu ''peer_id'';
          guard (peer_id = bob);
          online \<leftarrow> bool_field pu ''online'';
          guard online;
          let s4 = server_step cr s3 (Receive 2 gone (env_tick env 3));
          pu' \<leftarrow> peer_expect cr s4 1 3 ''presence_update'';
          online' \<leftarrow> bool_field pu' ''online'';
          guard (\<not> online');
          Some s4 }"

text \<open>The message made by hand, with a key of its own; the timestamp is five minutes old.\<close>

definition stale_register :: "crates \<Rightarrow> i64 \<Rightarrow> signing_key \<Rightarrow> string option" where
  "stale_register cr now sk =
     (let stale_ts = now - 5 * 60;
          obj = object_of
            [(''type'', JStr ''register''), (''pubkey'', JStr (hex_encode cr (vk_to_bytes cr (sk_public cr sk)))),
             (''addresses'', JObj (object_of [(''lan'', JArr []), (''public'', JNull)])),
             (''timestamp'', JNumber (sint stale_ts)), (''signature'', JStr [])];
          canonical = json_to_vec cr (JObj obj);
          sig = sk_sign cr sk canonical
      in case json_text cr (JObj (btree_insert ''signature'' (JStr (hex_encode cr sig)) obj)) of
           Inl _ \<Rightarrow> None
         | Inr t \<Rightarrow> Some t)"

definition rejects_stale_signed_message :: "crates \<Rightarrow> smoke_env \<Rightarrow> server option" where
  "rejects_stale_signed_message cr env =
     do { t \<leftarrow> stale_register cr (env_now env 0) (env_bob env);
          let s1 = server_step cr spawn_broker (Connect 1 (env_alice_addr env) (Frame (TextFrame t)) (env_tick env 0));
          resp \<leftarrow> recv cr s1 1 0;
          ty \<leftarrow> str_field resp ''type'';
          guard (ty = ''error'');
          cd \<leftarrow> str_field resp ''code'';
          guard (cd = ''stale_message'');
          Some s1 }"

section \<open>The messages that are sent\<close>

declare One_nat_def [simp del]

lemma spawn_broker_new: "spawn_broker = server_new None"
  by (simp add: spawn_broker_def server_new_def in_memory_def)

lemma addresses_value_plain:
  "JObj (object_of [(''lan'', JArr (map JStr as)), (''public'', JNull)]) = addresses_value \<lparr>lan = as, public_addr = None\<rparr>"
  by (simp add: addresses_value_def)

lemma plain_bodies:
  fixes cr now sk
  defines "pk \<equiv> peer_pubkey cr sk"
  shows "body_of cr now sk (plain_register_body as) (Register pk None \<lparr>lan = as, public_addr = None\<rparr> None now [] None)"
    and "body_of cr now sk (plain_signal_body dest payload) (Signal pk dest payload now [] None)"
    and "body_of cr now sk (lookup_peer_body target rid) (LookupPeer pk target now [] (Some rid))"
    and "body_of cr now sk (subscribe_body peers rid) (SubscribePresence pk peers now [] (Some rid))"
  unfolding pk_def body_of_def plain_register_body_def plain_signal_body_def lookup_peer_body_def subscribe_body_def
    addresses_value_plain
  by (auto simp: opt_field_def map_of_object_of fun_eq_iff)


lemmas script_defs = peer_expect_def recv_def str_field_def bool_field_def server_value_def guard_def Let_def

lemma registered_both:
  fixes cr env
  assumes ok: "smoke_crates cr env" and distinct: "peer_pubkey cr (env_alice env) \<noteq> peer_pubkey cr (env_bob env)"
  defines "ra \<equiv> Registered (peer_pubkey cr (env_alice env)) (format_reflected (env_alice_addr env)) False None"
    and "rb \<equiv> Registered (peer_pubkey cr (env_bob env)) (format_reflected (env_bob_addr env)) False None"
  obtains s1 s2 where "open_alice cr env 0 (plain_register_body as) spawn_broker = Some s1"
    and "open_bob cr env 1 (plain_register_body as') s1 = Some s2"
    and "chan_log (b_channels (srv_broker s1)) 1 = [ra]" and "in_session cr env [ra] [rb] s2"
    and "b_limiter (srv_broker s2) = limiter_new" and "b_relay (srv_broker s2) = relay_new"
    and "b_presence (srv_broker s2) = presence_new"
proof -
  have c: "serde_roundtrip cr" "hex_faithful cr" "ed25519_correct cr"
    and t: "\<And>n. n < 7 \<Longrightarrow> check_timestamp (tk_now (env_tick env n)) (env_now env n) = Inr ()"
    using ok by (simp_all add: smoke_crates_def)
  let ?A = "peer_pubkey cr (env_alice env)" and ?B = "peer_pubkey cr (env_bob env)"
  obtain s1 s2 where r: "open_alice cr env 0 (plain_register_body as) (server_new None) = Some s1"
    "open_bob cr env 1 (plain_register_body as') s1 = Some s2" "chan_log (b_channels (srv_broker s1)) 1 = [ra]"
    "talking ?A ?B [ra] [rb] (srv_broker s2)" "dm_get (srv_conns s2) 1 = Some ?A" "dm_get (srv_conns s2) 2 = Some ?B"
    "b_limiter (srv_broker s2) = limiter_new" "b_relay (srv_broker s2) = relay_new" "b_presence (srv_broker s2) = presence_new"
    using smoke_registered [OF c t distinct plain_bodies(1) plain_bodies(1)] unfolding ra_def rb_def by metis
  have "in_session cr env [ra] [rb] s2" using r(4-6) by (simp add: in_session_def)
  from that [OF r(1) [folded spawn_broker_new] r(2,3) this r(7-9)] show ?thesis .
qed

lemma registers_both:
  fixes cr env
  assumes ok: "smoke_crates cr env" and distinct: "peer_pubkey cr (env_alice env) \<noteq> peer_pubkey cr (env_bob env)"
  obtains s la lb where "register_both cr env = Some s" and "in_session cr env [la] [lb] s"
    and "b_relay (srv_broker s) = relay_new" and "b_presence (srv_broker s) = presence_new"
proof -
  let ?ra = "Registered (peer_pubkey cr (env_alice env)) (format_reflected (env_alice_addr env)) False None"
  let ?rb = "Registered (peer_pubkey cr (env_bob env)) (format_reflected (env_bob_addr env)) False None"
  obtain s1 s2 where r: "open_alice cr env 0 (plain_register_body [''127.0.0.1:0'']) spawn_broker = Some s1"
    "open_bob cr env 1 (plain_register_body [''127.0.0.1:0'']) s1 = Some s2" "chan_log (b_channels (srv_broker s1)) 1 = [?ra]"
    "in_session cr env [?ra] [?rb] s2" "b_relay (srv_broker s2) = relay_new" "b_presence (srv_broker s2) = presence_new"
    by (rule registered_both [OF ok distinct])
  have "chan_log (b_channels (srv_broker s2)) 2 = [?rb]" using r(4) by (simp add: in_session_def talking_def)
  with r(1-3) have "register_both cr env = Some s2" by (simp add: register_both_def script_defs)
  from that [OF this r(4-6)] show ?thesis .
qed

lemma registration_and_lookup_passes:
  assumes ok: "smoke_crates cr env" and addr: "env_alice_addr env = V4 127 0 0 1 port"
  shows "\<exists>s. registration_and_lookup cr env = Some s"
proof -
  let ?A = "peer_pubkey cr (env_alice env)"
  have c: "serde_roundtrip cr" "hex_faithful cr" "ed25519_correct cr"
    and t: "check_timestamp (tk_now (env_tick env 0)) (env_now env 0) = Inr ()" "check_timestamp (tk_now (env_tick env 1)) (env_now env 1) = Inr ()"
    using ok by (simp_all add: smoke_crates_def)
  obtain t1 where t1: "sign cr (env_now env 0) (env_alice env) (register_body ''192.168.1.42:51820'' ''r1'') = Some t1"
    and c1: "\<And>s tx addr. server_step cr s (Connect tx addr (Frame (TextFrame t1)) (env_tick env 0)) =
      s\<lparr>srv_broker := register_peer cr (env_tick env 0) addr ?A None \<lparr>lan = [''192.168.1.42:51820''], public_addr = None\<rparr> User
          (Some ''r1'') tx (open_channel tx (srv_broker s)), srv_conns := dm_insert tx ?A (srv_conns s)\<rparr>"
    using smoke_open [OF c bodies(1) t(1)] by blast
  define s1 where "s1 = server_step cr spawn_broker (Connect 1 (env_alice_addr env) (Frame (TextFrame t1)) (env_tick env 0))"
  let ?m = "LookupPeer ?A ?A (env_now env 1) [] (Some ''l1'')"
  have m: "cm_pubkey ?m = ?A" "check_timestamp (tk_now (env_tick env 1)) (cm_timestamp ?m) = Inr ()" using t(2) by simp_all
  obtain t2 where t2: "sign cr (env_now env 1) (env_alice env) (lookup_peer_body ?A ''l1'') = Some t2"
    "json_message cr t2 = Inr (signed_by cr (env_alice env) ?m)"
    "verify_signed_message cr (tk_now (env_tick env 1)) (signed_by cr (env_alice env) ?m) = Inr (sk_public cr (env_alice env))"
    by (rule smoke_send [OF c plain_bodies(3) m])
  have s1: "dm_get (srv_conns s1) 1 = Some ?A" "b_db (srv_broker s1) = None"
    "chan_log (b_channels (srv_broker s1)) 1 = [Registered ?A (format_reflected (env_alice_addr env)) False (Some ''r1'')]"
    "chan_alive (b_channels (srv_broker s1)) 1" "reg_get (b_registry (srv_broker s1)) ?A \<noteq> None"
    unfolding s1_def c1
    by (simp_all add: spawn_broker_def in_memory_def register_peer_def register_db_def open_channel_def send_tx_def
        broadcast_def presence_new_def chan_insert Let_def reg_new_def)
  obtain p where p: "reg_get (b_registry (srv_broker s1)) ?A = Some p" using s1(5) by blast
  obtain b' where b': "dispatch cr (env_tick env 1) ?A 1 (signed_by cr (env_alice env) ?m) (srv_broker s1) = (Inr (), b')"
    "chan_log (b_channels b') 1 = chan_log (b_channels (srv_broker s1)) 1 @
      [PeerInfo (ph_pubkey p) (ph_handle p) (ph_addresses p) (Some (format_reflected (ph_reflected p))) True None (Some ''l1'')]"
    using s1(2,4) p by (auto simp: signed_by_def on_lookup_peer_def resolved_kind_def send_tx_def)
  have "server_step cr s1 (Receive 1 (Frame (TextFrame t2)) (env_tick env 1)) =
    s1\<lparr>srv_broker := b'\<lparr>b_metrics := (b_metrics b')\<lparr>message_handle_count := message_handle_count (b_metrics b') + 1\<rparr>\<rparr>\<rparr>"
    by (rule receive_signed [OF s1(1) t2(2,3) _ b'(1)]) (simp add: signed_by_def)
  moreover have "format_reflected (env_alice_addr env) = ''127.0.0.1:'' @ show_word port"
    by (simp add: addr ipv4_text_def show_word_def show_nat.simps digit_char_def char_of_def bit_0 One_nat_def)
  ultimately show ?thesis
    using s1 b'(2) by (auto simp: registration_and_lookup_def open_alice_def alice_send_def t1 t2(1) s1_def [symmetric] script_defs
        simp del: server_step.simps)
qed


lemma signal_delivers_passes:
  assumes ok: "smoke_crates cr env" "b64_faithful cr" and distinct: "peer_pubkey cr (env_alice env) \<noteq> peer_pubkey cr (env_bob env)"
    and gov: "gov_check cr 100 [] (tk_limiter (env_tick env 2))"
  shows "\<exists>s. signal_delivers_between_peers cr env = Some s"
proof -
  let ?A = "peer_pubkey cr (env_alice env)" and ?B = "peer_pubkey cr (env_bob env)"
  let ?ra = "Registered ?A (format_reflected (env_alice_addr env)) False None"
  let ?rb = "Registered ?B (format_reflected (env_bob_addr env)) False None"
  let ?hello = "b64_encode cr (map byte_of ''hello bob'')"
  have len: "length (map byte_of ''hello bob'') \<le> 4096" and n: "2 < (7 :: nat)" by simp_all
  obtain s1 s2 where r: "open_alice cr env 0 (plain_register_body [''10.0.0.1:51820'']) spawn_broker = Some s1"
    "open_bob cr env 1 (plain_register_body [''10.0.0.2:51820'']) s1 = Some s2" "chan_log (b_channels (srv_broker s1)) 1 = [?ra]"
    "in_session cr env [?ra] [?rb] s2" "b_limiter (srv_broker s2) = limiter_new"
    by (rule registered_both [OF ok(1) distinct])
  obtain s3 where q: "alice_send cr env 2 (plain_signal_body ?B ?hello) s2 = Some s3"
    "in_session cr env [?ra] ([?rb] @ [SignalMsg ?A ?hello (tk_sent (env_tick env 2))]) s3"
    by (rule alice_signals [OF ok n gov plain_bodies(2) len r(4,5)])
  show ?thesis
    using r q by (simp add: signal_delivers_between_peers_def script_defs in_session_def talking_def)
qed

lemma relay_round_trip_passes:
  assumes ok: "smoke_crates cr env" "b64_faithful cr" "uuid_faithful cr"
    and distinct: "peer_pubkey cr (env_alice env) \<noteq> peer_pubkey cr (env_bob env)"
  shows "\<exists>s. relay_round_trip cr env = Some s"
proof -
  let ?A = "peer_pubkey cr (env_alice env)" and ?B = "peer_pubkey cr (env_bob env)" and ?sid = "tk_session (env_tick env 2)"
  have n: "2 < (7 :: nat)" "3 < (7 :: nat)" "4 < (7 :: nat)" "5 < (7 :: nat)"
    and len: "length (map byte_of ''frame A'') \<le> 65536" "length (map byte_of ''frame B'') \<le> 65536" by simp_all
  obtain s2 la lb where r: "register_both cr env = Some s2" "in_session cr env [la] [lb] s2" "b_relay (srv_broker s2) = relay_new"
    by (rule registers_both [OF ok(1) distinct])
  obtain s3 where q: "alice_send cr env 2 (request_relay_body ?B ''rq1'') s2 = Some s3"
    "in_session cr env ([la] @ [RelaySessionEstablished (uuid_text cr ?sid) ?B (Some ''rq1'')])
      ([lb] @ [RelayOffer (uuid_text cr ?sid) ?A]) s3"
    "dm_get (sessions (b_relay (srv_broker s3))) ?sid = Some \<lparr>initiator = ?A, responder = ?B, sess_state = Pending\<rparr> \<and>
      quotas (b_relay (srv_broker s3)) = dm_empty"
    by (rule alice_requests [OF ok(1) n(1) r(2,3)])
  show ?thesis
    by (rule smoke_accept_relay [OF ok distinct n(2-4) len q(2,3), where rid = "''ac1''"])
      (use r(1) q(1,2) in \<open>simp add: relay_round_trip_def script_defs in_session_def talking_def\<close>)
qed

lemma reg_online_one: "reg_get r pk = Some p \<Longrightarrow> reg_online_set r [pk] = [(pk, True)]"
  by (simp add: reg_online_set_def reg_get_def)

lemma dispatch_subscribe:
  assumes "talking A B la lb b" and "b_presence b = presence_new" and "A \<noteq> B"
  shows "\<exists>b'. dispatch cr tk A 1 (SubscribePresence A [B] ts sg rid) b = (Inr (), b') \<and>
    talking A B (la @ [SubscribePresenceAck [B] rid, PresenceUpdate B True]) lb b' \<and>
    dm_get (watchers (b_presence b')) B = Some [A] \<and> dm_get (subscriptions (b_presence b')) B = None"
  using assms
  by (auto simp: talking_def on_subscribe_def Let_def send_tx_log reg_online_one subscribe_def presence_new_def hs_insert_def)

text \<open>The teardown of Bob's session tells Alice, who watches him.\<close>

lemma teardown_tells_watcher:
  assumes "talking A B la lb b" and "A \<noteq> B" and "dm_get (watchers (b_presence b)) B = Some [A]"
    and "dm_get (subscriptions (b_presence b)) B = None"
  shows "chan_log (b_channels (serve_end B b)) 1 = la @ [PresenceUpdate B False]"
  using assms
  by (auto simp: talking_def serve_end_def Let_def broadcast_def clear_subscriber_def try_send_eq)

lemma presence_subscription_passes:
  assumes ok: "smoke_crates cr env" and distinct: "peer_pubkey cr (env_alice env) \<noteq> peer_pubkey cr (env_bob env)"
    and gone: "gone = EndOfStream \<or> gone = StreamError"
  shows "\<exists>s. presence_subscription_emits_online_offline cr env gone = Some s"
proof -
  let ?A = "peer_pubkey cr (env_alice env)" and ?B = "peer_pubkey cr (env_bob env)"
  have n: "2 < (7 :: nat)" by simp
  obtain s2 la lb where r: "register_both cr env = Some s2" "in_session cr env [la] [lb] s2" "b_presence (srv_broker s2) = presence_new"
    by (rule registers_both [OF ok distinct])
  have t: "talking ?A ?B [la] [lb] (srv_broker s2)" using r(2) by (simp add: in_session_def)
  obtain s3 where q: "alice_send cr env 2 (subscribe_body [?B] ''sp1'') s2 = Some s3"
    "in_session cr env ([la] @ [SubscribePresenceAck [?B] (Some ''sp1''), PresenceUpdate ?B True]) [lb] s3"
    "dm_get (watchers (b_presence (srv_broker s3))) ?B = Some [?A] \<and> dm_get (subscriptions (b_presence (srv_broker s3))) ?B = None"
    by (rule alice_sends [OF ok n r(2) plain_bodies(4), where
        P = "\<lambda>pm r. dm_get (watchers pm) ?B = Some [?A] \<and> dm_get (subscriptions pm) ?B = None"])
      (use dispatch_subscribe [OF t r(3) distinct] in \<open>simp_all add: signed_by_def\<close>)
  have q2: "dm_get (srv_conns s3) 2 = Some ?B" "talking ?A ?B ([la] @ [SubscribePresenceAck [?B] (Some ''sp1''), PresenceUpdate ?B True]) [lb] (srv_broker s3)"
    using q(2) by (simp_all add: in_session_def)
  let ?s4 = "server_step cr s3 (Receive 2 gone (env_tick env 3))"
  have "chan_log (b_channels (srv_broker ?s4)) 1 =
      ([la] @ [SubscribePresenceAck [?B] (Some ''sp1''), PresenceUpdate ?B True]) @ [PresenceUpdate ?B False]"
    using teardown_tells_watcher [OF q2(2) distinct] q(3) gone q2(1) by auto
  then show ?thesis
    using r(1) q(1) q2(2)
    by (simp add: presence_subscription_emits_online_offline_def script_defs talking_def del: server_step.simps)
qed

text \<open>The message made by hand is that of the script up to its age.\<close>

lemma stale_register_text:
  assumes "serde_roundtrip cr"
  obtains t where "stale_register cr now sk = Some t"
    and "json_message cr t = Inr (signed_by cr sk (Register (peer_pubkey cr sk) None \<lparr>lan = [], public_addr = None\<rparr> None (now - 300) [] None))"
proof -
  let ?m = "Register (peer_pubkey cr sk) None \<lparr>lan = [], public_addr = None\<rparr> None (now - 300) [] None"
  obtain t where t: "sign cr (now - 300) sk (plain_register_body []) = Some t" "json_message cr t = Inr (signed_by cr sk ?m)"
    by (rule sign_text [OF plain_bodies(1) assms])
  have obj: "object_of [(''type'', JStr ''register''), (''pubkey'', x), (''addresses'', y), (''timestamp'', z), (''signature'', w)] =
      btree_insert ''signature'' w (btree_insert ''timestamp'' z (btree_insert ''pubkey'' x
        (object_of [(''type'', JStr ''register''), (''addresses'', y)])))" for x y z w
    by (intro strictly_sorted_ext strictly_sorted_object_of sorted_btree_insert) (auto simp: map_of_object_of fun_eq_iff)
  have "stale_register cr now sk = sign cr (now - 300) sk (plain_register_body [])"
    unfolding stale_register_def Let_def obj by (simp add: sign_def plain_register_body_def peer_pubkey_def Let_def)
  with t that show ?thesis by simp
qed

lemma five_minutes_is_stale:
  assumes "check_timestamp t now = Inr ()" and "300 \<le> sint now" and "0 \<le> sint t" and "sint t < 2 ^ 62"
  shows "check_timestamp t (now - 300) = Inl (StaleMessage (t - (now - 300)))"
proof -
  have "\<bar>sint t - sint now\<bar> \<le> 60" using assms(1) check_timestamp_ok [OF assms(3,4)] by simp
  moreover have "sint (now - 300) = sint now - 300" using assms(2) sint_i64_bounds [of now] by (simp add: sint_diff_i64)
  ultimately show ?thesis using assms(2) by (intro check_timestamp_cases(1) assms(3,4)) simp_all
qed

lemma rejects_stale_passes:
  assumes ok: "smoke_crates cr env" and now: "300 \<le> sint (env_now env 0)" "0 \<le> sint (tk_now (env_tick env 0))" "sint (tk_now (env_tick env 0)) < 2 ^ 62"
  shows "\<exists>s. rejects_stale_signed_message cr env = Some s"
proof -
  let ?m = "Register (peer_pubkey cr (env_bob env)) None \<lparr>lan = [], public_addr = None\<rparr> None (env_now env 0 - 300) [] None"
  have c: "serde_roundtrip cr" "hex_faithful cr" "ed25519_correct cr"
    and t: "check_timestamp (tk_now (env_tick env 0)) (env_now env 0) = Inr ()"
    using ok by (simp_all add: smoke_crates_def)
  obtain t where r: "stale_register cr (env_now env 0) (env_bob env) = Some t" "json_message cr t = Inr (signed_by cr (env_bob env) ?m)"
    by (rule stale_register_text [OF c(1)])
  obtain d where "verify_signed_message cr (tk_now (env_tick env 0)) (signed_by cr (env_bob env) ?m) = Inl (StaleMessage d)"
    using five_minutes_is_stale [OF t now] peer_pubkey_parses [OF c(2,3)] by (simp add: verify_signed_message_def signed_by_def)
  with r show ?thesis
    by (simp add: rejects_stale_signed_message_def serve_start_def signed_by_def script_defs open_channel_def spawn_broker_def
        send_tx_log error_msg_def chan_insert)
qed


section \<open>All of them pass\<close>

text \<open>
  (C38) The integration tests of the repository pass against the model: with crates that do what they document,
  peers with different keys that connect from the loopback address, and clocks after the first minutes of
  1970 that agree within the replay window, each of the five scripts runs to its end, whichever way the
  broker's stream reports the peer that was dropped.
\<close>
theorem integration_tests_pass:
  assumes "serde_roundtrip cr" and "hex_faithful cr" and "ed25519_correct cr" and "b64_faithful cr" and "uuid_faithful cr"
    and "gov_check cr 100 [] (tk_limiter (env_tick env 2))"
    and "\<And>n. n < 7 \<Longrightarrow> check_timestamp (tk_now (env_tick env n)) (env_now env n) = Inr ()"
    and "peer_pubkey cr (env_alice env) \<noteq> peer_pubkey cr (env_bob env)"
    and "env_alice_addr env = V4 127 0 0 1 port"
    and "300 \<le> sint (env_now env 0)" and "0 \<le> sint (tk_now (env_tick env 0))" and "sint (tk_now (env_tick env 0)) < 2 ^ 62"
    and "gone = EndOfStream \<or> gone = StreamError"
  shows "registration_and_lookup cr env \<noteq> None \<and> signal_delivers_between_peers cr env \<noteq> None \<and>
    relay_round_trip cr env \<noteq> None \<and> presence_subscription_emits_online_offline cr env gone \<noteq> None \<and>
    rejects_stale_signed_message cr env \<noteq> None"
proof -
  have ok: "smoke_crates cr env" using assms(1-3,7) by (simp add: smoke_crates_def)
  show ?thesis
    using registration_and_lookup_passes [OF ok assms(9)] signal_delivers_passes [OF ok assms(4,8,6)]
      relay_round_trip_passes [OF ok assms(4,5,8)] presence_subscription_passes [OF ok assms(8,13)]
      rejects_stale_passes [OF ok assms(10-12)]
    by blast
qed

definition demo_test_env :: smoke_env where
  "demo_test_env = demo_env\<lparr>env_alice_addr := V4 127 0 0 1 4000, env_bob_addr := V4 127 0 0 1 4001\<rparr>"

theorem integration_tests_pass_witness:
  "registration_and_lookup demo_serde demo_test_env \<noteq> None \<and> relay_round_trip demo_serde demo_test_env \<noteq> None \<and>
   presence_subscription_emits_online_offline demo_serde demo_test_env StreamError \<noteq> None \<and>
   rejects_stale_signed_message demo_serde demo_test_env \<noteq> None"
proof -
  let ?env = demo_test_env
  have c: "check_timestamp (tk_now (env_tick ?env n)) (env_now ?env n) = Inr ()" for n
    by (simp add: demo_test_env_def demo_env_def check_timestamp_ok)
  have g: "gov_check demo_serde 100 [] (tk_limiter (env_tick ?env 2))"
    by (simp add: demo_serde_def gcra_def gcra_state_def)
  have d: "peer_pubkey demo_serde (env_alice ?env) \<noteq> peer_pubkey demo_serde (env_bob ?env)"
    using demo_keys_differ by (simp add: demo_test_env_def demo_env_def)
  have a: "env_alice_addr ?env = V4 127 0 0 1 4000" and t: "300 \<le> sint (env_now ?env 0)" "0 \<le> sint (tk_now (env_tick ?env 0))"
    "sint (tk_now (env_tick ?env 0)) < 2 ^ 62" by (simp_all add: demo_test_env_def demo_env_def)
  show ?thesis
    using integration_tests_pass [OF demo_serde_roundtrip demo_serde_crates g c d a t, of StreamError] by blast
qed

end
