(* ===== verification/Spec2Isabelle.thy ===== *)
theory Spec2Isabelle
  imports Demo_Server Smoke_Client Claim_Race Http Utf8 Backpressure Relay_Concurrent
    Limiter_Race Presence_Concurrent Presence_Order Metrics_Registry Unit_Tests Integration_Tests
begin

text \<open>
  A verification of the HashedNetworks coordination broker, a Rust server (\<open>src/src/\<close>) that lets
  peers with Ed25519 keys find each other over websockets: it registers them, resolves handles,
  tells watchers who is online, passes signaling payloads on, relays traffic between two peers
  that agreed to it, and keeps handles and teams in Postgres.

  \<^bold>\<open>The parts and where they are modelled.\<close>

  \<^item> \<open>Prelude\<close>: result values, decimal text, \<open>DashMap\<close> (\<open>dashmap\<close>, an association list without repeated
    keys) behind the interface \<open>key_store\<close>, and the notions of a machine driven by events
    (\<open>event_machine\<close>), of a simulation (\<open>simulation\<close>) and of tasks that interleave
    (\<open>transition_system\<close>) that the components instantiate.
  \<^item> \<open>Broker_Error\<close> (\<open>error.rs\<close>), \<open>Protocol\<close> and \<open>Wire\<close> (\<open>protocol.rs\<close>, and the writer task of
    \<open>server.rs\<close>): messages, their JSON as the serde attributes give it, the canonical signing bytes,
    and what a connection's writer puts on the socket.
  \<^item> \<open>Crates\<close>: the third-party code the broker calls, as a record of functions that every
    definition takes, with named hypotheses that state what those crates document. \<open>Demo_Crates\<close>
    and \<open>Demo_Json\<close> give an executable instance that satisfies all of them.
  \<^item> \<open>Auth\<close> (\<open>auth.rs\<close>), \<open>Stun\<close> (\<open>stun.rs\<close>), \<open>Registry\<close> (\<open>registry.rs\<close>), \<open>Presence\<close> (\<open>presence.rs\<close>), \<open>F64\<close>,
    \<open>Quota\<close> and \<open>Relay_Manager\<close> (\<open>relay.rs\<close>), \<open>Signaling\<close> (\<open>signaling.rs\<close>), \<open>Db\<close> (\<open>db.rs\<close> and the schema of
    \<open>migrations/\<close>), \<open>Handles\<close> (\<open>handles.rs\<close>), \<open>Teams\<close> (\<open>teams.rs\<close>), \<open>Metrics\<close> and
    \<open>Metrics_Registry\<close> (\<open>metrics.rs\<close>), \<open>Lossy\<close> (\<open>String::from_utf8_lossy\<close>): one definition per
    function of the source, under its name, with the state of the component as a record.
  \<^item> \<open>Server\<close> (\<open>server.rs\<close>): \<open>broker\<close> is \<open>AppState\<close>; \<open>dispatch\<close> and its \<open>on_...\<close> handlers are the match of
    \<open>handle_client_message\<close>; \<open>serve_start\<close>, \<open>pump_item\<close> and \<open>serve_end\<close> are the parts of \<open>serve_socket\<close>;
    \<open>server_step\<close> runs all connections, one event at a time. \<open>Server_Safety\<close> and \<open>Server_Invariant\<close>
    hold what is shown of them, \<open>Demo_Server\<close> a short concrete history.
  \<^item> \<open>Session\<close>: \<open>serve_socket\<close> and \<open>pump_messages\<close> as one task per connection, with a loop that need not
    end and awaits that need not return: which of them do is an argument, \<open>awaits\<close>. \<open>Startup\<close> and \<open>Http\<close>: \<open>main.rs\<close>, the router, the plain pages and the websocket upgrade with
    its limit, which the websocket keeps to (\<open>ws_limits\<close>, a hypothesis on \<open>axum\<close>). \<open>Smoke_Client\<close> (\<open>bin/smoke_client.rs\<close>). \<open>Unit_Tests\<close>: the tests that the sources carry.
    \<open>Integration_Tests\<close> (\<open>tests/integration.rs\<close>): the end-to-end tests, as scripts of peers.
    \<open>Utf8\<close>: a reference definition of UTF-8 for \<open>Lossy\<close>, and binary frames read as text.
  \<^item> What overlaps: \<open>Claim_Race\<close> (concurrent \<open>claim_handle\<close> transactions, statement by statement),
    \<open>Relay_Concurrent\<close> (the operations of \<open>relay.rs\<close>, cut at every access to a shared map and every
    await), \<open>Presence_Concurrent\<close> and \<open>Limiter_Race\<close> (those of \<open>presence.rs\<close> and of the limiter in
    \<open>signaling.rs\<close>, cut at every access to a shared map), \<open>Presence_Order\<close> (a subscription against a
    registration or a teardown) and \<open>Backpressure\<close> (the bounded channels, as \<open>tokio::sync::mpsc\<close> documents them, with
    senders that wait and writers that stall, fail and close). The steps of each, run alone, are shown to be the operation of
    the sequential theory.

  \<^bold>\<open>How the code became definitions.\<close> A fallible function returns \<open>broker_error + 'a\<close>, and every early
  return is a branch. \<open>i64\<close>, \<open>u64\<close> and \<open>u8\<close> are words of their width, so the subtraction in
  \<open>check_timestamp\<close> and the addition to \<open>day_used\<close> wrap as they do in a release build; the \<open>f64\<close> of the
  token bucket is the rational it denotes with IEEE rounding after every operation. Strings are
  lists of UTF-8 bytes. Every reading of a clock and every fresh identifier is an argument,
  collected in a \<open>tick\<close> per frame. A channel is the log of what was sent to it and whether its
  receiver lives; \<open>Backpressure\<close> shows that the bounded channels implement this. Every round
  trip to Postgres works, is lost, or takes effect without being acknowledged, as a list of
  outcomes says; past the end of the list all work. In \<open>Server\<close> the handling of one frame is one step:
  frames of all connections interleave in any order, the awaits inside a handler do not, except in the
  theories on what overlaps named above. In \<open>Db\<close> and \<open>Signaling\<close>, likewise, an operation is one step: what they show of
  sequences of operations is of operations that do not overlap, and \<open>Claim_Race\<close> and \<open>Limiter_Race\<close> say what
  is left of it when they do. The message loop is a partial function into options, and it is shown
  when it returns; all other functions are total. No fuel is used except for the nesting of the example
  reader in \<open>Demo_Json\<close>, where it is the length of the text.

  \<^bold>\<open>What is shown.\<close>

  \<^item> Authentication: whatever a peer is sent in another's name was in a message that verified
    under the other's key; sessions begin with a verified registration; a signature covers every
    field but itself; the replay window is exact for every \<open>i64\<close>; what a client signs the way the
    smoke client does is accepted.
  \<^item> Limits: bytes relayed for a peer in any history stay below the bucket and one MiB per second,
    up to \<open>f64\<close> rounding; one GiB in one window; the signals of a key whose limiter is stored stay below the rate of the
    limiter crate, however their checks overlap; no message over 256 KiB is handled and a longer one ends its connection.
  \<^item> Ownership: a handle has one owner however claims overlap and wherever they are cut off; an
    acknowledged claim is owned and stays owned; a claim happens in both tables or in neither. A key has one handle as
    long as its own claims do not overlap; when they do it can get two.
  \<^item> Functional behaviour of every operation on every branch: forwarding, consent, signaling,
    presence (a refinement of the relation of who watches whom), lookups, announcements.
  \<^item> Concurrency: no frame crosses the relay without consent in any interleaving; bounded channels
    keep the order of sends and a sender waits for its turn only; a connection's task is the event
    machine, and returns exactly when its stream ends and every send and the writer it waits for return; binary frames are read as
    the text they hold; in any interleaving a peer is told of another only if it subscribed, a peer that joins during a
    subscription to it is announced, and each rate limiter keeps its rate.
  \<^item> Composition: the invariant of the whole server in every history, teardown that leaves nothing
    behind, refused messages without effect, in-order delivery by the writer, a true health page, metrics
    that register without a panic, and complete runs of the smoke client's script, the unit tests and
    the integration tests.
  \<^item> Where the code falls short of its comments the shortfall is proved: the teardown of an old
    connection evicts a newer one, a team announcement trusts the admin it names and writes before
    it verifies, the daily window tumbles, key texts with and without prefix are two peers, a stale
    handle index, handle lookups without a database, a timestamp so old that it counts as future, a
    peer that stops reading and holds up those who send to it, a session that outlives a teardown, a
    subscription that a disconnecting watcher takes away, an answer that is out of date when it is
    sent, two first signals that double the limit.

  \<^bold>\<open>Not modelled.\<close> Logging (\<open>tracing\<close>); what \<open>axum\<close> and \<open>tower_http\<close> answer by themselves, how the websocket enforces its limit, and the
  listening socket (arguments of \<open>Http\<close>); the text of the metrics (\<open>prometheus\<close>, an argument) and the
  durations in its histogram; the parsing of JSON text (\<open>serde_json\<close>, a parameter); the interleaving
  of the other handlers' steps across components, such as a registration between its write to the
  database and its entry in the registry; the time limits of the tests; \<open>lib.rs\<close>, which only declares the modules;
  the TypeScript client and the deployment.
\<close>

section \<open>Who is connected\<close>

text \<open>
  (C3) Sessions are authenticated: in every history of the server, a connection that is in the
  message loop for a public key, and the channel under which the registry lists a public key,
  began with a register message of that key whose signature verified.
\<close>
theorem sessions_authenticated:
  "(dm_get (srv_conns (foldl (server_step cr) (server_new db) es)) tx = Some pk \<longrightarrow> registered_by cr es tx pk) \<and>
   (reg_get (b_registry (srv_broker (foldl (server_step cr) (server_new db) es))) pk = Some p \<longrightarrow>
      registered_by cr es (ph_tx p) pk)"
  by (rule sessions_registered)

theorem sessions_authenticated_witness:
  "dm_get (srv_conns demo_server) 1 = Some (demo_key CHR ''1'') \<and> registered_by demo_wire demo_events 1 (demo_key CHR ''1'')"
proof -
  have c: "dm_get (srv_conns demo_server) 1 = Some (demo_key CHR ''1'')"
    by (simp add: demo_server_def demo_events_def demo_starts server_new_def)
  with sessions_authenticated [of demo_wire None demo_events 1 "demo_key CHR ''1''"] show ?thesis
    by (simp add: demo_server_def)
qed

lemma server_run_inv: "server.legal_run cr (server_new db) es s \<Longrightarrow> pool_inv db \<Longrightarrow> server_inv s"
  by (rule server.legal_run_inv [OF _ server_new_inv])

lemma demo_run: "server.legal_run demo_wire (server_new None) demo_events demo_server"
  unfolding demo_server_def demo_events_def foldl.simps
  by (intro server.legal_cons server.legal_nil)
    (simp_all add: demo_starts server_new_def in_memory_def register_peer_def register_db_def open_channel_def send_tx_def Let_def
      broadcast_def presence_new_def chan_send_def split: option.split)

text \<open>
  (C4) The server stays consistent in every history in which new connections get new channels,
  with or without a database and with any database failures: the registry lists open sessions
  only, each under its own key; two peers never share a channel; the gauge of connected peers
  is the number of open sessions; and the components' own invariants hold in the shared state.
\<close>
theorem server_consistent:
  assumes "server.legal_run cr (server_new db) es s" and "pool_inv db"
  shows "(\<forall>pk p. reg_get (b_registry (srv_broker s)) pk = Some p \<longrightarrow>
      ph_pubkey p = pk \<and> dm_get (srv_conns s) (ph_tx p) = Some pk) \<and>
    own_channels (b_registry (srv_broker s)) \<and>
    connected_peers (b_metrics (srv_broker s)) = of_nat (card {tx. dm_get (srv_conns s) tx \<noteq> None}) \<and>
    presence_inv (b_presence (srv_broker s)) \<and> relay_inv (b_relay (srv_broker s), b_channels (srv_broker s)) \<and>
    limiter_inv (b_limiter (srv_broker s)) \<and> pool_inv (b_db (srv_broker s))"
proof -
  have inv: "server_inv s" using assms by (rule server_run_inv)
  then have "own_channels (b_registry (srv_broker s))"
    unfolding server_inv_def own_channels_def by (metis option.inject)
  moreover have "dm_len (srv_conns s) = card {tx. dm_get (srv_conns s) tx \<noteq> None}"
    using inv by (intro dm_len_eq) (simp add: server_inv_def)
  ultimately show ?thesis using inv by (simp add: server_inv_def broker_inv_def relay_inv_def)
qed

theorem server_consistent_witness:
  "own_channels (b_registry (srv_broker demo_server)) \<and>
   connected_peers (b_metrics (srv_broker demo_server)) = of_nat (card {tx. dm_get (srv_conns demo_server) tx \<noteq> None})"
  using server_consistent [OF demo_run] by simp

section \<open>What a refused message does\<close>

text \<open>
  (C6) A message that is not its session's does nothing: a text that does not parse, does not
  verify, or carries another public key leaves the registry, presence, relay, limiter,
  database and all other channels as they were; the session gets one error message with the
  request id of the text, and the message is counted as handled.
\<close>
theorem foreign_message_inert:
  assumes "\<not> (\<exists>msg vk. json_message cr text = Inr msg \<and> verify_signed_message cr (tk_now tk) msg = Inr vk \<and> cm_pubkey msg = pk)"
  shows "\<exists>e. pump_text cr tk pk tx text b =
    send_tx tx (error_msg e (parse_request_id cr text))
      (b\<lparr>b_metrics := (b_metrics b)\<lparr>message_handle_count := message_handle_count (b_metrics b) + 1\<rparr>\<rparr>) \<and>
    (case json_message cr text of
       Inl d \<Rightarrow> e = Malformed (''parse: '' @ d)
     | Inr msg \<Rightarrow> (case verify_signed_message cr (tk_now tk) msg of Inl d \<Rightarrow> e = d | Inr _ \<Rightarrow> code e = ''malformed''))"
proof (cases "json_message cr text")
  case (Inr msg)
  then show ?thesis using assms
    by (cases "verify_signed_message cr (tk_now tk) msg") (auto simp: pump_text_def handle_client_message_def Let_def)
qed (auto simp: pump_text_def handle_client_message_def Let_def)

theorem foreign_message_inert_witness:
  "\<exists>e. pump_text demo_wire demo_tick (demo_key CHR ''2'') 2 ''s'' in_memory =
     send_tx 2 (error_msg e None) (in_memory\<lparr>b_metrics := metrics_new\<lparr>message_handle_count := 1\<rparr>\<rparr>) \<and> code e = ''malformed''"
proof -
  have no: "\<not> (\<exists>msg vk. json_message demo_wire ''s'' = Inr msg \<and>
      verify_signed_message demo_wire (tk_now demo_tick) msg = Inr vk \<and> cm_pubkey msg = demo_key CHR ''2'')"
    by (auto simp: demo_read_def)
  from foreign_message_inert [OF no, of 2 in_memory] show ?thesis
    by (auto simp: demo_read_def demo_verifies [of "CHR ''1''" 1] parse_request_id_def in_memory_def metrics_new_def)
qed

theorem delivered_messages_authenticated_witness:
  "\<exists>tx item tk msg. Receive tx item tk \<in> set demo_events \<and> verified_in demo_wire (tk_now tk) item msg \<and>
     cm_pubkey msg = demo_key CHR ''1'' \<and> authored msg (SignalMsg (demo_key CHR ''1'') ''offer'' 1000)"
proof -
  have "SignalMsg (demo_key CHR ''1'') ''offer'' 1000 \<in>
      set (chan_log (b_channels (srv_broker (foldl (server_step demo_wire) (server_new None) demo_events))) 2)"
    using demo_server_eval by (simp add: demo_server_def)
  from delivered_messages_authenticated [OF this] show ?thesis by simp
qed

section \<open>Disconnection\<close>

lemma receive_closing:
  "closing item \<Longrightarrow> dm_get (srv_conns s) tx = Some pk \<Longrightarrow>
   server_step cr s (Receive tx item tk) =
     s\<lparr>srv_broker := close_channel tx (serve_end pk (srv_broker s)), srv_conns := dm_remove tx (srv_conns s)\<rparr>"
  by (auto simp: closing_def)

text \<open>
  (C5) A disconnection leaves nothing behind: when the connection of a peer ends, in every
  history, the registry no longer lists the peer, it watches no one, no relay session it took
  part in is left while the others are kept, and every connected watcher of it is told once
  that it is offline.
\<close>
theorem disconnect_cleans_up:
  assumes "server.legal_run cr (server_new db) es s" and "pool_inv db"
    and "dm_get (srv_conns s) tx = Some pk" and "closing item"
  shows "let b = srv_broker s; b' = srv_broker (server_step cr s (Receive tx item tk)) in
    \<not> reg_is_online (b_registry b') pk \<and>
    watches (b_presence b') = watches (b_presence b) - {pk} \<times> UNIV \<and>
    (\<forall>sid. dm_get (sessions (b_relay b')) sid =
       (case dm_get (sessions (b_relay b)) sid of
          Some r \<Rightarrow> if pk \<in> {initiator r, responder r} then None else Some r | None \<Rightarrow> None)) \<and>
    (\<forall>j. chan_log (b_channels b') j = chan_log (b_channels b) j @
       (if chan_alive (b_channels b) j \<and>
           (\<exists>w p. w \<noteq> pk \<and> (w, pk) \<in> watches (b_presence b) \<and> reg_get (b_registry b) w = Some p \<and> ph_tx p = j)
        then [PresenceUpdate pk False] else []))"
proof -
  let ?b = "srv_broker s"
  have inv: "server_inv s" using assms(1,2) by (rule server_run_inv)
  then have pinv: "presence_inv (b_presence ?b)" and rinv: "dm_wf (sessions (b_relay ?b))"
    and own: "own_channels (b_registry ?b)"
    unfolding server_inv_def broker_inv_def relay_inv_def own_channels_def by (auto, metis option.inject)
  have own': "own_channels (snd (reg_remove pk (b_registry ?b)))"
    using own unfolding own_channels_def by (auto split: if_splits)
  note cleared = presence_inv_clear [OF pinv, of pk]
  have logs: "chan_log (b_channels (serve_end pk ?b)) j = chan_log (b_channels ?b) j @
       (if chan_alive (b_channels ?b) j \<and>
           (\<exists>w p. w \<noteq> pk \<and> (w, pk) \<in> watches (b_presence ?b) \<and> reg_get (b_registry ?b) w = Some p \<and> ph_tx p = j)
        then [PresenceUpdate pk False] else [])" for j
    using broadcast_exact [OF cleared(1) own', of pk False "b_channels ?b" j]
    by (auto simp: serve_end_def Let_def cleared(2) split: if_splits)
  show ?thesis
    unfolding receive_closing [OF assms(4,3)] Let_def
    by (auto simp: logs serve_end_frame reg_is_online_iff cleared session_drop(1) [OF rinv] split: option.split)
qed

theorem disconnect_cleans_up_witness:
  "\<not> reg_is_online (b_registry (srv_broker (server_step demo_wire demo_server (Receive 1 EndOfStream demo_tick)))) (demo_key CHR ''1'')"
proof -
  have c: "dm_get (srv_conns demo_server) 1 = Some (demo_key CHR ''1'')"
    by (simp add: demo_server_def demo_events_def demo_starts server_new_def)
  have e: "closing EndOfStream" by (simp add: closing_def)
  show ?thesis
    using disconnect_cleans_up [OF demo_run _ c e, of demo_tick] unfolding Let_def by simp
qed

text \<open>
  (C35) The teardown of a connection evicts a newer session of the same key: when a peer is
  connected twice and the older connection ends, the registry forgets the peer, although the
  other connection is still in its message loop.
\<close>
theorem stale_teardown_evicts_live_session:
  assumes "dm_get (srv_conns s) old = Some pk" and "dm_get (srv_conns s) new = Some pk" and "old \<noteq> new"
    and "closing item"
  shows "let s' = server_step cr s (Receive old item tk) in
    dm_get (srv_conns s') new = Some pk \<and> reg_get (b_registry (srv_broker s')) pk = None"
  unfolding receive_closing [OF assms(4,1)] Let_def
  using assms(2,3) by (simp add: serve_end_frame)

theorem stale_teardown_evicts_live_session_witness:
  "let s' = foldl (server_step demo_wire) (server_new None)
      [Connect 1 (V4 10 0 0 1 4000) (demo_text ''r1'') demo_tick,
       Connect 2 (V4 10 0 0 1 4001) (demo_text ''r1'') demo_tick, Receive 1 EndOfStream demo_tick]
   in dm_get (srv_conns s') 2 = Some (demo_key CHR ''1'') \<and> reg_get (b_registry (srv_broker s')) (demo_key CHR ''1'') = None"
proof -
  let ?s = "foldl (server_step demo_wire) (server_new None)
      [Connect 1 (V4 10 0 0 1 4000) (demo_text ''r1'') demo_tick,
       Connect 2 (V4 10 0 0 1 4001) (demo_text ''r1'') demo_tick]"
  have "dm_get (srv_conns ?s) 1 = Some (demo_key CHR ''1'')" "dm_get (srv_conns ?s) 2 = Some (demo_key CHR ''1'')"
    by (simp_all add: demo_starts server_new_def)
  from stale_teardown_evicts_live_session [OF this, of EndOfStream demo_wire demo_tick] show ?thesis
    by (simp add: closing_def del: server_step.simps)
qed

section \<open>Discovery\<close>

text \<open>
  Without a database no handle can be looked up: in every history of a broker started
  without Postgres, every handle lookup is answered with \<open>peer_not_found\<close>, whatever the
  connected peers asked to be called.
\<close>
theorem handle_lookup_needs_database:
  "let b = srv_broker (foldl (server_step cr) (server_new None) es) in
   dispatch cr tk spk tx (LookupHandle pk h ts sg rid) b = (Inr (), send_tx tx (error_msg PeerNotFound rid) b)"
  using no_handles_run [of cr es] by (simp add: Let_def on_lookup_handle_def resolve_target_def no_handles_def)

text \<open>
  A registered peer is found: right after a connection has registered a public key, a
  lookup of that key by any session is answered with the addresses it declared and the address
  its connection came from, whatever the database does; the handle that is shown is the one it
  asked for, or none.
\<close>
theorem registered_peer_found:
  assumes "serve_start cr tk addr tx item b = (Inr pk, b1)" and "chan_alive (b_channels b1) j"
  shows "\<exists>h a kd ts sg rid handle kind. verified_in cr (tk_now tk) item (Register pk h a kd ts sg rid) \<and>
    handle \<in> {None, h} \<and>
    fst (dispatch cr tk' spk j (LookupPeer q pk ts' sg' rid') b1) = Inr () \<and>
    chan_log (b_channels (snd (dispatch cr tk' spk j (LookupPeer q pk ts' sg' rid') b1))) j =
      chan_log (b_channels b1) j @ [PeerInfo pk handle a (Some (format_reflected addr)) True kind rid']"
proof -
  from serve_start_accepted [OF assms(1)] obtain h a kd ts sg rid where
    v: "verified_in cr (tk_now tk) item (Register pk h a kd ts sg rid)"
    and b1: "b1 = register_peer cr tk addr pk h a (unwrap_or User kd) rid tx b" by blast
  have "\<exists>handle \<in> {None, h}. reg_get (b_registry b1) pk =
      Some \<lparr>ph_pubkey = pk, ph_handle = handle, ph_addresses = a, ph_reflected = addr, ph_tx = tx\<rparr>"
    unfolding b1 register_peer_def Let_def split_beta by simp
  then obtain handle where "handle \<in> {None, h}" and g: "reg_get (b_registry b1) pk =
      Some \<lparr>ph_pubkey = pk, ph_handle = handle, ph_addresses = a, ph_reflected = addr, ph_tx = tx\<rparr>" by blast
  moreover obtain kind b2 where k: "resolved_kind cr pk b1 = (kind, b2)" by fastforce
  moreover have "b_channels b2 = b_channels b1" using resolved_kind_channels [of cr pk b1] k by simp
  ultimately have "fst (dispatch cr tk' spk j (LookupPeer q pk ts' sg' rid') b1) = Inr ()"
    "chan_log (b_channels (snd (dispatch cr tk' spk j (LookupPeer q pk ts' sg' rid') b1))) j =
      chan_log (b_channels b1) j @ [PeerInfo pk handle a (Some (format_reflected addr)) True kind rid']"
    using assms(2) by (simp_all add: on_lookup_peer_def Let_def send_tx_def)
  with v \<open>handle \<in> {None, h}\<close> show ?thesis by blast
qed

theorem registered_peer_found_witness:
  "\<exists>a kind b1. serve_start demo_wire demo_tick (V4 10 0 0 1 4000) 1 (demo_text ''r1'') (open_channel 1 in_memory) = (Inr (demo_key CHR ''1''), b1) \<and>
     PeerInfo (demo_key CHR ''1'') None a (Some (format_reflected (V4 10 0 0 1 4000))) True kind None
       \<in> set (chan_log (b_channels (snd (dispatch demo_wire demo_tick (demo_key CHR ''1'') 1
           (LookupPeer (demo_key CHR ''1'') (demo_key CHR ''1'') 1000 [] None) b1))) 1)"
proof -
  let ?b = "register_peer demo_wire demo_tick (V4 10 0 0 1 4000) (demo_key CHR ''1'') None default_addresses User None 1 (open_channel 1 in_memory)"
  have "chan_alive (b_channels ?b) 1"
    by (simp add: register_peer_def register_db_def in_memory_def open_channel_def send_tx_def broadcast_def presence_new_def chan_insert)
  from registered_peer_found [OF demo_starts(1) this, where tk' = demo_tick and spk = "demo_key CHR ''1''"
      and q = "demo_key CHR ''1''" and ts' = 1000 and sg' = "[]" and rid' = None]
  obtain h a kd ts sg rid handle kind where
    m: "verified_in demo_wire (tk_now demo_tick) (demo_text ''r1'') (Register (demo_key CHR ''1'') h a kd ts sg rid)"
      "handle \<in> {None, h}" and
    l: "chan_log (b_channels (snd (dispatch demo_wire demo_tick (demo_key CHR ''1'') 1
          (LookupPeer (demo_key CHR ''1'') (demo_key CHR ''1'') 1000 [] None) ?b))) 1 =
        chan_log (b_channels ?b) 1 @ [PeerInfo (demo_key CHR ''1'') handle a (Some (format_reflected (V4 10 0 0 1 4000))) True kind None]"
    by blast
  have "handle = None" using m by (auto simp: verified_in_def demo_read_def)
  with l demo_starts(1) show ?thesis by (metis in_set_conv_decomp)
qed

text \<open>
  A subscription is answered completely: the session that subscribes gets one
  acknowledgement and then, for each peer it named and in that order, whether that peer is
  connected; from then on it watches exactly what it watched before and those peers; no other
  channel and neither the registry nor the relay is touched.
\<close>
theorem subscription_answered:
  assumes "presence_inv (b_presence b)"
  shows "case dispatch cr tk spk tx (SubscribePresence pk peers ts sg rid) b of (r, b') \<Rightarrow>
    r = Inr () \<and>
    (\<forall>j. chan_log (b_channels b') j = chan_log (b_channels b) j @
       (if j = tx \<and> chan_alive (b_channels b) tx
        then SubscribePresenceAck peers rid # map (\<lambda>q. PresenceUpdate q (reg_is_online (b_registry b) q)) peers else [])) \<and>
    watches (b_presence b') = watches (b_presence b) \<union> {spk} \<times> set peers \<and>
    b_registry b' = b_registry b \<and> b_relay b' = b_relay b \<and> b_db b' = b_db b"
  using presence_inv_subscribe(2) [OF assms, of spk peers]
  by (simp add: on_subscribe_def Let_def fold_send_log send_tx_log reg_online_set_def reg_is_online_def comp_def)

theorem subscription_answered_witness:
  "watches (b_presence (snd (dispatch demo_wire demo_tick (demo_key CHR ''1'') 1
     (SubscribePresence (demo_key CHR ''1'') [demo_key CHR ''2''] 1000 [] None) in_memory))) = {(demo_key CHR ''1'', demo_key CHR ''2'')}"
proof -
  have "presence_inv (b_presence in_memory)" "watches (b_presence in_memory) = {}"
    by (simp_all add: in_memory_def presence_inv_new) (simp add: watches_def subs_of_def presence_new_def)
  with subscription_answered [OF this(1), where cr = demo_wire and tk = demo_tick and spk = "demo_key CHR ''1''" and tx = 1
      and pk = "demo_key CHR ''1''" and peers = "[demo_key CHR ''2'']" and ts = 1000 and sg = "[]" and rid = None]
  show ?thesis by (simp add: split_beta)
qed

end
